(* ===== verification/Shim_Base.thy ===== *)
theory Shim_Base
  imports Main "HOL-Library.Word" "HOL-Library.Code_Target_Nat" "HOL-Library.Code_Target_Int"
begin

text \<open>
  The prelude of the development: the machine types, the status codes, the
  bounds-checked memory, the checked arithmetic and the allocator that every component
  of the shim model uses, with the lemmas on them that the component proofs share.

  Memory is a list of bytes. A pointer into a buffer is an index, and every load and
  store is bounds-checked: an access outside the buffer has no defined result in C, and
  is \<open>None\<close> in the model. A function of the model that returns \<open>Some\<close> has therefore
  touched nothing outside the buffer it was given.
\<close>

unbundle bit_operations_syntax

named_theorems mem_simps \<open>evaluation of bounds-checked accesses\<close>
named_theorems status_simps \<open>which status codes are errors\<close>

text \<open>A result of a call, from its status.\<close>

lemma Some_pairI: "\<not> Option.is_none x \<Longrightarrow> fst (the x) = a \<Longrightarrow> x = Some (a, snd (the x))"
  by (cases x) auto

section \<open>Machine types\<close>

type_synonym byte = "8 word"
type_synonym buf = "byte list"

text \<open>The status codes of \<^verbatim>\<open>efierr.h\<close> that the modelled code returns or compares with.
  \<open>EFI_WARNING\<close> stands for the codes without the error bit other than success,
  \<open>EFI_OTHER\<close> for the error codes the code never names.\<close>

datatype efi_status =
    EFI_SUCCESS | EFI_LOAD_ERROR | EFI_INVALID_PARAMETER | EFI_UNSUPPORTED
  | EFI_BAD_BUFFER_SIZE | EFI_BUFFER_TOO_SMALL | EFI_NOT_READY | EFI_DEVICE_ERROR
  | EFI_WRITE_PROTECTED | EFI_OUT_OF_RESOURCES | EFI_NOT_FOUND | EFI_ACCESS_DENIED
  | EFI_ALREADY_STARTED | EFI_ABORTED | EFI_PROTOCOL_ERROR | EFI_SECURITY_VIOLATION
  | EFI_HTTP_ERROR | EFI_TFTP_ERROR | EFI_VOLUME_FULL | EFI_WARNING nat | EFI_OTHER nat

fun EFI_ERROR :: "efi_status \<Rightarrow> bool" where
  "EFI_ERROR EFI_SUCCESS = False"
| "EFI_ERROR (EFI_WARNING n) = False"
| "EFI_ERROR _ = True"

lemmas [status_simps] = EFI_ERROR.simps

lemma EFI_ERROR_not_success: "EFI_ERROR s \<Longrightarrow> s \<noteq> EFI_SUCCESS"
  by auto

section \<open>Bounds-checked memory\<close>

definition rd :: "buf \<Rightarrow> nat \<Rightarrow> byte option" where
  "rd b i = (if i < length b then Some (b ! i) else None)"

definition wr :: "buf \<Rightarrow> nat \<Rightarrow> byte \<Rightarrow> buf option" where
  "wr b i v = (if i < length b then Some (b[i := v]) else None)"

definition rdn :: "buf \<Rightarrow> nat \<Rightarrow> nat \<Rightarrow> buf option" where
  "rdn b i n = (if i + n \<le> length b then Some (take n (drop i b)) else None)"

lemma rd_in [mem_simps]: "i < length b \<Longrightarrow> rd b i = Some (b ! i)"
  by (simp add: rd_def)

lemma wr_in [mem_simps]: "i < length b \<Longrightarrow> wr b i v = Some (b[i := v])"
  by (simp add: wr_def)

lemma rdn_in [mem_simps]: "i + n \<le> length b \<Longrightarrow> rdn b i n = Some (take n (drop i b))"
  by (simp add: rdn_def)

lemma rd_Some_iff: "rd b i = Some v \<longleftrightarrow> i < length b \<and> v = b ! i"
  by (auto simp: rd_def)

lemma rdn_Some_iff: "rdn b i n = Some v \<longleftrightarrow> i + n \<le> length b \<and> v = take n (drop i b)"
  by (auto simp: rdn_def)

lemma rdn_length: "rdn b i n = Some v \<Longrightarrow> length v = n"
  by (auto simp: rdn_Some_iff)

text \<open>Little-endian loads of 2, 4 and 8 bytes.\<close>

fun le_val :: "buf \<Rightarrow> nat" where
  "le_val [] = 0"
| "le_val (x # xs) = unat x + 256 * le_val xs"

fun le_bytes :: "nat \<Rightarrow> nat \<Rightarrow> buf" where
  "le_bytes 0 v = []"
| "le_bytes (Suc n) v = word_of_nat (v mod 256) # le_bytes n (v div 256)"

definition rd_le :: "nat \<Rightarrow> buf \<Rightarrow> nat \<Rightarrow> nat option" where
  "rd_le n b i = map_option le_val (rdn b i n)"

definition rd16 :: "buf \<Rightarrow> nat \<Rightarrow> nat option" where
  "rd16 = rd_le 2"

definition rd32 :: "buf \<Rightarrow> nat \<Rightarrow> nat option" where
  "rd32 = rd_le 4"

definition rd64 :: "buf \<Rightarrow> nat \<Rightarrow> nat option" where
  "rd64 = rd_le 8"

lemma le_val_bound: "le_val xs < 256 ^ length xs"
proof (induction xs)
  case Nil
  then show ?case by simp
next
  case (Cons x xs)
  have "unat x < 256" using unsigned_less [of x] by simp
  moreover have "le_val xs + 1 \<le> 256 ^ length xs" using Cons.IH by simp
  then have "256 * (le_val xs + 1) \<le> 256 * 256 ^ length xs" by (rule mult_le_mono2)
  ultimately show ?case by simp
qed

lemma length_le_bytes [simp]: "length (le_bytes n v) = n"
  by (induction n arbitrary: v) auto

lemma unat_byte_mod: "unat (word_of_nat (v mod 256) :: byte) = v mod 256"
  by (simp add: unat_of_nat)

text \<open>Storing a value in n little-endian bytes and loading it back gives it modulo \<open>256 ^ n\<close>.\<close>

lemma le_val_le_bytes: "le_val (le_bytes n v) = v mod 256 ^ n"
proof (induction n arbitrary: v)
  case 0
  then show ?case by simp
next
  case (Suc n)
  have "le_val (le_bytes (Suc n) v) = v mod 256 + 256 * (v div 256 mod 256 ^ n)"
    by (simp add: Suc.IH unat_byte_mod)
  also have "\<dots> = v mod (256 * 256 ^ n)"
    by (simp add: mod_mult2_eq)
  finally show ?case by simp
qed

lemma rd_le_bound: "rd_le n b i = Some v \<Longrightarrow> v < 256 ^ n"
  using le_val_bound by (auto simp: rd_le_def dest: rdn_length)

lemma rd_le_in: "i + n \<le> length b \<Longrightarrow> \<exists>v. rd_le n b i = Some v"
  by (simp add: rd_le_def mem_simps)

lemma rd16_bound: "rd16 b i = Some v \<Longrightarrow> v < 2 ^ 16"
  using rd_le_bound [of 2] by (fastforce simp: rd16_def)

lemma rd32_bound: "rd32 b i = Some v \<Longrightarrow> v < 2 ^ 32"
  using rd_le_bound [of 4] by (fastforce simp: rd32_def)

lemma rd64_bound: "rd64 b i = Some v \<Longrightarrow> v < 2 ^ 64"
  using rd_le_bound [of 8] by (fastforce simp: rd64_def)

lemma rd16_in: "i + 2 \<le> length b \<Longrightarrow> \<exists>v. rd16 b i = Some v"
  and rd32_in: "i + 4 \<le> length b \<Longrightarrow> \<exists>v. rd32 b i = Some v"
  and rd64_in: "i + 8 \<le> length b \<Longrightarrow> \<exists>v. rd64 b i = Some v"
  by (simp_all add: rd16_def rd32_def rd64_def rd_le_in)

text \<open>Overwriting a part of a buffer, and the bounds-checked store of several bytes
  (\<^verbatim>\<open>CopyMem\<close> into the buffer).\<close>

definition put :: "buf \<Rightarrow> nat \<Rightarrow> buf \<Rightarrow> buf" where
  "put b i s = take i b @ s @ drop (i + length s) b"

lemma length_put [simp]: "i + length s \<le> length b \<Longrightarrow> length (put b i s) = length b"
  by (simp add: put_def)

lemma put_update:
  "i < length b \<Longrightarrow> put (b[i := c]) (Suc i) s = put b i (c # s)"
  by (simp add: put_def take_Suc_conv_app_nth take_update_cancel)

lemma put_single: "i < length b \<Longrightarrow> b[i := c] = put b i [c]"
  by (simp add: put_def upd_conv_take_nth_drop)

lemma put_two: "Suc i < length b \<Longrightarrow> b[i := x, Suc i := y] = put b i [x, y]"
  using put_update [of i b x "[y]"] put_single [of "Suc i" "b[i := x]" y] by simp

lemma put_zeros: "length s = m \<Longrightarrow> put (replicate (m + 1) 0) 0 s = s @ [0]"
  unfolding put_def by (subst drop_replicate) simp

definition wrn :: "buf \<Rightarrow> nat \<Rightarrow> buf \<Rightarrow> buf option" where
  "wrn b i s = (if i + length s \<le> length b then Some (put b i s) else None)"

lemma wrn_in [mem_simps]: "i + length s \<le> length b \<Longrightarrow> wrn b i s = Some (put b i s)"
  by (simp add: wrn_def)

lemma put_all: "length s = length b \<Longrightarrow> put b 0 s = s"
  by (simp add: put_def)

lemma nth_put:
  "i + length s \<le> length b \<Longrightarrow> j < length b \<Longrightarrow>
    put b i s ! j = (if i \<le> j \<and> j < i + length s then s ! (j - i) else b ! j)"
  by (auto simp: put_def nth_append min_def)

lemma put_append: "length x = i \<Longrightarrow> put (x @ y) i s = x @ put y 0 s"
  by (simp add: put_def)

section \<open>Fixed-width arithmetic\<close>

text \<open>\<^verbatim>\<open>size_t\<close>, \<^verbatim>\<open>UINTN\<close>, \<^verbatim>\<open>uintptr_t\<close> and \<^verbatim>\<open>unsigned long\<close> are 64 bits wide (the x86_64
  and aarch64 builds). Values are naturals with the wrap-around written out.
  \<^verbatim>\<open>checked_add\<close>, \<^verbatim>\<open>checked_sub\<close> and \<^verbatim>\<open>checked_mul\<close> of \<^verbatim>\<open>include/compiler.h\<close> are the
  compiler's overflow builtins into a 64-bit destination: \<open>None\<close> is the overflow result.\<close>

definition checked_add :: "nat \<Rightarrow> nat \<Rightarrow> nat option" where
  "checked_add a b = (if a + b < 2 ^ 64 then Some (a + b) else None)"

definition checked_sub :: "nat \<Rightarrow> nat \<Rightarrow> nat option" where
  "checked_sub a b = (if b \<le> a then Some (a - b) else None)"

definition checked_mul :: "nat \<Rightarrow> nat \<Rightarrow> nat option" where
  "checked_mul a b = (if a * b < 2 ^ 64 then Some (a * b) else None)"

definition sub64 :: "nat \<Rightarrow> nat \<Rightarrow> nat" where
  "sub64 a b = (a + 2 ^ 64 - b) mod 2 ^ 64"

definition add64 :: "nat \<Rightarrow> nat \<Rightarrow> nat" where
  "add64 a b = (a + b) mod 2 ^ 64"

definition sub32 :: "nat \<Rightarrow> nat \<Rightarrow> nat" where
  "sub32 a b = (a + 2 ^ 32 - b) mod 2 ^ 32"

definition add32 :: "nat \<Rightarrow> nat \<Rightarrow> nat" where
  "add32 a b = (a + b) mod 2 ^ 32"

lemma checked_add_Some: "checked_add a b = Some c \<longleftrightarrow> c = a + b \<and> a + b < 2 ^ 64"
  by (auto simp: checked_add_def)

lemma checked_sub_Some: "checked_sub a b = Some c \<longleftrightarrow> b \<le> a \<and> c = a - b"
  by (auto simp: checked_sub_def)

lemma checked_mul_Some: "checked_mul a b = Some c \<longleftrightarrow> c = a * b \<and> a * b < 2 ^ 64"
  by (auto simp: checked_mul_def)

lemma sub64_le: "b \<le> a \<Longrightarrow> a < 2 ^ 64 \<Longrightarrow> sub64 a b = a - b"
  by (simp add: sub64_def Nat.diff_add_assoc2 [symmetric] mod_if)

lemma sub32_le: "b \<le> a \<Longrightarrow> a < 2 ^ 32 \<Longrightarrow> sub32 a b = a - b"
  by (simp add: sub32_def mod_if)

section \<open>The pool allocator\<close>

text \<open>\<^verbatim>\<open>AllocatePool\<close> and \<^verbatim>\<open>AllocateZeroPool\<close> are firmware services that may fail at any call.
  A pool is the sequence of the firmware's answers: entry \<open>k\<close> says whether the \<open>k\<close>-th
  request, of the given size, succeeds.\<close>

type_synonym pool = "nat \<Rightarrow> nat \<Rightarrow> bool"

definition AllocatePool :: "pool \<Rightarrow> nat \<Rightarrow> bool \<times> pool" where
  "AllocatePool p sz = (p 0 sz, \<lambda>k. p (Suc k))"

definition pool_ok :: "pool \<Rightarrow> bool" where
  "pool_ok p \<longleftrightarrow> (\<forall>k sz. p k sz)"

lemma AllocatePool_ok: "pool_ok p \<Longrightarrow> AllocatePool p sz = (True, \<lambda>k. p (Suc k))"
  by (simp add: AllocatePool_def pool_ok_def)

lemma pool_ok_Suc: "pool_ok p \<Longrightarrow> pool_ok (\<lambda>k. p (Suc k))"
  by (simp add: pool_ok_def)

section \<open>C strings\<close>

text \<open>The bytes of a string literal.\<close>

definition lit :: "string \<Rightarrow> buf" where
  "lit s = map of_char s"

text \<open>The NUL-terminated string at an index: \<open>None\<close> if the terminator is outside the
  buffer.\<close>

function cstr :: "buf \<Rightarrow> nat \<Rightarrow> buf option" where
  "cstr b i = (case rd b i of
       None \<Rightarrow> None
     | Some c \<Rightarrow> if c = 0 then Some [] else map_option ((#) c) (cstr b (Suc i)))"
  by pat_completeness auto
termination
  by (relation "measure (\<lambda>(b, i). length b - i)") (auto simp: rd_Some_iff)

declare cstr.simps [simp del]

lemma cstr_append:
  assumes "0 \<notin> set s" and "i + length s < length b" and "take (length s) (drop i b) = s"
    and "b ! (i + length s) = 0"
  shows "cstr b i = Some s"
  using assms
proof (induction s arbitrary: i)
  case Nil
  then show ?case by (subst cstr.simps) (simp add: mem_simps)
next
  case (Cons c s)
  have i: "i < length b" using Cons.prems(2) by simp
  then have hd: "b ! i = c" and tl: "take (length s) (drop (Suc i) b) = s"
    using Cons.prems(3) by (auto simp: Cons_nth_drop_Suc [symmetric])
  have "cstr b (Suc i) = Some s"
    using Cons.prems tl by (intro Cons.IH) auto
  then show ?case
    using Cons.prems(1) i hd by (subst cstr.simps) (simp add: mem_simps)
qed

lemma cstr_Some_bounds: "cstr b i = Some s \<Longrightarrow> i + length s < length b \<and> 0 \<notin> set s"
proof (induction b i arbitrary: s rule: cstr.induct)
  case (1 b i)
  from "1.prems" obtain c where c: "rd b i = Some c"
    by (subst (asm) cstr.simps) (auto split: option.splits)
  show ?case
  proof (cases "c = 0")
    case True
    with "1.prems" c show ?thesis
      by (subst (asm) cstr.simps) (auto simp: rd_Some_iff)
  next
    case False
    with "1.prems" c obtain s' where s': "cstr b (Suc i) = Some s'" and "s = c # s'"
      by (subst (asm) cstr.simps) auto
    with "1.IH" [OF c False s'] False show ?thesis by auto
  qed
qed

lemma cstr_Some_nth:
  "cstr b i = Some s \<Longrightarrow> take (length s) (drop i b) = s \<and> b ! (i + length s) = 0"
proof (induction b i arbitrary: s rule: cstr.induct)
  case (1 b i)
  from "1.prems" obtain c where c: "rd b i = Some c"
    by (subst (asm) cstr.simps) (auto split: option.splits)
  show ?case
  proof (cases "c = 0")
    case True
    with "1.prems" c show ?thesis
      by (subst (asm) cstr.simps) (auto simp: rd_Some_iff)
  next
    case False
    with "1.prems" c obtain s' where s': "cstr b (Suc i) = Some s'" and s: "s = c # s'"
      by (subst (asm) cstr.simps) auto
    from c have i: "i < length b" "b ! i = c" by (auto simp: rd_Some_iff)
    then have "drop i b = c # drop (Suc i) b" by (auto simp: Cons_nth_drop_Suc)
    with "1.IH" [OF c False s'] s i show ?thesis by auto
  qed
qed

text \<open>A string read does not depend on the bytes after its terminator.\<close>

lemma cstr_frame:
  assumes "cstr b i = Some s" and "length b' = length b"
    and "\<And>k. i \<le> k \<Longrightarrow> k \<le> i + length s \<Longrightarrow> b' ! k = b ! k"
  shows "cstr b' i = Some s"
proof (rule cstr_append)
  note bd = cstr_Some_bounds [OF assms(1)] and nth = cstr_Some_nth [OF assms(1)]
  show "0 \<notin> set s" using bd by simp
  show "i + length s < length b'" using bd assms(2) by simp
  show "b' ! (i + length s) = 0" using nth assms(3) by simp
  have "take (length s) (drop i b') = take (length s) (drop i b)"
    using bd assms(2,3) by (intro nth_equalityI) auto
  then show "take (length s) (drop i b') = s" using nth by simp
qed

text \<open>The string at an index, by its first character: the two equations that the proofs on
  string loops use, by induction on the string.\<close>

lemma cstr_Nil: "cstr b i = Some [] \<longleftrightarrow> i < length b \<and> b ! i = 0"
  by (subst cstr.simps) (auto simp: rd_def)

lemma cstr_Cons:
  "cstr b i = Some (c # s) \<longleftrightarrow> i < length b \<and> b ! i = c \<and> c \<noteq> 0 \<and> cstr b (Suc i) = Some s"
  by (subst cstr.simps) (auto simp: rd_def)

lemmas cstr_simps = cstr_Nil cstr_Cons

lemma nth_cstr:
  assumes "cstr b s = Some r" and "k < length r"
  shows "b ! (s + k) = r ! k"
proof -
  have "take (length r) (drop s b) ! k = b ! (s + k)"
    using cstr_Some_bounds [OF assms(1)] assms(2) by simp
  then show ?thesis using cstr_Some_nth [OF assms(1)] by simp
qed

section \<open>GUIDs and UCS-2 strings\<close>

text \<open>\<^verbatim>\<open>EFI_GUID\<close>: \<^verbatim>\<open>Data1\<close>, \<^verbatim>\<open>Data2\<close>, \<^verbatim>\<open>Data3\<close> and the eight bytes of \<^verbatim>\<open>Data4\<close>. In memory
  a GUID is sixteen bytes, the three numbers little-endian.\<close>

datatype efi_guid =
  GUID "32 word" "16 word" "16 word" byte byte byte byte byte byte byte byte

fun guid_bytes :: "efi_guid \<Rightarrow> buf" where
  "guid_bytes (GUID a b c d0 d1 d2 d3 d4 d5 d6 d7) =
     le_bytes 4 (unat a) @ le_bytes 2 (unat b) @ le_bytes 2 (unat c) @
     [d0, d1, d2, d3, d4, d5, d6, d7]"

lemma length_guid_bytes [simp]: "length (guid_bytes g) = 16"
  by (cases g) simp

lemma le_bytes_inj:
  assumes "le_bytes n v = le_bytes n w" and "v < 256 ^ n" and "w < 256 ^ n"
  shows "v = w"
  using arg_cong [OF assms(1), of le_val] assms(2,3) by (simp add: le_val_le_bytes)

lemma guid_bytes_inj: "guid_bytes g = guid_bytes h \<Longrightarrow> g = h"
proof (cases g; cases h)
  fix a b c d0 d1 d2 d3 d4 d5 d6 d7 a' b' c' e0 e1 e2 e3 e4 e5 e6 e7
  assume eq: "guid_bytes g = guid_bytes h"
    and g: "g = GUID a b c d0 d1 d2 d3 d4 d5 d6 d7" and h: "h = GUID a' b' c' e0 e1 e2 e3 e4 e5 e6 e7"
  have "le_bytes 4 (unat a) = le_bytes 4 (unat a')" "le_bytes 2 (unat b) = le_bytes 2 (unat b')"
    "le_bytes 2 (unat c) = le_bytes 2 (unat c')"
    using eq by (auto simp: g h)
  then have "unat a = unat a'" "unat b = unat b'" "unat c = unat c'"
    using unsigned_less [of a] unsigned_less [of a'] unsigned_less [of b] unsigned_less [of b']
      unsigned_less [of c] unsigned_less [of c'] by (auto elim!: le_bytes_inj)
  then show "g = h" using eq by (simp add: g h word_unat_eq_iff)
qed

text \<open>A \<^verbatim>\<open>CHAR16\<close> string, without its terminator.\<close>

type_synonym ucs2 = "16 word list"

definition wlit :: "string \<Rightarrow> ucs2" where
  "wlit s = map of_char s"

text \<open>\<^verbatim>\<open>StrCmp\<close> of the EFI library: zero for equal strings, otherwise the sign of the first
  difference.\<close>

fun StrCmp :: "ucs2 \<Rightarrow> ucs2 \<Rightarrow> int" where
  "StrCmp [] [] = 0"
| "StrCmp [] (y # t) = -1"
| "StrCmp (x # s) [] = 1"
| "StrCmp (x # s) (y # t) = (if x = y then StrCmp s t else uint x - uint y)"

lemma StrCmp_zero [simp]: "StrCmp s t = 0 \<longleftrightarrow> s = t"
  by (induction s t rule: StrCmp.induct) (auto simp: word_uint_eq_iff)

definition StrSize :: "ucs2 \<Rightarrow> nat" where
  "StrSize s = 2 * (length s + 1)"

section \<open>Variable attributes\<close>

definition EFI_VARIABLE_NON_VOLATILE :: "32 word" where
  "EFI_VARIABLE_NON_VOLATILE = 0x1"
definition EFI_VARIABLE_BOOTSERVICE_ACCESS :: "32 word" where
  "EFI_VARIABLE_BOOTSERVICE_ACCESS = 0x2"
definition EFI_VARIABLE_RUNTIME_ACCESS :: "32 word" where
  "EFI_VARIABLE_RUNTIME_ACCESS = 0x4"
definition EFI_VARIABLE_TIME_BASED_AUTHENTICATED_WRITE_ACCESS :: "32 word" where
  "EFI_VARIABLE_TIME_BASED_AUTHENTICATED_WRITE_ACCESS = 0x20"
definition EFI_VARIABLE_APPEND_WRITE :: "32 word" where
  "EFI_VARIABLE_APPEND_WRITE = 0x40"
definition EFI_VARIABLE_ENHANCED_AUTHENTICATED_ACCESS :: "32 word" where
  "EFI_VARIABLE_ENHANCED_AUTHENTICATED_ACCESS = 0x80"

lemmas attr_defs = EFI_VARIABLE_NON_VOLATILE_def EFI_VARIABLE_BOOTSERVICE_ACCESS_def
  EFI_VARIABLE_RUNTIME_ACCESS_def EFI_VARIABLE_TIME_BASED_AUTHENTICATED_WRITE_ACCESS_def
  EFI_VARIABLE_APPEND_WRITE_def EFI_VARIABLE_ENHANCED_AUTHENTICATED_ACCESS_def

end
