(* ===== verification/Cstring.thy ===== *)
theory Cstring
  imports Shim_Base
begin

text \<open>
  The C string functions of \<^verbatim>\<open>lib/string.c\<close>, and \<^verbatim>\<open>toupper\<close> of \<^verbatim>\<open>include/system/ctype.h\<close>.
  A string argument is a buffer and an index into it; a function with two strings takes
  two buffers. The loops are translated as loops over bounds-checked loads, and the lemmas
  show what they compute on NUL-terminated strings.
\<close>

section \<open>Length and comparison\<close>

function strlen_loop :: "buf \<Rightarrow> nat \<Rightarrow> nat \<Rightarrow> nat option" where
  "strlen_loop b s1 len =
     (case rd b s1 of
        None \<Rightarrow> None
      | Some c \<Rightarrow> if c \<noteq> 0 then strlen_loop b (s1 + 1) (len + 1) else Some len)"
  by pat_completeness auto
termination
  by (relation "measure (\<lambda>(b, i, _). length b - i)") (auto simp: rd_Some_iff)

definition strlen :: "buf \<Rightarrow> nat \<Rightarrow> nat option" where
  "strlen b s1 = strlen_loop b s1 0"

text \<open>The comparisons return the difference of the bytes where they stop, as an \<^verbatim>\<open>int\<close>.\<close>

function strcmp :: "buf \<Rightarrow> nat \<Rightarrow> buf \<Rightarrow> nat \<Rightarrow> int option" where
  "strcmp b1 s1 b2 s2 =
     (case rd b1 s1 of
        None \<Rightarrow> None
      | Some x \<Rightarrow>
          (case rd b2 s2 of
             None \<Rightarrow> None
           | Some y \<Rightarrow>
               if x \<noteq> 0 \<and> x = y then strcmp b1 (s1 + 1) b2 (s2 + 1)
               else Some (uint x - uint y)))"
  by pat_completeness auto
termination
  by (relation "measure (\<lambda>(b, i, _). length b - i)") (auto simp: rd_Some_iff)

text \<open>\<^verbatim>\<open>strncmp\<close> loads \<^verbatim>\<open>*s1\<close> before it looks at \<open>len\<close>; with \<open>len = 0\<close> it does not load \<^verbatim>\<open>*s2\<close>.\<close>

fun strncmp :: "buf \<Rightarrow> nat \<Rightarrow> buf \<Rightarrow> nat \<Rightarrow> nat \<Rightarrow> int option" where
  "strncmp b1 s1 b2 s2 0 = (case rd b1 s1 of None \<Rightarrow> None | Some x \<Rightarrow> Some 0)"
| "strncmp b1 s1 b2 s2 (Suc len) =
     (case rd b1 s1 of
        None \<Rightarrow> None
      | Some x \<Rightarrow>
          (case rd b2 s2 of
             None \<Rightarrow> None
           | Some y \<Rightarrow>
               if x \<noteq> 0 \<and> x = y then strncmp b1 (s1 + 1) b2 (s2 + 1) len
               else Some (uint x - uint y)))"

definition toupper :: "byte \<Rightarrow> byte" where
  "toupper c = (if 0x61 \<le> c \<and> c \<le> 0x7A then c - (0x61 - 0x41) else c)"

text \<open>\<^verbatim>\<open>strncasecmp\<close> compares upper-cased bytes but returns the difference of the bytes
  themselves; \<^verbatim>\<open>strcasecmp\<close> returns the difference of the upper-cased bytes.\<close>

fun strncasecmp :: "buf \<Rightarrow> nat \<Rightarrow> buf \<Rightarrow> nat \<Rightarrow> nat \<Rightarrow> int option" where
  "strncasecmp b1 s1 b2 s2 0 = (case rd b1 s1 of None \<Rightarrow> None | Some x \<Rightarrow> Some 0)"
| "strncasecmp b1 s1 b2 s2 (Suc n) =
     (case rd b1 s1 of
        None \<Rightarrow> None
      | Some x \<Rightarrow>
          (case rd b2 s2 of
             None \<Rightarrow> None
           | Some y \<Rightarrow>
               if x \<noteq> 0 \<and> toupper x = toupper y then strncasecmp b1 (s1 + 1) b2 (s2 + 1) n
               else Some (uint x - uint y)))"

function strcasecmp :: "buf \<Rightarrow> nat \<Rightarrow> buf \<Rightarrow> nat \<Rightarrow> int option" where
  "strcasecmp b1 str1 b2 str2 =
     (case rd b1 str1 of
        None \<Rightarrow> None
      | Some x \<Rightarrow>
          (case rd b2 str2 of
             None \<Rightarrow> None
           | Some y \<Rightarrow>
               if x \<noteq> 0 \<and> toupper x = toupper y then strcasecmp b1 (str1 + 1) b2 (str2 + 1)
               else Some (uint (toupper x) - uint (toupper y))))"
  by pat_completeness auto
termination
  by (relation "measure (\<lambda>(b, i, _). length b - i)") (auto simp: rd_Some_iff)

section \<open>Searching\<close>

function strrchr_loop :: "buf \<Rightarrow> nat \<Rightarrow> byte \<Rightarrow> nat option \<Rightarrow> nat option option" where
  "strrchr_loop b str c save =
     (case rd b str of
        None \<Rightarrow> None
      | Some x \<Rightarrow>
          if x = 0 then Some (if x = c then Some str else save)
          else strrchr_loop b (str + 1) c (if x = c then Some str else save))"
  by pat_completeness auto
termination
  by (relation "measure (\<lambda>(b, i, _). length b - i)") (auto simp: rd_Some_iff)

definition strrchr :: "buf \<Rightarrow> nat \<Rightarrow> byte \<Rightarrow> nat option option" where
  "strrchr b str c = strrchr_loop b str c None"

function strnlen_loop :: "buf \<Rightarrow> nat \<Rightarrow> nat \<Rightarrow> nat \<Rightarrow> nat option" where
  "strnlen_loop b s n i =
     (if i < n then
        (case rd b (s + i) of
           None \<Rightarrow> None
         | Some c \<Rightarrow> if c = 0 then Some i else strnlen_loop b s n (i + 1))
      else Some i)"
  by pat_completeness auto
termination
  by (relation "measure (\<lambda>(b, s, n, i). n - i)") auto

definition strnlen :: "buf \<Rightarrow> nat \<Rightarrow> nat \<Rightarrow> nat option" where
  "strnlen b s n = strnlen_loop b s n 0"

text \<open>The index of \<^verbatim>\<open>strchrnul\<close> is a 32-bit \<^verbatim>\<open>unsigned int\<close>: when it wraps the loop starts over
  and does not end.\<close>

function strchrnul_loop :: "buf \<Rightarrow> nat \<Rightarrow> byte \<Rightarrow> nat \<Rightarrow> nat option" where
  "strchrnul_loop b s c i =
     (case rd b (s + i) of
        None \<Rightarrow> None
      | Some x \<Rightarrow>
          if x \<noteq> 0 \<and> x \<noteq> c then
            (if i + 1 = 2 ^ 32 then None else strchrnul_loop b s c (i + 1))
          else Some (s + i))"
  by pat_completeness auto
termination
  by (relation "measure (\<lambda>(b, s, c, i). length b - (s + i))") (auto simp: rd_Some_iff)

definition strchrnul :: "buf \<Rightarrow> nat \<Rightarrow> byte \<Rightarrow> nat option" where
  "strchrnul b s c = strchrnul_loop b s c 0"

definition strchr :: "buf \<Rightarrow> nat \<Rightarrow> byte \<Rightarrow> nat option option" where
  "strchr b s c =
     (case strchrnul b s c of
        None \<Rightarrow> None
      | Some s1 \<Rightarrow>
          (case rd b s1 of None \<Rightarrow> None | Some x \<Rightarrow> Some (if x = 0 then None else Some s1)))"

text \<open>The inner loops of \<^verbatim>\<open>strspn\<close> and \<^verbatim>\<open>strcspn\<close>: \<open>found\<close> after looking at every character of
  the set.\<close>

function strspn_found :: "buf \<Rightarrow> nat \<Rightarrow> byte \<Rightarrow> bool \<Rightarrow> bool option" where
  "strspn_found acc i x found =
     (case rd acc i of
        None \<Rightarrow> None
      | Some c \<Rightarrow> if c \<noteq> 0 then strspn_found acc (i + 1) x (found \<or> x = c) else Some found)"
  by pat_completeness auto
termination
  by (relation "measure (\<lambda>(b, i, _). length b - i)") (auto simp: rd_Some_iff)

text \<open>\<open>stop\<close> is the value of \<open>found\<close> on which the outer loop breaks: \<open>False\<close> in \<^verbatim>\<open>strspn\<close>,
  \<open>True\<close> in \<^verbatim>\<open>strcspn\<close>.\<close>

function strspn_loop :: "bool \<Rightarrow> buf \<Rightarrow> nat \<Rightarrow> buf \<Rightarrow> nat \<Rightarrow> nat \<Rightarrow> nat option" where
  "strspn_loop stop b str acc a ret =
     (case rd b (str + ret) of
        None \<Rightarrow> None
      | Some x \<Rightarrow>
          if x = 0 then Some ret
          else (case strspn_found acc a x False of
                  None \<Rightarrow> None
                | Some found \<Rightarrow>
                    if found = stop then Some ret
                    else strspn_loop stop b str acc a (ret + 1)))"
  by pat_completeness auto
termination
  by (relation "measure (\<lambda>(_, b, s, _, _, r). length b - (s + r))") (auto simp: rd_Some_iff)

definition strspn :: "buf \<Rightarrow> nat \<Rightarrow> buf \<Rightarrow> nat \<Rightarrow> nat option" where
  "strspn b str acc a =
     (case rd acc a of
        None \<Rightarrow> None
      | Some c \<Rightarrow> if c = 0 then Some 0 else strspn_loop False b str acc a 0)"

definition strcspn :: "buf \<Rightarrow> nat \<Rightarrow> buf \<Rightarrow> nat \<Rightarrow> nat option" where
  "strcspn b str rej a = strspn_loop True b str rej a 0"

function strstr_loop :: "buf \<Rightarrow> nat \<Rightarrow> buf \<Rightarrow> nat \<Rightarrow> nat \<Rightarrow> nat \<Rightarrow> nat option option" where
  "strstr_loop b h nb n len j =
     (case rd b (h + j) of
        None \<Rightarrow> None
      | Some x \<Rightarrow>
          if x = 0 then Some None
          else (case strncmp b (h + j) nb n len of
                  None \<Rightarrow> None
                | Some d \<Rightarrow> if d = 0 then Some (Some (h + j))
                            else strstr_loop b h nb n len (j + 1)))"
  by pat_completeness auto
termination
  by (relation "measure (\<lambda>(b, h, _, _, _, j). length b - (h + j))") (auto simp: rd_Some_iff)

definition strstr :: "buf \<Rightarrow> nat \<Rightarrow> buf \<Rightarrow> nat \<Rightarrow> nat option option" where
  "strstr b haystack nb needle =
     (case strlen nb needle of
        None \<Rightarrow> None
      | Some len \<Rightarrow> strstr_loop b haystack nb needle len 0)"

section \<open>Copying\<close>

text \<open>The copies write into a destination buffer \<open>db\<close> from a source buffer \<open>sb\<close>; the two do
  not overlap. The result is the destination, and for \<^verbatim>\<open>stpcpy\<close> also the pointer to the
  terminator.\<close>

function stpcpy_loop :: "buf \<Rightarrow> nat \<Rightarrow> buf \<Rightarrow> nat \<Rightarrow> nat \<Rightarrow> (buf \<times> nat) option" where
  "stpcpy_loop db dest sb src i =
     (case rd sb (src + i) of
        None \<Rightarrow> None
      | Some c \<Rightarrow>
          (case wr db (dest + i) c of
             None \<Rightarrow> None
           | Some db' \<Rightarrow>
               if c \<noteq> 0 then stpcpy_loop db' dest sb src (i + 1) else Some (db', dest + i)))"
  by pat_completeness auto
termination
  by (relation "measure (\<lambda>(_, _, sb, src, i). length sb - (src + i))") (auto simp: rd_Some_iff)

definition stpcpy :: "buf \<Rightarrow> nat \<Rightarrow> buf \<Rightarrow> nat \<Rightarrow> (buf \<times> nat) option" where
  "stpcpy db dest sb src = stpcpy_loop db dest sb src 0"

definition strcpy :: "buf \<Rightarrow> nat \<Rightarrow> buf \<Rightarrow> nat \<Rightarrow> buf option" where
  "strcpy db dest sb src = map_option fst (stpcpy_loop db dest sb src 0)"

definition strcat :: "buf \<Rightarrow> nat \<Rightarrow> buf \<Rightarrow> nat \<Rightarrow> buf option" where
  "strcat db dest sb src =
     (case strlen db dest of
        None \<Rightarrow> None
      | Some dest_len \<Rightarrow> map_option fst (stpcpy_loop db (dest + dest_len) sb src 0))"

function strncpy_loop :: "buf \<Rightarrow> nat \<Rightarrow> buf \<Rightarrow> nat \<Rightarrow> nat \<Rightarrow> nat \<Rightarrow> buf option" where
  "strncpy_loop db dest sb src n i =
     (if i < n then
        (case rd sb (src + i) of
           None \<Rightarrow> None
         | Some c \<Rightarrow>
             (case wr db (dest + i) c of
                None \<Rightarrow> None
              | Some db' \<Rightarrow>
                  if c \<noteq> 0 then strncpy_loop db' dest sb src n (i + 1) else Some db'))
      else Some db)"
  by pat_completeness auto
termination
  by (relation "measure (\<lambda>(_, _, _, _, n, i). n - i)") auto

definition strncpy :: "buf \<Rightarrow> nat \<Rightarrow> buf \<Rightarrow> nat \<Rightarrow> nat \<Rightarrow> buf option" where
  "strncpy db dest sb src n = strncpy_loop db dest sb src n 0"

text \<open>\<^verbatim>\<open>strdup\<close> and \<^verbatim>\<open>strndup\<close> return the new zeroed buffer with the copy, or NULL.\<close>

definition strdup :: "buf \<Rightarrow> nat \<Rightarrow> pool \<Rightarrow> (buf option \<times> pool) option" where
  "strdup b src p =
     (case strlen b src of
        None \<Rightarrow> None
      | Some len \<Rightarrow>
          (case AllocatePool p (len + 1) of
             (False, p') \<Rightarrow> Some (None, p')
           | (True, p') \<Rightarrow>
               map_option (\<lambda>news. (Some news, p'))
                 (strncpy (replicate (len + 1) 0) 0 b src len)))"

definition strndup :: "buf \<Rightarrow> nat \<Rightarrow> nat \<Rightarrow> pool \<Rightarrow> (buf option \<times> pool) option" where
  "strndup b src srcmax p =
     (case strnlen b src srcmax of
        None \<Rightarrow> None
      | Some len \<Rightarrow>
          (case AllocatePool p (len + 1) of
             (False, p') \<Rightarrow> Some (None, p')
           | (True, p') \<Rightarrow>
               map_option (\<lambda>news. (Some news, p'))
                 (strncpy (replicate (len + 1) 0) 0 b src len)))"

text \<open>The indices \<open>i\<close> and \<open>j\<close> of \<^verbatim>\<open>translate_slashes\<close> are of type \<^verbatim>\<open>int\<close>: there is no result when \<open>i\<close>, which is never
  the smaller one, overflows.\<close>

function translate_slashes_loop :: "buf \<Rightarrow> nat \<Rightarrow> buf \<Rightarrow> nat \<Rightarrow> nat \<Rightarrow> nat \<Rightarrow> buf option" where
  "translate_slashes_loop ob out sb str i j =
     (case rd sb (str + i) of
        None \<Rightarrow> None
      | Some c \<Rightarrow>
          if c = 0 then wr ob (out + j) 0
          else if c = 0x5C then
            (case wr ob (out + j) 0x2F of
               None \<Rightarrow> None
             | Some ob' \<Rightarrow>
                 (case rd sb (str + i + 1) of
                    None \<Rightarrow> None
                  | Some c' \<Rightarrow>
                      let i' = (if c' = 0x5C then i + 2 else i + 1)
                      in if i' < 2 ^ 31 then translate_slashes_loop ob' out sb str i' (j + 1) else None))
          else
            (case wr ob (out + j) c of
               None \<Rightarrow> None
             | Some ob' \<Rightarrow>
                 if i + 1 < 2 ^ 31 then translate_slashes_loop ob' out sb str (i + 1) (j + 1) else None))"
  by pat_completeness auto
termination
  by (relation "measure (\<lambda>(_, _, sb, s, i, _). length sb - (s + i))") (auto simp: rd_Some_iff)

text \<open>\<^verbatim>\<open>out\<close> and \<^verbatim>\<open>str\<close> may be NULL. The result is the returned pointer and the output buffer.\<close>

definition translate_slashes ::
    "buf \<Rightarrow> nat option \<Rightarrow> buf \<Rightarrow> nat option \<Rightarrow> (nat option \<times> buf) option" where
  "translate_slashes ob out sb str =
     (case (out, str) of
        (Some q, Some s) \<Rightarrow> map_option (\<lambda>ob'. (Some q, ob')) (translate_slashes_loop ob q sb s 0 0)
      | _ \<Rightarrow> Some (None, ob))"

declare strlen_loop.simps [simp del] strcmp.simps [simp del] strcasecmp.simps [simp del]
  strrchr_loop.simps [simp del] strnlen_loop.simps [simp del] strchrnul_loop.simps [simp del]
  strspn_found.simps [simp del] strspn_loop.simps [simp del] strstr_loop.simps [simp del]
  stpcpy_loop.simps [simp del] strncpy_loop.simps [simp del]
  translate_slashes_loop.simps [simp del]

section \<open>What the functions compute\<close>

lemma strlen_loop_cstr: "strlen_loop b i k = map_option (\<lambda>s. k + length s) (cstr b i)"
proof (induction b i k rule: strlen_loop.induct)
  case (1 b i k)
  then show ?case
    by (subst strlen_loop.simps, subst cstr.simps)
      (auto simp: option.map_comp comp_def split: option.splits)
qed

lemma strlen_cstr: "strlen b i = map_option length (cstr b i)"
  by (simp add: strlen_def strlen_loop_cstr)

text \<open>The difference that the comparisons return, on strings.\<close>

fun str_diff :: "buf \<Rightarrow> buf \<Rightarrow> int" where
  "str_diff [] [] = 0"
| "str_diff [] (y # t) = - uint y"
| "str_diff (x # s) [] = uint x"
| "str_diff (x # s) (y # t) = (if x = y then str_diff s t else uint x - uint y)"

lemma str_diff_zero: "0 \<notin> set s \<Longrightarrow> 0 \<notin> set t \<Longrightarrow> str_diff s t = 0 \<longleftrightarrow> s = t"
  by (induction s t rule: str_diff.induct) (auto simp: word_uint_eq_iff)

lemma str_diff_neg:
  "0 \<notin> set s \<Longrightarrow> 0 \<notin> set t \<Longrightarrow> str_diff s t < 0 \<longleftrightarrow> (s, t) \<in> lexord {(x, y). x < y}"
proof (induction s t rule: str_diff.induct)
  case (2 y t)
  then have "uint y \<noteq> 0" by (auto simp: uint_0_iff)
  then have "0 < uint y" using uint_ge_0 [of y] by linarith
  then show ?case by simp
next
  case (4 x s y t)
  then show ?case by (auto simp: word_less_def)
qed auto

lemma strcmp_cstr:
  "cstr b1 i = Some s \<Longrightarrow> cstr b2 j = Some t \<Longrightarrow> strcmp b1 i b2 j = Some (str_diff s t)"
  by (induction s t arbitrary: i j rule: str_diff.induct)
    (subst strcmp.simps, auto simp: cstr_simps mem_simps)+

lemma strncmp_cstr:
  "cstr b1 i = Some s \<Longrightarrow> cstr b2 j = Some t \<Longrightarrow>
    strncmp b1 i b2 j n = Some (str_diff (take n s) (take n t))"
proof (induction n arbitrary: i j s t)
  case 0
  then show ?case using cstr_Some_bounds [of b1 i s] by (simp add: mem_simps)
next
  case (Suc n)
  then show ?case by (cases s; cases t) (auto simp: cstr_simps mem_simps)
qed

lemma toupper_0 [simp]: "toupper x = 0 \<longleftrightarrow> x = 0" "toupper 0 = 0"
  by (auto simp: toupper_def)

lemma strcasecmp_cstr:
  "cstr b1 i = Some s \<Longrightarrow> cstr b2 j = Some t \<Longrightarrow>
    strcasecmp b1 i b2 j = Some (str_diff (map toupper s) (map toupper t))"
proof (induction s arbitrary: i j t)
  case Nil
  then show ?case
    by (subst strcasecmp.simps) (cases t; auto simp: cstr_simps mem_simps)
next
  case (Cons x s)
  then show ?case
    by (subst strcasecmp.simps) (cases t; auto simp: cstr_simps mem_simps)
qed

lemma strchrnul_loop_cstr:
  "cstr b (i + k) = Some s \<Longrightarrow> k + length s < 2 ^ 32 \<Longrightarrow>
    strchrnul_loop b i c k = Some (i + k + length (takeWhile (\<lambda>x. x \<noteq> c) s))"
proof (induction s arbitrary: k)
  case Nil
  then show ?case by (subst strchrnul_loop.simps) (auto simp: cstr_simps mem_simps)
next
  case (Cons x s)
  then show ?case
    using Cons.IH [of "k + 1"]
    by (subst strchrnul_loop.simps) (auto simp: cstr_simps mem_simps)
qed

lemma strchrnul_cstr:
  "cstr b i = Some s \<Longrightarrow> length s < 2 ^ 32 \<Longrightarrow>
    strchrnul b i c = Some (i + length (takeWhile (\<lambda>x. x \<noteq> c) s))"
  using strchrnul_loop_cstr [of b i 0 s c] by (simp add: strchrnul_def)

lemma strchr_cstr:
  assumes s: "cstr b i = Some s" and "length s < 2 ^ 32" and "c \<noteq> 0"
  shows "strchr b i c =
    Some (if c \<in> set s then Some (i + length (takeWhile (\<lambda>x. x \<noteq> c) s)) else None)"
proof (cases "c \<in> set s")
  case True
  let ?k = "length (takeWhile (\<lambda>x. x \<noteq> c) s)"
  have k: "?k < length s" using True by (induction s) auto
  have "b ! (i + ?k) = c" using nth_cstr [OF s k] nth_length_takeWhile [OF k] by simp
  then show ?thesis
    using True k strchrnul_cstr [OF s assms(2)] cstr_Some_bounds [OF s] assms(3)
    by (simp add: strchr_def mem_simps)
next
  case False
  then have "length (takeWhile (\<lambda>x. x \<noteq> c) s) = length s" by (induction s) auto
  then show ?thesis
    using False strchrnul_cstr [OF s assms(2)] cstr_Some_bounds [OF s] cstr_Some_nth [OF s]
    by (simp add: strchr_def mem_simps)
qed

lemma strspn_found_cstr:
  "cstr acc a = Some t \<Longrightarrow> strspn_found acc a x f = Some (f \<or> x \<in> set t)"
proof (induction t arbitrary: a f)
  case Nil
  then show ?case by (subst strspn_found.simps) (simp add: cstr_simps mem_simps)
next
  case (Cons c t)
  then show ?case by (subst strspn_found.simps) (auto simp: cstr_simps mem_simps)
qed

lemma strspn_loop_cstr:
  "cstr b (str + k) = Some s \<Longrightarrow> cstr acc a = Some t \<Longrightarrow>
    strspn_loop stop b str acc a k = Some (k + length (takeWhile (\<lambda>x. (x \<in> set t) \<noteq> stop) s))"
proof (induction s arbitrary: k)
  case Nil
  then show ?case by (subst strspn_loop.simps) (simp add: cstr_simps mem_simps)
next
  case (Cons c s)
  then show ?case
    using Cons.IH [of "k + 1"]
    by (subst strspn_loop.simps) (simp add: cstr_simps mem_simps strspn_found_cstr)
qed

lemma strspn_cstr:
  "cstr b str = Some s \<Longrightarrow> cstr acc a = Some t \<Longrightarrow>
    strspn b str acc a = Some (length (takeWhile (\<lambda>x. x \<in> set t) s))"
  using strspn_loop_cstr [of b str 0 s acc a t False]
  by (cases t; cases s) (auto simp: strspn_def cstr_simps mem_simps)

lemma strcspn_cstr:
  "cstr b str = Some s \<Longrightarrow> cstr rej a = Some t \<Longrightarrow>
    strcspn b str rej a = Some (length (takeWhile (\<lambda>x. x \<notin> set t) s))"
  using strspn_loop_cstr [of b str 0 s rej a t True] by (simp add: strcspn_def)

lemma stpcpy_loop_cstr:
  "cstr sb (src + k) = Some s \<Longrightarrow> dest + k + length s < length db \<Longrightarrow>
    stpcpy_loop db dest sb src k = Some (put db (dest + k) (s @ [0]), dest + k + length s)"
proof (induction s arbitrary: k db)
  case Nil
  then show ?case
    by (subst stpcpy_loop.simps) (auto simp: cstr_simps mem_simps put_single)
next
  case (Cons c s)
  then show ?case
    using Cons.IH [of "k + 1" "db[dest + k := c]"]
    by (subst stpcpy_loop.simps) (auto simp: cstr_simps mem_simps put_update)
qed

lemma stpcpy_cstr:
  "cstr sb src = Some s \<Longrightarrow> dest + length s < length db \<Longrightarrow>
    stpcpy db dest sb src = Some (put db dest (s @ [0]), dest + length s)"
  using stpcpy_loop_cstr [of sb src 0 s dest db] by (simp add: stpcpy_def)

lemma strcpy_cstr:
  "cstr sb src = Some s \<Longrightarrow> dest + length s < length db \<Longrightarrow>
    strcpy db dest sb src = Some (put db dest (s @ [0]))"
  using stpcpy_loop_cstr [of sb src 0 s dest db] by (simp add: strcpy_def)

lemma strcat_cstr:
  assumes "cstr db dest = Some d" and "cstr sb src = Some s"
    and "dest + length d + length s < length db"
  shows "strcat db dest sb src = Some (put db (dest + length d) (s @ [0]))"
  using stpcpy_loop_cstr [of sb src 0 s "dest + length d" db] assms
  by (simp add: strcat_def strlen_cstr)

lemma strnlen_loop_cstr:
  "cstr b (i + k) = Some s \<Longrightarrow> k \<le> n \<Longrightarrow> strnlen_loop b i n k = Some (min n (k + length s))"
proof (induction s arbitrary: k)
  case Nil
  then show ?case by (subst strnlen_loop.simps) (auto simp: cstr_simps mem_simps)
next
  case (Cons c s)
  then show ?case
    using Cons.IH [of "k + 1"] by (subst strnlen_loop.simps) (auto simp: cstr_simps mem_simps)
qed

lemma strnlen_cstr: "cstr b i = Some s \<Longrightarrow> strnlen b i n = Some (min n (length s))"
  using strnlen_loop_cstr [of b i 0 s n] by (simp add: strnlen_def)

lemma strncpy_loop_cstr:
  "cstr sb (src + k) = Some s \<Longrightarrow> k \<le> n \<Longrightarrow> dest + n \<le> length db \<Longrightarrow>
    strncpy_loop db dest sb src n k =
      Some (put db (dest + k) (take (n - k) (s @ [0])))"
proof (induction s arbitrary: k db)
  case Nil
  then show ?case
    by (subst strncpy_loop.simps)
      (auto simp: cstr_simps mem_simps put_single take_Cons put_def split: nat.splits)
next
  case (Cons c s)
  show ?case
  proof (cases "k < n")
    case True
    have "Suc k \<le> n" using True by simp
    with Cons.prems Cons.IH [of "k + 1" "db[dest + k := c]"] True
    have "strncpy_loop db dest sb src n k =
        Some (put (db[dest + k := c]) (Suc (dest + k)) (take (n - Suc k) (s @ [0])))"
      by (subst strncpy_loop.simps) (auto simp: cstr_simps mem_simps)
    moreover have "take (n - k) (c # s @ [0]) = c # take (n - Suc k) (s @ [0])"
      using True by (simp only: Suc_diff_Suc [symmetric] take_Suc_Cons)
    ultimately show ?thesis using True Cons.prems by (simp add: put_update)
  next
    case False
    then show ?thesis using Cons.prems by (subst strncpy_loop.simps) (simp add: put_def)
  qed
qed

lemma strncpy_cstr:
  "cstr sb src = Some s \<Longrightarrow> dest + n \<le> length db \<Longrightarrow>
    strncpy db dest sb src n = Some (put db dest (take n (s @ [0])))"
  using strncpy_loop_cstr [of sb src 0 s n dest db] by (simp add: strncpy_def)

lemma strrchr_loop_cstr:
  "cstr b i = Some s \<Longrightarrow> c \<noteq> 0 \<Longrightarrow>
    strrchr_loop b i c save =
      Some (if c \<in> set s then Some (i + (length s - 1 - length (takeWhile (\<lambda>x. x \<noteq> c) (rev s))))
            else save)"
proof (induction s arbitrary: i save)
  case Nil
  then show ?case by (subst strrchr_loop.simps) (auto simp: cstr_simps mem_simps)
next
  case (Cons x s)
  have n: "c \<notin> set s \<Longrightarrow> length (takeWhile (\<lambda>x. x \<noteq> c) (rev s)) = length s"
    by (induction s rule: rev_induct) auto
  have k: "c \<in> set s \<Longrightarrow> length (takeWhile (\<lambda>x. x \<noteq> c) (rev s)) < length s"
    by (induction s rule: rev_induct) auto
  show ?case
    using Cons.prems Cons.IH [of "i + 1"] n k
    by (subst strrchr_loop.simps) (auto simp: cstr_simps mem_simps takeWhile_append)
qed

lemma strncmp_prefix:
  assumes "cstr b i = Some s" and "cstr nb n = Some t"
  shows "\<exists>d. strncmp b i nb n (length t) = Some d \<and> (d = 0 \<longleftrightarrow> take (length t) s = t)"
proof -
  have z: "0 \<notin> set (take (length t) s)" "0 \<notin> set t"
    using cstr_Some_bounds [OF assms(1)] cstr_Some_bounds [OF assms(2)] by (auto dest: in_set_takeD)
  show ?thesis using strncmp_cstr [OF assms, of "length t"] str_diff_zero [OF z] by simp
qed

lemma cstr_tail: "cstr b i = Some s \<Longrightarrow> k \<le> length s \<Longrightarrow> cstr b (i + k) = Some (drop k s)"
proof (induction k)
  case (Suc k)
  then have "cstr b (i + k) = Some (s ! k # drop (Suc k) s)" by (simp add: Cons_nth_drop_Suc)
  then show ?case by (simp add: cstr_Cons)
qed simp

text \<open>\<^verbatim>\<open>strstr\<close> returns the first non-terminator position where the needle is a prefix.\<close>

lemma strstr_loop_cstr:
  assumes s: "cstr b h = Some s" and t: "cstr nb n = Some t" and "j \<le> length s"
  shows "strstr_loop b h nb n (length t) j =
    Some (map_option (\<lambda>k. h + k) (find (\<lambda>k. take (length t) (drop k s) = t) [j ..< length s]))"
  using assms(3)
proof (induction "length s - j" arbitrary: j)
  case 0
  then have "j = length s" by simp
  then show ?case
    using cstr_Some_bounds [OF s] cstr_Some_nth [OF s]
    by (subst strstr_loop.simps) (simp add: mem_simps)
next
  case (Suc m)
  then have j: "j < length s" and IH: "strstr_loop b h nb n (length t) (Suc j) =
      Some (map_option (\<lambda>k. h + k)
        (find (\<lambda>k. take (length t) (drop k s) = t) [Suc j ..< length s]))"
    by auto
  have "s ! j \<noteq> 0" using cstr_Some_bounds [OF s] nth_mem [OF j] by metis
  then have "b ! (h + j) \<noteq> 0" "h + j < length b"
    using nth_cstr [OF s j] cstr_Some_bounds [OF s] j by auto
  moreover obtain d where "strncmp b (h + j) nb n (length t) = Some d"
      "d = 0 \<longleftrightarrow> take (length t) (drop j s) = t"
    using strncmp_prefix [OF cstr_tail [OF s Suc.prems] t] by auto
  ultimately show ?case
    using IH j by (subst strstr_loop.simps) (simp add: mem_simps upt_conv_Cons)
qed

text \<open>The reference for \<^verbatim>\<open>translate_slashes\<close>: a backslash, or a pair of them, is one slash.\<close>

fun slashes :: "buf \<Rightarrow> buf" where
  "slashes [] = []"
| "slashes [c] = [if c = 0x5C then 0x2F else c]"
| "slashes (c # d # s) =
     (if c = 0x5C then 0x2F # (if d = 0x5C then slashes s else slashes (d # s))
      else c # slashes (d # s))"

lemma length_slashes: "length (slashes s) \<le> length s"
  by (induction s rule: slashes.induct) auto

lemma translate_slashes_loop_cstr:
  "cstr sb (str + i) = Some s \<Longrightarrow> out + j + length (slashes s) < length ob \<Longrightarrow> i + length s < 2 ^ 31 \<Longrightarrow>
    translate_slashes_loop ob out sb str i j = Some (put ob (out + j) (slashes s @ [0]))"
proof (induction s arbitrary: i j ob rule: slashes.induct)
  case 1
  then show ?case
    by (subst translate_slashes_loop.simps) (auto simp: cstr_simps mem_simps put_single)
next
  case (2 c)
  then show ?case
    by (subst translate_slashes_loop.simps, subst (1 2) translate_slashes_loop.simps)
      (auto simp: cstr_simps mem_simps put_two)
next
  case (3 c d s)
  show ?case
  proof (cases "c = 0x5C \<and> d = 0x5C")
    case True
    then have "translate_slashes_loop (ob[out + j := 0x2F]) out sb str (i + 2) (j + 1) =
        Some (put (ob[out + j := 0x2F]) (out + (j + 1)) (slashes s @ [0]))"
      using "3.prems" by (intro "3.IH"(1)) (auto simp: cstr_simps)
    then show ?thesis
      using True "3.prems"
      by (subst translate_slashes_loop.simps) (auto simp: cstr_simps mem_simps put_update)
  next
    case False
    let ?x = "if c = 0x5C then 0x2F else c"
    have "translate_slashes_loop (ob[out + j := ?x]) out sb str (i + 1) (j + 1) =
        Some (put (ob[out + j := ?x]) (out + (j + 1)) (slashes (d # s) @ [0]))"
    proof (cases "c = 0x5C")
      case True
      then show ?thesis using False "3.prems" by (intro "3.IH"(2)) (auto simp: cstr_simps)
    next
      case False
      then show ?thesis using "3.prems" by (intro "3.IH"(3)) (auto simp: cstr_simps)
    qed
    then show ?thesis
      using False "3.prems"
      by (subst translate_slashes_loop.simps) (auto simp: cstr_simps mem_simps put_update)
  qed
qed

section \<open>Properties\<close>

text \<open>C15. \<^verbatim>\<open>strcmp\<close> and \<^verbatim>\<open>strncmp\<close> are exact on NUL-terminated strings: they stay inside both
  buffers, \<^verbatim>\<open>strcmp\<close> returns zero exactly when the strings are equal and a negative value
  exactly when the first is smaller in lexicographic order, and \<^verbatim>\<open>strncmp\<close>, for every \<open>n\<close>, does the
  same for the strings cut after \<open>n\<close> bytes; with the length of the second string it returns zero
  exactly when that string is a prefix of the first.\<close>

theorem strcmp_exact:
  assumes "cstr b1 i = Some s" and "cstr b2 j = Some t"
  shows "(\<exists>d. strcmp b1 i b2 j = Some d \<and> (d = 0 \<longleftrightarrow> s = t) \<and>
      (d < 0 \<longleftrightarrow> (s, t) \<in> lexord {(x, y). x < y})) \<and>
    (\<exists>d. strncmp b1 i b2 j n = Some d \<and> (d = 0 \<longleftrightarrow> take n s = take n t) \<and>
      (d < 0 \<longleftrightarrow> (take n s, take n t) \<in> lexord {(x, y). x < y})) \<and>
    (\<exists>d. strncmp b1 i b2 j (length t) = Some d \<and> (d = 0 \<longleftrightarrow> take (length t) s = t))"
proof -
  have z: "0 \<notin> set s" "0 \<notin> set t" using cstr_Some_bounds [OF assms(1)] cstr_Some_bounds [OF assms(2)] by simp_all
  then have "0 \<notin> set (take n s)" "0 \<notin> set (take n t)" by (auto dest: in_set_takeD)
  then show ?thesis
    using z strcmp_cstr [OF assms] strncmp_cstr [OF assms, of n] strncmp_prefix [OF assms]
    by (simp add: str_diff_zero str_diff_neg)
qed

lemma strcmp_exact_witness:
  "(\<exists>d. strcmp (lit ''shim'' @ [0]) 0 (lit ''xgrub'' @ [0]) 1 = Some d \<and>
      (d = 0 \<longleftrightarrow> lit ''shim'' = lit ''grub'') \<and>
      (d < 0 \<longleftrightarrow> (lit ''shim'', lit ''grub'') \<in> lexord {(x, y). x < y})) \<and>
    (\<exists>d. strncmp (lit ''shim'' @ [0]) 0 (lit ''xgrub'' @ [0]) 1 2 = Some d \<and>
      (d = 0 \<longleftrightarrow> take 2 (lit ''shim'') = take 2 (lit ''grub'')) \<and>
      (d < 0 \<longleftrightarrow> (take 2 (lit ''shim''), take 2 (lit ''grub'')) \<in> lexord {(x, y). x < y})) \<and>
    (\<exists>d. strncmp (lit ''shim'' @ [0]) 0 (lit ''xgrub'' @ [0]) 1 (length (lit ''grub'')) = Some d \<and>
      (d = 0 \<longleftrightarrow> take (length (lit ''grub'')) (lit ''shim'') = lit ''grub''))"
  by (rule strcmp_exact) (simp_all add: lit_def cstr_simps)

text \<open>C16. \<^verbatim>\<open>strdup\<close> of a NUL-terminated string, when the allocation succeeds, returns a new
  buffer that is exactly the string and its terminator, and \<^verbatim>\<open>strndup\<close> the string cut at
  \<open>srcmax\<close>; when the allocation fails both return NULL.\<close>

theorem strdup_copies:
  assumes "cstr b src = Some s" and "AllocatePool p (length s + 1) = (ok, p1)"
    and "AllocatePool p (min n (length s) + 1) = (ok', p1')"
  shows "strdup b src p = Some (if ok then Some (s @ [0]) else None, p1) \<and>
    strndup b src n p = Some (if ok' then Some (take n s @ [0]) else None, p1')"
proof -
  have "strncpy (replicate (length s + 1) 0) 0 b src (length s) = Some (s @ [0])"
    by (subst strncpy_cstr [OF assms(1)], simp, subst put_zeros, simp_all)
  moreover have "take (min n (length s)) (s @ [0]) = take n s" by (simp add: min_def)
  then have "strncpy (replicate (min n (length s) + 1) 0) 0 b src (min n (length s)) =
      Some (take n s @ [0])"
    by (subst strncpy_cstr [OF assms(1)], simp, subst put_zeros, simp_all)
  ultimately show ?thesis
    using assms by (auto simp: strdup_def strndup_def strlen_cstr strnlen_cstr split: bool.splits)
qed

lemma strdup_copies_witness:
  "strdup (lit ''shim'' @ [0]) 0 (\<lambda>_ _. True) =
      Some (if True then Some (lit ''shim'' @ [0]) else None, \<lambda>_ _. True) \<and>
    strndup (lit ''shim'' @ [0]) 0 2 (\<lambda>_ _. True) =
      Some (if True then Some (take 2 (lit ''shim'') @ [0]) else None, \<lambda>_ _. True)"
  by (rule strdup_copies) (simp_all add: lit_def cstr_simps AllocatePool_def)

text \<open>C17. \<^verbatim>\<open>strstr\<close> returns the first position of the haystack where the needle occurs (before
  the terminator) and NULL if there is none.\<close>

theorem strstr_first:
  assumes "cstr b h = Some s" and "cstr nb n = Some t"
  shows "strstr b h nb n =
    Some (map_option (\<lambda>k. h + k) (find (\<lambda>k. take (length t) (drop k s) = t) [0 ..< length s]))"
  using strstr_loop_cstr [OF assms, of 0] assms(2) by (simp add: strstr_def strlen_cstr)

lemma strstr_first_witness:
  "strstr (lit ''shimx64'' @ [0]) 0 (lit ''x6'' @ [0]) 0 =
    Some (map_option (\<lambda>k. 0 + k) (find (\<lambda>k. take (length (lit ''x6''))
      (drop k (lit ''shimx64'')) = lit ''x6'') [0 ..< length (lit ''shimx64'')]))"
  by (rule strstr_first) (simp_all add: lit_def cstr_simps)

text \<open>C18. \<^verbatim>\<open>translate_slashes\<close> writes the string with each backslash, and each pair of
  backslashes, replaced by one slash, followed by NUL, and changes no other byte of the
  output buffer. It needs room for the translated string only, and a string whose indices are
  values of \<^verbatim>\<open>int\<close>.\<close>

theorem translate_slashes_correct:
  assumes "cstr sb str = Some s" and "out + length (slashes s) < length ob" and "length s < 2 ^ 31"
  shows "translate_slashes ob (Some out) sb (Some str) =
    Some (Some out, put ob out (slashes s @ [0]))"
  using translate_slashes_loop_cstr [of sb str 0 s out 0 ob] assms
  by (simp add: translate_slashes_def)

lemma translate_slashes_correct_witness:
  "translate_slashes (replicate 6 0xFF) (Some 0) [0x61, 0x5C, 0x5C, 0x62, 0] (Some 0) =
    Some (Some 0, put (replicate 6 0xFF) 0 (slashes [0x61, 0x5C, 0x5C, 0x62] @ [0]))"
  by (rule translate_slashes_correct) (simp_all add: cstr_simps)

end
