(* ===== verification/Csv.thy ===== *)
theory Csv
  imports Shim_Base
begin

text \<open>
  The string tokenizer of \<^verbatim>\<open>include/str.h\<close> and the CSV parser of \<^verbatim>\<open>csv.c\<close>, over a buffer
  that the parser modifies in place. Pointers into the buffer are indices; a column is a
  pointer to a NUL-terminated string of the final buffer. \<open>None\<close> means that the C code
  has no defined result: an access outside the buffer, or a loop that never ends.

  The lemmas show that the parser stays inside every NUL-terminated buffer and returns,
  and that on zero-padded text it computes the reference split into lines and columns.
\<close>

section \<open>The tokenizer (include/str.h)\<close>

text \<open>The loop counter of \<^verbatim>\<open>strnchrnul\<close> is a 32-bit \<^verbatim>\<open>unsigned int\<close>: if it wraps, the loop
  starts over on the same bytes and never ends.\<close>

function strnchrnul_loop :: "buf \<Rightarrow> nat \<Rightarrow> nat \<Rightarrow> byte \<Rightarrow> nat \<Rightarrow> nat option" where
  "strnchrnul_loop b s mx c i =
     (if i < mx then
        (case rd b (s + i) of
           None \<Rightarrow> None
         | Some x \<Rightarrow>
             if x \<noteq> 0 \<and> x \<noteq> c then
               (if Suc i = 2 ^ 32 then None else strnchrnul_loop b s mx c (Suc i))
             else Some i)
      else Some i)"
  by pat_completeness auto
termination
  by (relation "measure (\<lambda>(b, s, mx, c, i). length b - (s + i))") (auto simp: rd_Some_iff)

declare strnchrnul_loop.simps [simp del]

definition strnchrnul :: "buf \<Rightarrow> nat \<Rightarrow> nat \<Rightarrow> byte \<Rightarrow> nat option" where
  "strnchrnul b s mx c =
     (if mx = 0 then Some s
      else (case strnchrnul_loop b s mx c 0 of
              None \<Rightarrow> None
            | Some i \<Rightarrow> Some (s + (if i = mx then i - 1 else i))))"

text \<open>The delimiter loop of \<^verbatim>\<open>strntoken\<close>: it updates \<open>tokend\<close>, \<open>isdelim\<close> and
  \<open>state_is_delim\<close> for each delimiter character.\<close>

fun strntoken_loop ::
    "buf \<Rightarrow> nat \<Rightarrow> nat \<Rightarrow> bool \<Rightarrow> byte \<Rightarrow> buf \<Rightarrow> nat \<Rightarrow> bool \<Rightarrow> bool
      \<Rightarrow> (nat \<times> bool \<times> bool) option" where
  "strntoken_loop b str mx has_token state [] tokend isdelim sdelim =
     Some (tokend, isdelim, sdelim)"
| "strntoken_loop b str mx has_token state (d # ds) tokend isdelim sdelim =
     (case strnchrnul b str mx d of
        None \<Rightarrow> None
      | Some tmp \<Rightarrow>
          (case rd b (min tmp tokend) of
             None \<Rightarrow> None
           | Some x \<Rightarrow>
               strntoken_loop b str mx has_token state ds (min tmp tokend)
                 (isdelim \<or> x = d) (sdelim \<or> (has_token \<and> d = state))))"

text \<open>\<open>token\<close> is the token pointer of the previous call (NULL at first), \<open>state\<close> the
  delimiter it ended at. The result is the return value, the buffer, the new token pointer
  and the new state. The early return leaves token and state alone.\<close>

definition strntoken ::
    "buf \<Rightarrow> nat \<Rightarrow> nat \<Rightarrow> buf \<Rightarrow> nat option \<Rightarrow> byte
      \<Rightarrow> (bool \<times> buf \<times> nat option \<times> byte) option" where
  "strntoken b str mx delims token state =
     (if mx = 0 then Some (False, b, token, state)
      else case (if token = None \<and> mx = 1 then map_option (\<lambda>x. x = 0) (rd b str)
                 else Some False) of
        None \<Rightarrow> None
      | Some sdelim0 \<Rightarrow>
          (case strntoken_loop b str mx (token \<noteq> None) state delims (str + (mx - 1)) False
                  sdelim0 of
             None \<Rightarrow> None
           | Some (tokend, isdelim, sdelim) \<Rightarrow>
               if isdelim then
                 (case rd b tokend of
                    None \<Rightarrow> None
                  | Some x \<Rightarrow>
                      (case wr b tokend 0 of
                         None \<Rightarrow> None
                       | Some b' \<Rightarrow> Some (True, b', Some str, x)))
               else Some (sdelim, b, Some str, state)))"

definition UTF8_BOM :: buf where
  "UTF8_BOM = [0xef, 0xbb, 0xbf]"

definition is_utf8_bom :: "buf \<Rightarrow> nat \<Rightarrow> nat \<Rightarrow> bool option" where
  "is_utf8_bom b p bufsize =
     (case rdn b p (min 3 bufsize) of
        None \<Rightarrow> None
      | Some xs \<Rightarrow> Some (xs = take (min 3 bufsize) UTF8_BOM))"

section \<open>The CSV parser (csv.c)\<close>

text \<open>\<^verbatim>\<open>struct csv_row\<close>: the number of populated columns and the column pointers.\<close>

record csv_row =
  n_columns :: nat
  columns :: "nat option list"

text \<open>The loop of \<^verbatim>\<open>parse_csv_line\<close> with \<open>k\<close> columns left. \<open>max\<close> is a \<^verbatim>\<open>size_t\<close>.\<close>

fun parse_csv_line_loop ::
    "nat \<Rightarrow> buf \<Rightarrow> nat \<Rightarrow> nat \<Rightarrow> nat option \<Rightarrow> byte \<Rightarrow> bool \<Rightarrow> nat option list \<Rightarrow> nat
      \<Rightarrow> (buf \<times> nat option list \<times> nat) option" where
  "parse_csv_line_loop 0 b nxt mx token state valid cols new_n = Some (b, cols, new_n)"
| "parse_csv_line_loop (Suc k) b nxt mx token state valid cols new_n =
     (case (if valid then strntoken b nxt mx [0x2C] token state
            else Some (False, b, token, state)) of
        None \<Rightarrow> None
      | Some (valid', b', token', state') \<Rightarrow>
          if valid' then
            (case token' of
               None \<Rightarrow> None
             | Some t \<Rightarrow>
                 (case cstr b' t of
                    None \<Rightarrow> None
                  | Some s \<Rightarrow>
                      parse_csv_line_loop k b' (nxt + (length s + 1)) (sub64 mx (length s + 1))
                        token' state' valid' (cols @ [Some t]) (length cols + 1)))
          else parse_csv_line_loop k b' nxt mx token' state' valid' (cols @ [None]) new_n)"

definition parse_csv_line :: "buf \<Rightarrow> nat \<Rightarrow> nat \<Rightarrow> nat \<Rightarrow> (buf \<times> nat option list \<times> nat) option" where
  "parse_csv_line b line mx n = parse_csv_line_loop n b line mx None 0 True [] 0"

text \<open>\<^verbatim>\<open>free_csv_list\<close> unlinks and frees every row: the list is empty afterwards.\<close>

definition free_csv_list :: "csv_row list \<Rightarrow> csv_row list" where
  "free_csv_list rows = []"

text \<open>\<open>csv_span e line\<close> is the expression that computes \<open>max\<close>: pointer subtraction in
  \<^verbatim>\<open>uintptr_t\<close>, plus one when the end is after the line.\<close>

definition csv_span :: "nat \<Rightarrow> nat \<Rightarrow> nat" where
  "csv_span e line = add64 (sub64 e line) (if e > line then 1 else 0)"

text \<open>One pass of the inner \<^verbatim>\<open>for\<close> of the delimiter-skipping loop over the delimiters
  "\<^verbatim>\<open>\r\n\<close>"; the result is the new line pointer, \<open>max\<close> and \<open>found\<close>.\<close>

definition csv_delims :: buf where
  "csv_delims = [0x0D, 0x0A]"

fun csv_skip_pass :: "buf \<Rightarrow> buf \<Rightarrow> nat \<Rightarrow> nat \<Rightarrow> bool \<Rightarrow> (nat \<times> nat \<times> bool) option" where
  "csv_skip_pass b [] line mx found = Some (line, mx, found)"
| "csv_skip_pass b (d # ds) line mx found =
     (if mx = 0 then Some (line, mx, found)
      else (case rd b line of
              None \<Rightarrow> None
            | Some x \<Rightarrow> if x = d then csv_skip_pass b ds (Suc line) (mx - 1) True
                        else csv_skip_pass b ds line mx found))"

lemma csv_skip_pass_le: "csv_skip_pass b ds line mx found = Some (line', mx', found') \<Longrightarrow> mx' \<le> mx"
  by (induction b ds line mx found rule: csv_skip_pass.induct) (auto split: if_splits option.splits)

lemma csv_skip_pass_less:
  "csv_skip_pass b ds line mx False = Some (line', mx', True) \<Longrightarrow> mx' < mx"
  by (induction ds) (auto split: if_splits option.splits dest: csv_skip_pass_le)

text \<open>The skipping loop runs until a pass finds nothing; a pass that finds something makes \<open>max\<close> smaller.\<close>

function csv_skip :: "buf \<Rightarrow> nat \<Rightarrow> nat \<Rightarrow> (nat \<times> nat) option" where
  "csv_skip b line mx =
     (if mx = 0 then Some (line, mx)
      else (case csv_skip_pass b csv_delims line mx False of
              None \<Rightarrow> None
            | Some (line', mx', found) \<Rightarrow>
                if found then csv_skip b line' mx' else Some (line', mx')))"
  by pat_completeness auto
termination
  by (relation "measure (\<lambda>(_, _, mx). mx)") (auto dest: csv_skip_pass_less)

declare csv_skip.simps [simp del]

text \<open>The loop that moves \<open>end\<close> back to the first delimiter of the line.\<close>

fun csv_find_end :: "buf \<Rightarrow> buf \<Rightarrow> nat \<Rightarrow> nat \<Rightarrow> nat \<Rightarrow> nat option" where
  "csv_find_end b [] line mx e = Some e"
| "csv_find_end b (d # ds) line mx e =
     (case strnchrnul b line mx d of
        None \<Rightarrow> None
      | Some tmp \<Rightarrow> csv_find_end b ds line mx (if tmp < e then tmp else e))"

text \<open>\<open>entrysz\<close>, a \<^verbatim>\<open>size_t\<close>: a \<^verbatim>\<open>struct csv_row\<close> of 24 bytes and a pointer for each column.\<close>

definition csv_entrysz :: "nat \<Rightarrow> nat" where
  "csv_entrysz ncols = (8 * ncols + 24) mod 2 ^ 64"

lemma csv_entrysz_eq: "8 * n + 24 < 2 ^ 64 \<Longrightarrow> csv_entrysz n = 8 * n + 24"
  by (simp add: csv_entrysz_def)

text \<open>The main loop of \<^verbatim>\<open>parse_csv_data\<close>. A row whose size has wrapped is too small for the columns that are
  stored in it.\<close>

partial_function (option) parse_csv_loop ::
    "buf \<Rightarrow> nat \<Rightarrow> nat \<Rightarrow> nat \<Rightarrow> csv_row list \<Rightarrow> pool
      \<Rightarrow> (efi_status \<times> buf \<times> csv_row list \<times> pool) option" where
  "parse_csv_loop b data_end ncols line rows p =
     (if \<not> line \<le> data_end then Some (EFI_SUCCESS, b, rows, p)
      else (case rd b line of
        None \<Rightarrow> None
      | Some x \<Rightarrow>
          if x = 0 then Some (EFI_SUCCESS, b, rows, p)
          else (case csv_skip b line (csv_span data_end line) of
            None \<Rightarrow> None
          | Some (line1, max1) \<Rightarrow>
              (case csv_find_end b csv_delims line1 max1 data_end of
                 None \<Rightarrow> None
               | Some e1 \<Rightarrow>
                   (case rd b e1 of
                      None \<Rightarrow> None
                    | Some xe \<Rightarrow>
                        (case wr b e1 0 of
                           None \<Rightarrow> None
                         | Some b1 \<Rightarrow>
                             if line1 = data_end \<or> csv_span e1 line1 = 0 then
                               parse_csv_loop b1 data_end ncols (e1 + 1) rows p
                             else
                               (case AllocatePool p (csv_entrysz ncols) of
                                  (ok, p1) \<Rightarrow>
                                    if \<not> ok then
                                      Some (EFI_OUT_OF_RESOURCES, b1, free_csv_list rows, p1)
                                    else if csv_entrysz ncols < 8 * ncols + 24 then None
                                    else
                                      (case csv_find_end b1 csv_delims line1
                                              (csv_span e1 line1) e1 of
                                         None \<Rightarrow> None
                                       | Some e2 \<Rightarrow>
                                           (case parse_csv_line b1 line1 (csv_span e1 line1)
                                                   ncols of
                                              None \<Rightarrow> None
                                            | Some (b2, cols, m) \<Rightarrow>
                                                if xe = 0 then
                                                  Some (EFI_SUCCESS, b2,
                                                    rows @ [\<lparr>n_columns = m, columns = cols\<rparr>], p1)
                                                else
                                                  parse_csv_loop b2 data_end ncols (e2 + 1)
                                                    (rows @ [\<lparr>n_columns = m, columns = cols\<rparr>])
                                                    p1)))))))))"

declare parse_csv_loop.simps [code]

text \<open>\<open>data\<close> and \<open>data_end\<close> are pointers into the buffer, NULL being \<open>None\<close>; \<open>rows\<close> is
  the list at \<open>list\<close>.\<close>

definition parse_csv_data ::
    "buf \<Rightarrow> nat option \<Rightarrow> nat option \<Rightarrow> nat \<Rightarrow> csv_row list option \<Rightarrow> pool
      \<Rightarrow> (efi_status \<times> buf \<times> csv_row list option \<times> pool) option" where
  "parse_csv_data b data data_end ncols list p =
     (case (data, data_end, list) of
        (Some line, Some e, Some rows) \<Rightarrow>
          if e \<le> line \<or> ncols = 0 then Some (EFI_INVALID_PARAMETER, b, list, p)
          else (case is_utf8_bom b line (csv_span e line) of
                  None \<Rightarrow> None
                | Some bom \<Rightarrow>
                    (case parse_csv_loop b e ncols (if bom then line + 3 else line) rows p of
                       None \<Rightarrow> None
                     | Some (st, b', rows', p') \<Rightarrow> Some (st, b', Some rows', p')))
      | _ \<Rightarrow> Some (EFI_INVALID_PARAMETER, b, list, p))"

section \<open>Reference definitions\<close>

text \<open>Splitting a line at a separator: always at least one field, empty fields kept.\<close>

fun split_on :: "'a \<Rightarrow> 'a list \<Rightarrow> 'a list list" where
  "split_on c [] = [[]]"
| "split_on c (x # xs) =
     (if x = c then [] # split_on c xs
      else (case split_on c xs of [] \<Rightarrow> [[x]] | y # ys \<Rightarrow> (x # y) # ys))"

text \<open>The columns the parser finds on a line: at most \<open>n\<close> fields, and none at all when the
  line has no comma.\<close>

definition csv_fields :: "nat \<Rightarrow> buf \<Rightarrow> buf list" where
  "csv_fields n l = (if 0x2C \<in> set l then take n (split_on 0x2C l) else [])"

definition is_eol :: "byte \<Rightarrow> bool" where
  "is_eol c \<longleftrightarrow> c = 0x0D \<or> c = 0x0A"

text \<open>The non-empty lines of a text, any run of carriage returns and line feeds being one
  separator.\<close>

function csv_lines :: "buf \<Rightarrow> buf list" where
  "csv_lines s =
     (let s1 = dropWhile is_eol s in
      if s1 = [] then []
      else takeWhile (\<lambda>c. \<not> is_eol c) s1 # csv_lines (dropWhile (\<lambda>c. \<not> is_eol c) s1))"
  by pat_completeness auto
termination
proof (relation "measure length", goal_cases)
  case 1
  then show ?case by simp
next
  case (2 s x)
  then have "x \<noteq> []" by simp
  then obtain c t where "x = c # t" by (meson neq_Nil_conv)
  with 2 have "\<not> is_eol c" by (metis hd_dropWhile list.distinct(1) list.sel(1))
  with \<open>x = c # t\<close> have "length (dropWhile (\<lambda>c. \<not> is_eol c) x) < length x"
    using length_dropWhile_le [of "\<lambda>c. \<not> is_eol c" t] by simp
  also have "length x \<le> length s" using 2 by (simp add: length_dropWhile_le)
  finally show ?case by simp
qed

declare csv_lines.simps [simp del]

definition strip_bom :: "buf \<Rightarrow> buf" where
  "strip_bom s = (if take 3 s = UTF8_BOM then drop 3 s else s)"

definition csv_spec :: "nat \<Rightarrow> buf \<Rightarrow> buf list list" where
  "csv_spec n s = map (csv_fields n) (csv_lines (strip_bom s))"

text \<open>A column holds a field in a buffer: the pointer is NULL for a missing field, and points
  to the field's string otherwise. A row holds \<open>fs\<close> if its first columns hold \<open>fs\<close>, the
  others are NULL, and the count is the number of fields.\<close>

fun col_holds :: "buf \<Rightarrow> nat option \<Rightarrow> buf option \<Rightarrow> bool" where
  "col_holds b c None = (c = None)"
| "col_holds b None (Some s) = False"
| "col_holds b (Some q) (Some s) = (cstr b q = Some s)"

definition row_holds :: "buf \<Rightarrow> nat \<Rightarrow> csv_row \<Rightarrow> buf list \<Rightarrow> bool" where
  "row_holds b n row fs \<longleftrightarrow> n_columns row = length fs \<and> length fs \<le> n \<and>
     list_all2 (col_holds b) (columns row) (map Some fs @ replicate (n - length fs) None)"

section \<open>Lemmas on the tokenizer\<close>

lemma strnchrnul_loop_spec:
  assumes "i \<le> mx" and "s + mx \<le> length b" and "mx < 2 ^ 32"
  shows "\<exists>j. strnchrnul_loop b s mx c i = Some j \<and> i \<le> j \<and> j \<le> mx \<and>
    (\<forall>k. i \<le> k \<and> k < j \<longrightarrow> b ! (s + k) \<noteq> 0 \<and> b ! (s + k) \<noteq> c) \<and>
    (j < mx \<longrightarrow> b ! (s + j) = 0 \<or> b ! (s + j) = c)"
  using assms
proof (induction b s mx c i rule: strnchrnul_loop.induct)
  case (1 b s mx c i)
  show ?case
  proof (cases "i < mx \<and> b ! (s + i) \<noteq> 0 \<and> b ! (s + i) \<noteq> c")
    case True
    then have r: "rd b (s + i) = Some (b ! (s + i))" using "1.prems" by (simp add: mem_simps)
    have n: "Suc i \<noteq> 2 ^ 32" using True "1.prems"(3) by linarith
    from "1.IH" [OF _ r _ n] True "1.prems" obtain j where
      j: "strnchrnul_loop b s mx c (Suc i) = Some j" "Suc i \<le> j" "j \<le> mx"
         "\<forall>k. Suc i \<le> k \<and> k < j \<longrightarrow> b ! (s + k) \<noteq> 0 \<and> b ! (s + k) \<noteq> c"
         "j < mx \<longrightarrow> b ! (s + j) = 0 \<or> b ! (s + j) = c"
      by auto
    have "strnchrnul_loop b s mx c i = Some j"
      using True r n j(1) by (subst strnchrnul_loop.simps) simp
    moreover have "\<forall>k. i \<le> k \<and> k < j \<longrightarrow> b ! (s + k) \<noteq> 0 \<and> b ! (s + k) \<noteq> c"
    proof (intro allI impI)
      fix k assume "i \<le> k \<and> k < j"
      then show "b ! (s + k) \<noteq> 0 \<and> b ! (s + k) \<noteq> c"
        using j(4) True by (cases "k = i") auto
    qed
    ultimately show ?thesis using j by (intro exI [of _ j]) auto
  next
    case False
    then have "strnchrnul_loop b s mx c i = Some i"
      using "1.prems" by (subst strnchrnul_loop.simps) (auto simp: mem_simps)
    with False "1.prems" show ?thesis by (intro exI [of _ i]) auto
  qed
qed

text \<open>On a span whose last byte is NUL, \<^verbatim>\<open>strnchrnul\<close> returns the first byte that is NUL or
  the character.\<close>

lemma strnchrnul_first:
  assumes "s \<le> e" and "e < length b" and "e - s + 1 < 2 ^ 32" and "b ! e = 0"
  obtains j where "strnchrnul b s (e - s + 1) c = Some j" "s \<le> j" "j \<le> e"
    "\<And>k. s \<le> k \<Longrightarrow> k < j \<Longrightarrow> b ! k \<noteq> 0 \<and> b ! k \<noteq> c" "b ! j = 0 \<or> b ! j = c"
proof -
  obtain i where i: "strnchrnul_loop b s (e - s + 1) c 0 = Some i" "i \<le> e - s + 1"
      "\<forall>k. 0 \<le> k \<and> k < i \<longrightarrow> b ! (s + k) \<noteq> 0 \<and> b ! (s + k) \<noteq> c"
      "i < e - s + 1 \<longrightarrow> b ! (s + i) = 0 \<or> b ! (s + i) = c"
    using strnchrnul_loop_spec [of 0 "e - s + 1" s b c] assms by auto
  have "i \<noteq> e - s + 1"
  proof
    assume "i = e - s + 1"
    with i(3) have "b ! (s + (e - s)) \<noteq> 0" by auto
    with assms show False by simp
  qed
  with i have lt: "i < e - s + 1" and m: "b ! (s + i) = 0 \<or> b ! (s + i) = c" by auto
  have eq: "strnchrnul b s (e - s + 1) c = Some (s + i)"
    using i(1) lt by (simp add: strnchrnul_def)
  have all: "\<And>k. s \<le> k \<Longrightarrow> k < s + i \<Longrightarrow> b ! k \<noteq> 0 \<and> b ! k \<noteq> c"
  proof -
    fix k assume "s \<le> k" "k < s + i"
    then have "k - s < i" "s + (k - s) = k" by auto
    with i(3) show "b ! k \<noteq> 0 \<and> b ! k \<noteq> c" by (metis zero_le)
  qed
  show thesis
    by (rule that [OF eq]) (use assms(1) lt m all in auto)
qed

lemma strnchrnul_cstr:
  assumes r: "cstr b s = Some r" and "length r + 1 < 2 ^ 32"
  shows "strnchrnul b s (length r + 1) c = Some (s + length (takeWhile (\<lambda>x. x \<noteq> c) r))"
proof -
  let ?n = "length (takeWhile (\<lambda>x. x \<noteq> c) r)"
  have le: "?n \<le> length r" by (rule length_takeWhile_le)
  note bd = cstr_Some_bounds [OF r] and nul = cstr_Some_nth [OF r]
  have pre: "s + length r < length b" "s + length r - s + 1 < 2 ^ 32" "b ! (s + length r) = 0"
    using bd nul assms(2) by auto
  obtain j where j: "strnchrnul b s (s + length r - s + 1) c = Some j" "s \<le> j" "j \<le> s + length r"
      "\<And>k. s \<le> k \<Longrightarrow> k < j \<Longrightarrow> b ! k \<noteq> 0 \<and> b ! k \<noteq> c" "b ! j = 0 \<or> b ! j = c"
    by (rule strnchrnul_first [OF _ pre, of c]) auto
  have "\<not> j < s + ?n"
  proof
    assume lt: "j < s + ?n"
    then have k: "j - s < ?n" "j - s < length r" using j(2) le by auto
    then have "b ! j = r ! (j - s)" using nth_cstr [OF r k(2)] j(2) by simp
    moreover have "r ! (j - s) \<noteq> c"
      using nth_mem [OF k(1)] takeWhile_nth [OF k(1)] by (auto dest: set_takeWhileD)
    moreover have "r ! (j - s) \<noteq> 0" using bd nth_mem [OF k(2)] by auto
    ultimately show False using j(5) by simp
  qed
  moreover have "\<not> s + ?n < j"
  proof
    assume lt: "s + ?n < j"
    then have ne: "b ! (s + ?n) \<noteq> 0" "b ! (s + ?n) \<noteq> c" using j(4) [of "s + ?n"] by auto
    show False
    proof (cases "?n < length r")
      case True
      with ne nth_cstr [OF r True] nth_length_takeWhile [OF True] show False by simp
    next
      case False
      with le have "?n = length r" by simp
      with ne pre show False by simp
    qed
  qed
  ultimately have "j = s + ?n" by simp
  with j(1) show ?thesis by simp
qed

lemma strntoken_no_comma:
  assumes r: "cstr b str = Some r" and "0x2C \<notin> set r" and "length r + 1 < 2 ^ 32"
  shows "strntoken b str (length r + 1) [0x2C] token state =
    Some ((token = None \<and> r = []) \<or> (token \<noteq> None \<and> state = 0x2C), b, Some str, state)"
proof -
  have "length (takeWhile (\<lambda>x. x \<noteq> 0x2C) r) = length r"
    using assms(2) by (induction r) auto
  then have t: "strnchrnul b str (Suc (length r)) 0x2C = Some (str + length r)"
    using strnchrnul_cstr [OF r assms(3), of "0x2C"] by simp
  note bd = cstr_Some_bounds [OF r] and nul = cstr_Some_nth [OF r]
  show ?thesis
    using t bd nul by (auto simp: strntoken_def mem_simps)
qed

lemma strntoken_comma:
  assumes r: "cstr b str = Some (t @ 0x2C # u)" and "0x2C \<notin> set t"
    and "length (t @ 0x2C # u) + 1 < 2 ^ 32"
  shows "strntoken b str (length (t @ 0x2C # u) + 1) [0x2C] token state =
    Some (True, b[str + length t := 0], Some str, 0x2C)"
proof -
  have "takeWhile (\<lambda>x. x \<noteq> 0x2C) (t @ 0x2C # u) = t"
    using assms(2) by (subst takeWhile_tail) (auto simp: takeWhile_eq_all_conv)
  then have s: "strnchrnul b str (length (t @ 0x2C # u) + 1) 0x2C = Some (str + length t)"
    using strnchrnul_cstr [OF r assms(3), of "0x2C"] by simp
  note bd = cstr_Some_bounds [OF r]
  have c: "b ! (str + length t) = 0x2C"
    using nth_cstr [OF r, of "length t"] by simp
  have s': "strnchrnul b str (Suc (Suc (length t + length u))) 0x2C = Some (str + length t)"
    using s by simp
  show ?thesis
    using s' bd c by (auto simp: strntoken_def mem_simps min_def)
qed

text \<open>Cutting a string at its first comma leaves the two parts as strings.\<close>

lemma cstr_cut:
  assumes r: "cstr b str = Some (t @ x # u)"
  shows "cstr (b[str + length t := 0]) str = Some t"
    and "cstr (b[str + length t := 0]) (str + length t + 1) = Some u"
proof -
  note bd = cstr_Some_bounds [OF r] and nul = cstr_Some_nth [OF r]
  have t: "take (length t) (drop str b) = t"
  proof (rule nth_equalityI)
    fix k assume "k < length (take (length t) (drop str b))"
    then show "take (length t) (drop str b) ! k = t ! k"
      using nth_cstr [OF r, of k] bd by (simp add: nth_append)
  qed (use bd in \<open>auto simp: min_def\<close>)
  show "cstr (b[str + length t := 0]) str = Some t"
    using bd t by (intro cstr_append) (auto simp: drop_update_swap)
  have "\<And>k. k < length u \<Longrightarrow> b ! (str + length t + 1 + k) = u ! k"
  proof -
    fix k assume "k < length u"
    then have "b ! (str + (length t + 1 + k)) = (t @ x # u) ! (length t + 1 + k)"
      by (intro nth_cstr [OF r]) simp
    then show "b ! (str + length t + 1 + k) = u ! k"
      by (simp add: nth_append add.assoc)
  qed
  then have "take (length u) (drop (str + length t + 1) (b[str + length t := 0])) = u"
    using bd by (intro nth_equalityI) auto
  then show "cstr (b[str + length t := 0]) (str + length t + 1) = Some u"
    using bd nul by (intro cstr_append) (auto simp: add.assoc)
qed

section \<open>Lemmas on the reference split\<close>

lemma split_on_notin: "c \<notin> set t \<Longrightarrow> split_on c t = [t]"
  by (induction t) auto

lemma split_on_append: "c \<notin> set t \<Longrightarrow> split_on c (t @ c # u) = t # split_on c u"
  by (induction t) auto

lemma split_on_nonempty: "split_on c t \<noteq> []"
  by (induction t) (auto split: list.splits)

lemma comma_cases:
  assumes "\<And>t u. r = t @ c # u \<Longrightarrow> c \<notin> set t \<Longrightarrow> P" and "c \<notin> set r \<Longrightarrow> P"
  shows P
  using assms split_list_first [of c r] by blast

section \<open>A line of the CSV parser\<close>

lemma col_holds_nulls [simp]: "list_all2 (col_holds b) (replicate k None) (replicate k None)"
  by (simp add: list_all2_conv_all_nth)

lemma line_loop_invalid:
  "parse_csv_line_loop k b nxt mx token state False cols n = Some (b, cols @ replicate k None, n)"
  by (induction k arbitrary: cols) (auto simp: replicate_append_same [symmetric])

lemma line_loop_no_room:
  "parse_csv_line_loop k b nxt 0 token state valid cols n = Some (b, cols @ replicate k None, n)"
  by (cases k) (auto simp: strntoken_def line_loop_invalid replicate_append_same [symmetric])

definition cols_below :: "nat option list \<Rightarrow> nat \<Rightarrow> bool" where
  "cols_below cols z \<longleftrightarrow> (\<forall>q. Some q \<in> set cols \<longrightarrow> q \<le> z)"

definition same_outside :: "nat \<Rightarrow> nat \<Rightarrow> buf \<Rightarrow> buf \<Rightarrow> bool" where
  "same_outside lo hi b b' \<longleftrightarrow>
     length b' = length b \<and> (\<forall>i. i < lo \<or> hi \<le> i \<longrightarrow> b' ! i = b ! i)"

lemma cstr_ends:
  assumes s: "cstr b q = Some s" and "q \<le> z" and "b ! z = 0"
  shows "q + length s \<le> z"
proof (rule ccontr)
  assume "\<not> q + length s \<le> z"
  then have k: "z - q < length s" using assms(2) by linarith
  then have "s ! (z - q) = 0" using nth_cstr [OF s k] assms(2,3) by simp
  then show False using cstr_Some_bounds [OF s] nth_mem [OF k] by simp
qed

text \<open>The strings of columns that lie below a NUL do not change when bytes after it do.\<close>

lemma cstr_frame_below:
  assumes s: "cstr b q = Some s" and "q \<le> z" and "b ! z = 0" and "length b' = length b"
    and "\<And>i. i \<le> z \<Longrightarrow> b' ! i = b ! i"
  shows "cstr b' q = Some s"
  using cstr_ends [OF assms(1-3)] assms(5) by (intro cstr_frame [OF s assms(4)]) auto

text \<open>The state of the column loop after a comma: \<open>r\<close> is the rest of the line. The loop
  fills the next \<open>k\<close> columns with the fields of \<open>r\<close> and writes only inside \<open>r\<close>.\<close>

lemma line_loop_after_comma:
  assumes "cstr b nxt = Some r" and "length r + 1 < 2 ^ 32" and "token \<noteq> None"
  shows "\<exists>b' ptrs. parse_csv_line_loop k b nxt (length r + 1) token 0x2C True cols n =
      Some (b', cols @ ptrs,
        if k = 0 then n else length cols + min k (length (split_on 0x2C r))) \<and>
    same_outside nxt (nxt + length r) b b' \<and> cols_below ptrs (nxt + length r) \<and>
    list_all2 (col_holds b') ptrs (map Some (take k (split_on 0x2C r)) @
        replicate (k - length (split_on 0x2C r)) None)"
  using assms
proof (induction k arbitrary: b nxt r token cols n)
  case 0
  then show ?case by (simp add: same_outside_def cols_below_def)
next
  case (Suc k)
  note r = Suc.prems(1) and lim = Suc.prems(2) and tok = Suc.prems(3)
  show ?case
  proof (rule comma_cases [of r "0x2C"])
    assume nc: "0x2C \<notin> set r"
    have "parse_csv_line_loop (Suc k) b nxt (length r + 1) token 0x2C True cols n =
        Some (b, cols @ Some nxt # replicate k None, length cols + 1)"
      using strntoken_no_comma [OF r nc lim, of token "0x2C"] tok r lim
      by (simp add: sub64_def line_loop_no_room)
    then show ?thesis
      using r by (intro exI [of _ b] exI [of _ "Some nxt # replicate k None"])
        (auto simp: split_on_notin [OF nc] same_outside_def cols_below_def)
  next
    fix t u assume ru: "r = t @ 0x2C # u" and nt: "0x2C \<notin> set t"
    note r' = r [unfolded ru]
    let ?b = "b[nxt + length t := 0]"
    note cut = cstr_cut [OF r']
    have step: "parse_csv_line_loop (Suc k) b nxt (length r + 1) token 0x2C True cols n =
        parse_csv_line_loop k ?b (nxt + length t + 1) (length u + 1) (Some nxt) 0x2C True
          (cols @ [Some nxt]) (length cols + 1)"
      using strntoken_comma [OF r' nt, of token "0x2C"] lim cut(1)
      by (simp add: ru sub64_le)
    have "length u + 1 < 2 ^ 32" using lim by (simp add: ru)
    from Suc.IH [OF cut(2) this, of "Some nxt" "cols @ [Some nxt]" "length cols + 1"]
    obtain b' ptrs where res: "parse_csv_line_loop k ?b (nxt + length t + 1) (length u + 1)
          (Some nxt) 0x2C True (cols @ [Some nxt]) (length cols + 1) =
        Some (b', (cols @ [Some nxt]) @ ptrs, if k = 0 then length cols + 1
          else length (cols @ [Some nxt]) + min k (length (split_on 0x2C u)))"
      and so: "same_outside (nxt + length t + 1) (nxt + length t + 1 + length u) ?b b'"
      and cb: "cols_below ptrs (nxt + length t + 1 + length u)"
      and cs: "list_all2 (col_holds b') ptrs (map Some (take k (split_on 0x2C u)) @
          replicate (k - length (split_on 0x2C u)) None)"
      by auto
    have z: "?b ! (nxt + length t) = 0" using cstr_Some_bounds [OF r'] by simp
    have hd: "cstr b' nxt = Some t"
      using so by (intro cstr_frame_below [OF cut(1) _ z]) (auto simp: same_outside_def)
    have "same_outside nxt (nxt + length r) b b'"
      using so by (auto simp: same_outside_def ru)
    moreover have "cols_below (Some nxt # ptrs) (nxt + length r)"
      using cb by (auto simp: cols_below_def ru)
    moreover have "list_all2 (col_holds b') (Some nxt # ptrs)
        (map Some (take (Suc k) (split_on 0x2C r)) @
          replicate (Suc k - length (split_on 0x2C r)) None)"
      using hd cs by (simp add: ru split_on_append [OF nt])
    moreover have "parse_csv_line_loop (Suc k) b nxt (length r + 1) token 0x2C True cols n =
        Some (b', cols @ (Some nxt # ptrs), length cols + min (Suc k) (length (split_on 0x2C r)))"
      unfolding step res by (auto simp: ru split_on_append [OF nt])
    ultimately show ?thesis
      by (intro exI [of _ b'] exI [of _ "Some nxt # ptrs"])
        (simp del: parse_csv_line_loop.simps)
  qed
qed

lemma parse_csv_line_fields:
  assumes r: "cstr b line = Some r" and "r \<noteq> []" and lim: "length r + 1 < 2 ^ 32" and "0 < n"
  shows "\<exists>b' cols. parse_csv_line b line (length r + 1) n =
      Some (b', cols, length (csv_fields n r)) \<and>
    same_outside line (line + length r) b b' \<and> cols_below cols (line + length r) \<and>
    list_all2 (col_holds b') cols (map Some (csv_fields n r) @
        replicate (n - length (csv_fields n r)) None)"
proof (rule comma_cases [of r "0x2C"])
  assume nc: "0x2C \<notin> set r"
  have "parse_csv_line b line (length r + 1) n = Some (b, replicate n None, 0)"
    using strntoken_no_comma [OF r nc lim, of None 0] assms(2,4)
    by (cases n) (simp_all add: parse_csv_line_def line_loop_invalid)
  then show ?thesis
    by (intro exI [of _ b] exI [of _ "replicate n None"])
      (auto simp: csv_fields_def nc same_outside_def cols_below_def)
next
  fix t u assume ru: "r = t @ 0x2C # u" and nt: "0x2C \<notin> set t"
  note r' = r [unfolded ru] and cut = cstr_cut [OF r [unfolded ru]]
  let ?b = "b[line + length t := 0]"
  obtain k where n: "n = Suc k" using assms(4) by (cases n) auto
  have step: "parse_csv_line b line (length r + 1) n =
      parse_csv_line_loop k ?b (line + length t + 1) (length u + 1) (Some line) 0x2C True
        [Some line] 1"
    using strntoken_comma [OF r' nt, of None 0] lim cut(1)
    by (simp add: ru n parse_csv_line_def sub64_le)
  have "length u + 1 < 2 ^ 32" using lim by (simp add: ru)
  from line_loop_after_comma [OF cut(2) this, of "Some line" k "[Some line]" 1]
  obtain b' ptrs where res: "parse_csv_line_loop k ?b (line + length t + 1) (length u + 1)
        (Some line) 0x2C True [Some line] 1 =
      Some (b', [Some line] @ ptrs, if k = 0 then 1 else 1 + min k (length (split_on 0x2C u)))"
    and so: "same_outside (line + length t + 1) (line + length t + 1 + length u) ?b b'"
    and cb: "cols_below ptrs (line + length t + 1 + length u)"
    and cs: "list_all2 (col_holds b') ptrs (map Some (take k (split_on 0x2C u)) @
        replicate (k - length (split_on 0x2C u)) None)"
    by auto
  have f: "csv_fields n r = t # take k (split_on 0x2C u)"
    by (simp add: csv_fields_def ru n split_on_append [OF nt])
  have z: "?b ! (line + length t) = 0" using cstr_Some_bounds [OF r'] by simp
  have hd: "cstr b' line = Some t"
    using so by (intro cstr_frame_below [OF cut(1) _ z]) (auto simp: same_outside_def)
  have "same_outside line (line + length r) b b'" using so by (auto simp: same_outside_def ru)
  moreover have "cols_below (Some line # ptrs) (line + length r)"
    using cb by (auto simp: cols_below_def ru)
  moreover have "list_all2 (col_holds b') (Some line # ptrs) (map Some (csv_fields n r) @
      replicate (n - length (csv_fields n r)) None)"
    unfolding f using hd cs by (auto simp: n min_def)
  moreover have "parse_csv_line b line (length r + 1) n =
      Some (b', Some line # ptrs, length (csv_fields n r))"
    unfolding step res f by (auto simp: min_def)
  ultimately show ?thesis by blast
qed

section \<open>The main loop of the CSV parser\<close>

text \<open>What the parser needs of its buffer: the byte at \<open>data_end\<close> is in the buffer and is
  NUL, and the buffer is below the range of the 32-bit counter.\<close>

definition csv_buf :: "buf \<Rightarrow> nat \<Rightarrow> bool" where
  "csv_buf b de \<longleftrightarrow> de < length b \<and> b ! de = 0 \<and> length b < 2 ^ 32"

lemma csv_span_le: "l \<le> e \<Longrightarrow> e < 2 ^ 32 \<Longrightarrow> csv_span e l = (if l < e then e - l + 1 else 0)"
  by (auto simp: csv_span_def sub64_le add64_def)

lemma not_eol_nul [simp]: "\<not> is_eol 0"
  by (simp add: is_eol_def)

lemma csv_skip_spec:
  assumes "csv_buf b de" and "line \<le> de"
  shows "\<exists>l1. csv_skip b line (de - line + 1) = Some (l1, de - l1 + 1) \<and>
    line \<le> l1 \<and> l1 \<le> de \<and> (\<forall>i. line \<le> i \<and> i < l1 \<longrightarrow> is_eol (b ! i)) \<and> \<not> is_eol (b ! l1)"
  using assms
proof (induction "de - line" arbitrary: line rule: less_induct)
  case less
  have len: "line < length b" and de: "b ! de = 0" "de < length b"
    using less.prems by (auto simp: csv_buf_def)
  define k where "k = (if b ! line = 0x0D then (if b ! (line + 1) = 0x0A then 2 else 1)
    else if b ! line = 0x0A then 1 else (0::nat))"
  have lt: "line < de" if "is_eol (b ! line)"
    using that de less.prems(2) by (cases "line = de") auto
  have lt2: "line + 1 < de" if "b ! line = 0x0D" "b ! (line + 1) = 0x0A"
  proof -
    have "line < de" using that(1) lt by (simp add: is_eol_def)
    moreover have "line + 1 \<noteq> de" using that(2) de by auto
    ultimately show ?thesis by simp
  qed
  have kb: "line + k \<le> de" and ke: "\<And>i. line \<le> i \<Longrightarrow> i < line + k \<Longrightarrow> is_eol (b ! i)"
    using lt lt2 less.prems(2)
    by (auto simp: k_def is_eol_def less_Suc_eq le_less split: if_splits)
  have pass: "csv_skip_pass b csv_delims line (de - line + 1) False =
      Some (line + k, de - (line + k) + 1, 0 < k)"
    using len lt lt2 de(2) less.prems(2)
    by (auto simp: csv_delims_def k_def is_eol_def mem_simps)
  show ?case
  proof (cases "0 < k")
    case True
    have "line < de" using kb True by linarith
    then have "de - (line + k) < de - line" using True by linarith
    then obtain l1 where l1: "csv_skip b (line + k) (de - (line + k) + 1) = Some (l1, de - l1 + 1)"
        "line + k \<le> l1" "l1 \<le> de" "\<forall>i. line + k \<le> i \<and> i < l1 \<longrightarrow> is_eol (b ! i)" "\<not> is_eol (b ! l1)"
      using less.hyps [of "line + k"] less.prems(1) kb by auto
    have "\<forall>i. line \<le> i \<and> i < l1 \<longrightarrow> is_eol (b ! i)"
      using l1(4) ke by (metis not_le)
    then show ?thesis using pass True l1 by (intro exI [of _ l1]) (simp add: csv_skip.simps [of b line])
  next
    case False
    then have "k = 0" by simp
    then have "\<not> is_eol (b ! line)" by (auto simp: k_def is_eol_def split: if_splits)
    then show ?thesis using pass \<open>k = 0\<close> less.prems(2) by (intro exI [of _ line]) (auto simp: csv_skip.simps [of b line])
  qed
qed

lemma csv_find_end_spec:
  assumes "e < length b" and "b ! e = 0" and "length b < 2 ^ 32" and "l \<le> e"
  shows "\<exists>e1. csv_find_end b csv_delims l (e - l + 1) e = Some e1 \<and> l \<le> e1 \<and> e1 \<le> e \<and>
    (\<forall>i. l \<le> i \<and> i < e1 \<longrightarrow> b ! i \<noteq> 0 \<and> \<not> is_eol (b ! i)) \<and> (b ! e1 = 0 \<or> is_eol (b ! e1))"
proof -
  have pre: "e - l + 1 < 2 ^ 32" using assms by simp
  obtain j1 where j1: "strnchrnul b l (e - l + 1) 0x0D = Some j1" "l \<le> j1" "j1 \<le> e"
      "\<And>k. l \<le> k \<Longrightarrow> k < j1 \<Longrightarrow> b ! k \<noteq> 0 \<and> b ! k \<noteq> 0x0D" "b ! j1 = 0 \<or> b ! j1 = 0x0D"
    by (rule strnchrnul_first [OF assms(4,1) pre assms(2), of "0x0D"]) blast
  obtain j2 where j2: "strnchrnul b l (e - l + 1) 0x0A = Some j2" "l \<le> j2" "j2 \<le> e"
      "\<And>k. l \<le> k \<Longrightarrow> k < j2 \<Longrightarrow> b ! k \<noteq> 0 \<and> b ! k \<noteq> 0x0A" "b ! j2 = 0 \<or> b ! j2 = 0x0A"
    by (rule strnchrnul_first [OF assms(4,1) pre assms(2), of "0x0A"]) blast
  have "csv_find_end b csv_delims l (e - l + 1) e = Some (min j1 j2)"
    using j1(1,3) j2(1,3) by (auto simp: csv_delims_def)
  then show ?thesis
    using j1(2-5) j2(2-5)
    by (intro exI [of _ "min j1 j2"]) (auto simp: is_eol_def min_def)
qed

text \<open>One round of the main loop on a buffer that ends in NUL: the line found runs from
  \<open>l1\<close> to \<open>e1\<close>.\<close>

definition csv_line_at :: "buf \<Rightarrow> nat \<Rightarrow> nat \<Rightarrow> nat \<Rightarrow> nat \<Rightarrow> bool" where
  "csv_line_at b de line l1 e1 \<longleftrightarrow> line \<le> l1 \<and> l1 \<le> e1 \<and> e1 \<le> de \<and>
     (\<forall>i. line \<le> i \<and> i < l1 \<longrightarrow> is_eol (b ! i)) \<and> \<not> is_eol (b ! l1) \<and>
     (\<forall>i. l1 \<le> i \<and> i < e1 \<longrightarrow> b ! i \<noteq> 0 \<and> \<not> is_eol (b ! i)) \<and> (b ! e1 = 0 \<or> is_eol (b ! e1))"

definition seg :: "buf \<Rightarrow> nat \<Rightarrow> nat \<Rightarrow> buf" where
  "seg b lo hi = take (hi - lo) (drop lo b)"

lemma csv_line_exists:
  assumes "csv_buf b de" and "line < de"
  obtains l1 e1 where "csv_line_at b de line l1 e1"
    "csv_skip b line (csv_span de line) = Some (l1, de - l1 + 1)"
    "csv_find_end b csv_delims l1 (de - l1 + 1) de = Some e1"
proof -
  have de: "de < length b" "b ! de = 0" "length b < 2 ^ 32" using assms(1) by (auto simp: csv_buf_def)
  have sp: "csv_span de line = de - line + 1" using assms(2) de by (simp add: csv_span_le)
  obtain l1 where l1: "csv_skip b line (de - line + 1) = Some (l1, de - l1 + 1)"
      "line \<le> l1" "l1 \<le> de" "\<forall>i. line \<le> i \<and> i < l1 \<longrightarrow> is_eol (b ! i)" "\<not> is_eol (b ! l1)"
    using csv_skip_spec [OF assms(1), of line] assms(2) by auto
  obtain e1 where e1: "csv_find_end b csv_delims l1 (de - l1 + 1) de = Some e1" "l1 \<le> e1" "e1 \<le> de"
      "\<forall>i. l1 \<le> i \<and> i < e1 \<longrightarrow> b ! i \<noteq> 0 \<and> \<not> is_eol (b ! i)" "b ! e1 = 0 \<or> is_eol (b ! e1)"
    using csv_find_end_spec [OF de l1(3)] by auto
  show thesis
    by (rule that [of l1 e1]) (use l1 e1 sp in \<open>simp_all add: csv_line_at_def\<close>)
qed

lemma csv_buf_same:
  "csv_buf b de \<Longrightarrow> same_outside l e (b[e := 0]) b2 \<Longrightarrow> e \<le> de \<Longrightarrow> csv_buf b2 de"
  by (auto simp: csv_buf_def same_outside_def nth_list_update)

lemma parse_csv_loop_done:
  "csv_buf b de \<Longrightarrow> de < line \<or> b ! line = 0 \<Longrightarrow>
    parse_csv_loop b de n line rows p = Some (EFI_SUCCESS, b, rows, p)"
  by (subst parse_csv_loop.simps) (auto simp: csv_buf_def mem_simps)

lemma parse_csv_loop_blank:
  assumes "csv_buf b de" and "line < de" and "b ! line \<noteq> 0"
    and "csv_line_at b de line l1 l1"
    and sk: "csv_skip b line (csv_span de line) = Some (l1, de - l1 + 1)"
    and fe: "csv_find_end b csv_delims l1 (de - l1 + 1) de = Some l1"
  shows "parse_csv_loop b de n line rows p = parse_csv_loop b de n (l1 + 1) rows p"
proof -
  have l1: "l1 < length b" "b ! l1 = 0" "line < length b" "b[l1 := 0] = b"
    using assms(1,2,4) by (auto simp: csv_buf_def csv_line_at_def list_update_same_conv)
  have "csv_span l1 l1 = 0" using l1(1) assms(1) by (simp add: csv_span_le csv_buf_def)
  then show ?thesis
    using assms(2,3) l1 sk fe
    by (subst parse_csv_loop.simps) (simp add: mem_simps)
qed

lemma parse_csv_loop_row:
  assumes cb: "csv_buf b de" and "line < de" and nz: "b ! line \<noteq> 0" and n: "0 < n \<and> 8 * n + 24 < 2 ^ 64"
    and la: "csv_line_at b de line l1 e1" and lt: "l1 < e1"
    and sk: "csv_skip b line (csv_span de line) = Some (l1, de - l1 + 1)"
    and fe: "csv_find_end b csv_delims l1 (de - l1 + 1) de = Some e1"
    and al: "AllocatePool p (csv_entrysz n) = (ok, p1)"
  obtains (oom) "\<not> ok"
      "parse_csv_loop b de n line rows p = Some (EFI_OUT_OF_RESOURCES, b[e1 := 0], [], p1)"
  | (row) b2 row where "ok" "same_outside l1 e1 (b[e1 := 0]) b2" "cols_below (columns row) e1"
      "row_holds b2 n row (csv_fields n (seg b l1 e1))"
      "parse_csv_loop b de n line rows p =
        (if b ! e1 = 0 then Some (EFI_SUCCESS, b2, rows @ [row], p1)
         else parse_csv_loop b2 de n (e1 + 1) (rows @ [row]) p1)"
proof -
  have de: "de < length b" "length b < 2 ^ 32" "e1 \<le> de" "line < length b"
    using cb la assms(2) by (auto simp: csv_buf_def csv_line_at_def)
  let ?b = "b[e1 := 0]" and ?s = "seg b l1 e1"
  have len: "length ?s = e1 - l1" using de by (auto simp: seg_def)
  have sp: "csv_span e1 l1 = e1 - l1 + 1" using lt de by (simp add: csv_span_le)
  have nth: "?s ! k = b ! (l1 + k)" if "k < e1 - l1" for k using that de by (simp add: seg_def)
  have z: "0 \<notin> set ?s"
    using la len nth by (force simp: in_set_conv_nth csv_line_at_def)
  have s: "cstr ?b l1 = Some ?s"
    using z lt de len by (intro cstr_append) (auto simp: seg_def drop_update_swap)
  obtain e2 where e2: "csv_find_end ?b csv_delims l1 (e1 - l1 + 1) e1 = Some e2" "l1 \<le> e2" "e2 \<le> e1"
      "?b ! e2 = 0 \<or> is_eol (?b ! e2)"
    using csv_find_end_spec [of e1 ?b l1] lt de by auto
  have "e2 = e1"
    using e2(2-4) la by (cases "e2 = e1") (auto simp: csv_line_at_def)
  obtain b2 cols where pl: "parse_csv_line ?b l1 (e1 - l1 + 1) n =
        Some (b2, cols, length (csv_fields n ?s))"
      "same_outside l1 e1 ?b b2" "cols_below cols e1"
      "list_all2 (col_holds b2) cols (map Some (csv_fields n ?s) @
          replicate (n - length (csv_fields n ?s)) None)"
    using parse_csv_line_fields [OF s, of n] lt de len assms(4) by fastforce
  have e: "parse_csv_loop b de n line rows p =
      (if ok then (if b ! e1 = 0 then Some (EFI_SUCCESS, b2,
            rows @ [\<lparr>n_columns = length (csv_fields n ?s), columns = cols\<rparr>], p1)
         else parse_csv_loop b2 de n (e1 + 1)
            (rows @ [\<lparr>n_columns = length (csv_fields n ?s), columns = cols\<rparr>]) p1)
       else Some (EFI_OUT_OF_RESOURCES, ?b, [], p1))"
    using assms(2) nz de lt sk fe al e2(1) sp pl(1) \<open>e2 = e1\<close>
    by (subst parse_csv_loop.simps) (simp add: mem_simps free_csv_list_def csv_entrysz_eq [OF conjunct2 [OF n]])
  have "length (csv_fields n ?s) \<le> n" by (simp add: csv_fields_def)
  then show thesis
    using e pl(2-4)
    by (cases ok) (auto intro: oom row [of b2 "\<lparr>n_columns = length (csv_fields n ?s), columns = cols\<rparr>"]
      simp: row_holds_def)
qed

text \<open>On every buffer that ends in NUL the loop returns, stays inside the buffer and leaves
  the bytes before the line alone.\<close>

lemma parse_csv_loop_returns:
  assumes "csv_buf b de" and "0 < n \<and> 8 * n + 24 < 2 ^ 64"
  shows "\<exists>st b' rows' p'. parse_csv_loop b de n line rows p = Some (st, b', rows', p') \<and>
    (st = EFI_SUCCESS \<or> st = EFI_OUT_OF_RESOURCES \<and> rows' = []) \<and> csv_buf b' de \<and>
    length b' = length b \<and> (\<forall>i. i < line \<or> de < i \<longrightarrow> b' ! i = b ! i)"
  using assms
proof (induction "de + 1 - line" arbitrary: b line rows p rule: less_induct)
  case less
  show ?case
  proof (cases "de < line \<or> b ! line = 0")
    case True
    then show ?thesis using parse_csv_loop_done [OF less.prems(1)] less.prems(1) by auto
  next
    case False
    then have lt: "line < de" and nz: "b ! line \<noteq> 0"
      using less.prems(1) by (cases "line = de"; auto simp: csv_buf_def)+
    obtain l1 e1 where la: "csv_line_at b de line l1 e1"
        and sk: "csv_skip b line (csv_span de line) = Some (l1, de - l1 + 1)"
        and fe: "csv_find_end b csv_delims l1 (de - l1 + 1) de = Some e1"
      by (rule csv_line_exists [OF less.prems(1) lt])
    have bd: "line \<le> l1" "l1 \<le> e1" "e1 \<le> de" using la by (auto simp: csv_line_at_def)
    have m: "de + 1 - (e1 + 1) < de + 1 - line" using bd lt by linarith
    show ?thesis
    proof (cases "e1 = l1")
      case True
      show ?thesis
        using less.hyps [OF m less.prems, of rows p] bd True
          parse_csv_loop_blank [OF less.prems(1) lt nz la [unfolded True] sk fe [unfolded True],
            of n rows p]
        by fastforce
    next
      case False
      then have l: "l1 < e1" using bd by simp
      obtain ok p1 where al: "AllocatePool p (csv_entrysz n) = (ok, p1)" by fastforce
      show ?thesis
      proof (rule parse_csv_loop_row [OF less.prems(1) lt nz less.prems(2) la l sk fe al, of rows],
          goal_cases)
        case 1
        then show ?thesis using less.prems(1) bd by (auto simp: csv_buf_def nth_list_update)
      next
        case (2 b2 row)
        have b2: "csv_buf b2 de" by (rule csv_buf_same [OF less.prems(1) 2(2) bd(3)])
        from less.hyps [OF m b2 less.prems(2), of "rows @ [row]" p1] 2 b2 bd
        show ?thesis by (fastforce simp: same_outside_def)
      qed
    qed
  qed
qed

text \<open>The text that starts at an index and is followed by NULs up to \<open>de\<close>.\<close>

definition text_at :: "buf \<Rightarrow> nat \<Rightarrow> nat \<Rightarrow> buf \<Rightarrow> bool" where
  "text_at b de line s \<longleftrightarrow> 0 \<notin> set s \<and> line + length s \<le> de + 1 \<and>
     (\<forall>k < length s. b ! (line + k) = s ! k) \<and>
     (\<forall>i. line + length s \<le> i \<and> i \<le> de \<longrightarrow> b ! i = 0)"

lemma csv_lines_parts:
  assumes "\<forall>x \<in> set pre. is_eol x" and "\<forall>x \<in> set mid. \<not> is_eol x" and "mid \<noteq> []"
    and "rest = [] \<or> is_eol (hd rest)"
  shows "csv_lines (pre @ mid @ rest) = mid # csv_lines rest"
proof -
  obtain m ms where m: "mid = m # ms" using assms(3) by (cases mid) auto
  have d: "dropWhile is_eol (pre @ mid @ rest) = mid @ rest"
    using assms(1,2) m by (simp add: dropWhile_append)
  have t: "takeWhile (\<lambda>c. \<not> is_eol c) (mid @ rest) = mid"
    "dropWhile (\<lambda>c. \<not> is_eol c) (mid @ rest) = rest"
    using assms(2,4) by (cases rest; simp add: takeWhile_append dropWhile_append)+
  show ?thesis by (subst csv_lines.simps) (simp add: d t m [symmetric] assms(3) Let_def)
qed

lemma csv_lines_eol: "is_eol c \<Longrightarrow> csv_lines (c # s) = csv_lines s"
  by (subst csv_lines.simps, subst (2) csv_lines.simps) simp

lemma csv_lines_blank: "\<forall>x \<in> set s. is_eol x \<Longrightarrow> csv_lines s = []"
  by (subst csv_lines.simps) simp

lemma text_at_split:
  assumes tx: "text_at b de line s" and la: "csv_line_at b de line l1 e1" and "s \<noteq> []"
    and cb: "csv_buf b de"
  obtains pre rest where "s = pre @ seg b l1 e1 @ rest" "\<forall>x \<in> set pre. is_eol x"
    "\<forall>x \<in> set (seg b l1 e1). \<not> is_eol x" "rest = [] \<or> is_eol (hd rest)"
    "b ! e1 = 0 \<longleftrightarrow> rest = []" "e1 = line + length pre + length (seg b l1 e1)"
    "line + length s = e1 + length rest"
proof -
  have bd: "line \<le> l1" "l1 \<le> e1" "e1 \<le> de" "de < length b" using la cb
    by (auto simp: csv_line_at_def csv_buf_def)
  have nth: "\<And>k. k < length s \<Longrightarrow> b ! (line + k) = s ! k" using tx by (auto simp: text_at_def)
  have end_le: "line + length s \<le> de"
  proof (rule ccontr)
    assume "\<not> line + length s \<le> de"
    then have "line + (length s - 1) = de" using tx \<open>s \<noteq> []\<close> by (cases s) (auto simp: text_at_def)
    then have "s ! (length s - 1) = 0" using nth [of "length s - 1"] \<open>s \<noteq> []\<close> cb
      by (auto simp: csv_buf_def)
    then show False using tx \<open>s \<noteq> []\<close> by (metis text_at_def diff_less length_greater_0_conv nth_mem zero_less_one)
  qed
  then have z: "b ! (line + length s) = 0" using tx by (auto simp: text_at_def)
  have le: "e1 \<le> line + length s"
  proof (rule ccontr)
    assume "\<not> e1 \<le> line + length s"
    moreover have "\<not> line + length s < l1"
    proof
      assume "line + length s < l1"
      then have "is_eol (b ! (line + length s))" using la by (simp add: csv_line_at_def)
      with z show False by simp
    qed
    ultimately show False using la z by (auto simp: csv_line_at_def)
  qed
  define pre rest where "pre = take (l1 - line) s" and "rest = drop (e1 - line) s"
  have sg: "seg b l1 e1 = take (e1 - l1) (drop (l1 - line) s)"
    using bd le nth [of "l1 - line + i" for i]
    by (intro nth_equalityI) (auto simp: seg_def)
  have "drop (l1 - line) s = seg b l1 e1 @ drop (e1 - l1) (drop (l1 - line) s)"
    unfolding sg by (simp del: drop_drop)
  moreover have "drop (e1 - l1) (drop (l1 - line) s) = rest" using bd by (simp add: rest_def)
  ultimately have parts: "s = pre @ seg b l1 e1 @ rest"
    unfolding pre_def by (metis append_take_drop_id)
  have len: "length pre = l1 - line" "length (seg b l1 e1) = e1 - l1"
    "length rest = line + length s - e1" using bd le by (auto simp: pre_def rest_def seg_def)
  have "is_eol (pre ! k)" if "k < length pre" for k
  proof -
    have "pre ! k = b ! (line + k)" using that nth [of k] by (simp add: pre_def)
    then show ?thesis using la that len by (simp add: csv_line_at_def)
  qed
  then have "\<forall>x \<in> set pre. is_eol x" by (metis in_set_conv_nth)
  moreover have "\<not> is_eol (seg b l1 e1 ! k)" if "k < length (seg b l1 e1)" for k
  proof -
    have "seg b l1 e1 ! k = b ! (l1 + k)" using that bd by (simp add: seg_def)
    then show ?thesis using la that len by (simp add: csv_line_at_def)
  qed
  then have "\<forall>x \<in> set (seg b l1 e1). \<not> is_eol x" by (metis in_set_conv_nth)
  moreover have "rest \<noteq> [] \<Longrightarrow> hd rest = b ! e1"
    using nth [of "e1 - line"] bd le by (simp add: rest_def hd_drop_conv_nth)
  moreover have "b ! e1 = 0 \<longleftrightarrow> rest = []"
  proof
    assume z1: "b ! e1 = 0"
    show "rest = []"
    proof (rule ccontr)
      assume "rest \<noteq> []"
      then have k: "e1 - line < length s" by (simp add: rest_def)
      with z1 nth [OF k] bd nth_mem [OF k] have "0 \<in> set s" by simp
      with tx show False by (simp add: text_at_def)
    qed
  next
    assume "rest = []"
    then show "b ! e1 = 0" using le z len by simp
  qed
  ultimately show thesis
    using that [OF parts] len bd le la by (auto simp: csv_line_at_def)
qed

lemma text_at_tail:
  assumes tx: "text_at b de line s" and s: "s = u @ c # t" and "line + length u = e1"
    and so: "same_outside l1 e1 (b[e1 := 0]) b2"
  shows "text_at b2 de (e1 + 1) t"
proof -
  have eq: "b2 ! i = b ! i" if "e1 < i" for i using so that by (auto simp: same_outside_def)
  have "b ! (e1 + 1 + k) = t ! k" if "k < length t" for k
  proof -
    have "\<forall>k < length s. b ! (line + k) = s ! k" using tx by (simp add: text_at_def)
    from this [rule_format, of "length u + 1 + k"] that
    have "b ! (line + (length u + 1 + k)) = s ! (length u + 1 + k)" by (simp add: s)
    then show ?thesis by (simp add: s nth_append assms(3) [symmetric] add.assoc)
  qed
  then show ?thesis using tx assms(3) eq by (auto simp: text_at_def s)
qed

lemma col_holds_frame:
  assumes "col_holds b c f" and "\<And>q. c = Some q \<Longrightarrow> q \<le> z" and "b ! z = 0"
    and "length b' = length b" and "\<And>i. i \<le> z \<Longrightarrow> b' ! i = b ! i"
  shows "col_holds b' c f"
  using assms(1,2) cstr_frame_below [OF _ _ assms(3-5)]
  by (cases "(b, c, f)" rule: col_holds.cases) auto

lemma row_holds_frame:
  assumes "row_holds b n row fs" and "cols_below (columns row) z" and "b ! z = 0"
    and "length b' = length b" and "\<And>i. i \<le> z \<Longrightarrow> b' ! i = b ! i"
  shows "row_holds b' n row fs"
proof -
  have "col_holds b c f \<Longrightarrow> col_holds b' c f" if "c \<in> set (columns row)" for c f
    using that assms(2) by (intro col_holds_frame [OF _ _ assms(3-5)]) (auto simp: cols_below_def)
  then show ?thesis
    using assms(1) unfolding row_holds_def by (auto intro: list.rel_mono_strong)
qed

text \<open>The refinement of the loop: with allocations that succeed, the rows it appends hold
  the columns of the lines of the text.\<close>

lemma parse_csv_loop_lines:
  assumes "csv_buf b de" and "0 < n \<and> 8 * n + 24 < 2 ^ 64" and "pool_ok p" and "text_at b de line s"
  shows "\<exists>b' new p'. parse_csv_loop b de n line rows p = Some (EFI_SUCCESS, b', rows @ new, p') \<and>
    length b' = length b \<and> (\<forall>i < line. b' ! i = b ! i) \<and> pool_ok p' \<and>
    list_all2 (row_holds b' n) new (map (csv_fields n) (csv_lines s))"
  using assms
proof (induction "de + 1 - line" arbitrary: b line rows p s rule: less_induct)
  case less
  note cb = less.prems(1) and tx = less.prems(4)
  have nil: "csv_lines [] = []" by (simp add: csv_lines_blank)
  show ?case
  proof (cases "s = []")
    case True
    then have "de < line \<or> b ! line = 0" using tx by (auto simp: text_at_def)
    then show ?thesis using parse_csv_loop_done [OF cb] True nil less.prems(3) by auto
  next
    case False
    have "b ! line \<noteq> 0" and "line \<le> de"
      using tx False by (auto simp: text_at_def neq_Nil_conv)
    then have lt: "line < de" and nz: "b ! line \<noteq> 0"
      using cb by (cases "line = de"; auto simp: csv_buf_def)+
    obtain l1 e1 where la: "csv_line_at b de line l1 e1"
        and sk: "csv_skip b line (csv_span de line) = Some (l1, de - l1 + 1)"
        and fe: "csv_find_end b csv_delims l1 (de - l1 + 1) de = Some e1"
      by (rule csv_line_exists [OF cb lt])
    obtain pre rest where sp: "s = pre @ seg b l1 e1 @ rest" "\<forall>x \<in> set pre. is_eol x"
        "\<forall>x \<in> set (seg b l1 e1). \<not> is_eol x" "rest = [] \<or> is_eol (hd rest)"
        "b ! e1 = 0 \<longleftrightarrow> rest = []" "e1 = line + length pre + length (seg b l1 e1)"
        "line + length s = e1 + length rest"
      by (rule text_at_split [OF tx la False cb]) blast
    have bd: "line \<le> l1" "l1 \<le> e1" "e1 \<le> de" "e1 < length b" "length (seg b l1 e1) = e1 - l1"
      using la cb by (auto simp: csv_line_at_def csv_buf_def seg_def)
    have m: "de + 1 - (e1 + 1) < de + 1 - line" using bd lt by linarith
    show ?thesis
    proof (cases "e1 = l1")
      case True
      then have "b ! e1 = 0" using la by (auto simp: csv_line_at_def)
      then have r: "rest = []" "seg b l1 e1 = []" using sp(5) True by (auto simp: seg_def)
      have "csv_lines s = []" using sp(1,2) r by (simp add: csv_lines_blank)
      moreover have "\<forall>i. e1 \<le> i \<and> i \<le> de \<longrightarrow> b ! i = 0"
        using tx sp(7) r by (simp add: text_at_def)
      then have "de < e1 + 1 \<or> b ! (e1 + 1) = 0" by (metis le_add1 not_le)
      ultimately show ?thesis
        using parse_csv_loop_blank [OF cb lt nz la [unfolded True] sk fe [unfolded True], of n rows p]
          parse_csv_loop_done [OF cb, of "l1 + 1" n rows p] True less.prems(3) by auto
    next
      case False
      then have l: "l1 < e1" and ne: "seg b l1 e1 \<noteq> []" using bd by (auto simp: seg_def)
      have lines: "csv_lines s = seg b l1 e1 # csv_lines rest"
        unfolding sp(1) by (rule csv_lines_parts [OF sp(2,3) ne sp(4)])
      have al: "AllocatePool p (csv_entrysz n) = (True, \<lambda>k. p (Suc k))"
        by (rule AllocatePool_ok [OF less.prems(3)])
      show ?thesis
      proof (rule parse_csv_loop_row [OF cb lt nz less.prems(2) la l sk fe al, of rows], goal_cases)
        case 1
        then show ?thesis by simp
      next
        case (2 b2 row)
        have b2: "length b2 = length b" "b2 ! e1 = 0" "\<forall>i < line. b2 ! i = b ! i"
          using 2(2) bd by (auto simp: same_outside_def)
        show ?thesis
        proof (cases rest)
          case Nil
          then show ?thesis
            using 2(4,5) b2 sp(5) lines nil pool_ok_Suc [OF less.prems(3)] by auto
        next
          case (Cons c t)
          have tx2: "text_at b2 de (e1 + 1) t"
            by (rule text_at_tail [OF tx _ _ 2(2), of "pre @ seg b l1 e1" c]) (use sp Cons in auto)
          have cb2: "csv_buf b2 de" by (rule csv_buf_same [OF cb 2(2) bd(3)])
          obtain b' new p' where ih: "parse_csv_loop b2 de n (e1 + 1) (rows @ [row])
                (\<lambda>k. p (Suc k)) = Some (EFI_SUCCESS, b', (rows @ [row]) @ new, p')"
              "length b' = length b2" "\<forall>i < e1 + 1. b' ! i = b2 ! i" "pool_ok p'"
              "list_all2 (row_holds b' n) new (map (csv_fields n) (csv_lines t))"
            using less.hyps [OF m cb2 less.prems(2) pool_ok_Suc [OF less.prems(3)] tx2] by blast
          have "row_holds b' n row (csv_fields n (seg b l1 e1))"
            using ih(2,3) by (intro row_holds_frame [OF 2(4,3) b2(2)]) auto
          moreover have "csv_lines rest = csv_lines t" using sp(4) Cons by (simp add: csv_lines_eol)
          ultimately show ?thesis
            using 2(5) ih b2 bd Cons lines sp(5)
            by (intro exI [of _ b'] exI [of _ "row # new"] exI [of _ p']) auto
        qed
      qed
    qed
  qed
qed

section \<open>The CSV parser\<close>

lemma text_at_nth:
  "text_at b de line s \<Longrightarrow> k < length s \<Longrightarrow> b ! (line + k) = s ! k"
  "text_at b de line s \<Longrightarrow> line + length s \<le> de \<Longrightarrow> b ! (line + length s) = 0"
  by (auto simp: text_at_def)

lemma bom_take: "take 3 s = UTF8_BOM \<longleftrightarrow> (\<exists>t. s = UTF8_BOM @ t)"
  by (cases s; cases "tl s"; cases "tl (tl s)") (auto simp: UTF8_BOM_def)

lemma take3_drop: "i + 2 < length b \<Longrightarrow> take 3 (drop i b) = [b ! i, b ! (i + 1), b ! (i + 2)]"
  by (simp add: numeral_3_eq_3 take_Suc_conv_app_nth)

lemma take2_drop: "i + 1 < length b \<Longrightarrow> take (Suc (Suc 0)) (drop i b) = [b ! i, b ! (i + 1)]"
  by (simp add: take_Suc_conv_app_nth)

lemma is_utf8_bom_text:
  assumes cb: "csv_buf b de" and lt: "data < de" and tx: "text_at b de data s"
  shows "is_utf8_bom b data (csv_span de data) = Some (take 3 s = UTF8_BOM)"
proof (cases "data + 1 = de")
  case True
  have "b ! (data + 1) = 0" using cb True by (simp add: csv_buf_def)
  moreover have "length s \<le> 2" using tx True by (auto simp: text_at_def)
  then have "take 3 s \<noteq> UTF8_BOM" by (auto simp: UTF8_BOM_def)
  ultimately show ?thesis
    using cb True by (auto simp: is_utf8_bom_def csv_span_le csv_buf_def mem_simps take2_drop UTF8_BOM_def)
next
  case False
  have b: "rdn b data (min 3 (csv_span de data)) = Some [b ! data, b ! (data + 1), b ! (data + 2)]"
    using cb lt False by (auto simp: csv_span_le csv_buf_def mem_simps take3_drop min_def)
  have m: "min 3 (csv_span de data) = 3" using cb lt False by (auto simp: csv_span_le csv_buf_def)
  have "[b ! data, b ! (data + 1), b ! (data + 2)] = UTF8_BOM \<longleftrightarrow> take 3 s = UTF8_BOM"
  proof (cases "length s < 3")
    case True
    then have "b ! (data + length s) = 0" using tx lt False by (intro text_at_nth(2)) auto
    with True show ?thesis by (auto simp: UTF8_BOM_def less_Suc_eq numeral_3_eq_3)
  next
    case False
    then obtain x y z t where "s = x # y # z # t"
      by (metis length_Cons list.exhaust list.size(3) numeral_3_eq_3 zero_less_Suc Suc_less_eq)
    with text_at_nth(1) [OF tx, of 0] text_at_nth(1) [OF tx, of 1] text_at_nth(1) [OF tx, of 2]
    show ?thesis by (auto simp: numeral_3_eq_3)
  qed
  then show ?thesis using b m by (simp add: is_utf8_bom_def UTF8_BOM_def)
qed

text \<open>C14. The CSV parser is memory safe and terminates: given a buffer whose byte at
  \<open>data_end\<close> is NUL, whatever its other bytes and whatever the allocator answers, and a number of
  columns for which the size of a row does not wrap,
  \<^verbatim>\<open>parse_csv_data\<close> returns, reads and writes nothing outside \<open>data .. data_end\<close>, and its
  status is success or, with the list freed, out of resources.\<close>

theorem parse_csv_data_safe:
  assumes "data < data_end" and "data_end < length b" and "b ! data_end = 0"
    and "length b < 2 ^ 32" and "0 < n" and "8 * n + 24 < 2 ^ 64"
  shows "\<exists>st b' rows' p'. parse_csv_data b (Some data) (Some data_end) n (Some rows) p =
      Some (st, b', Some rows', p') \<and>
    (st = EFI_SUCCESS \<or> st = EFI_OUT_OF_RESOURCES \<and> rows' = []) \<and>
    length b' = length b \<and> (\<forall>i. i < data \<or> data_end < i \<longrightarrow> b' ! i = b ! i)"
proof -
  have cb: "csv_buf b data_end" using assms by (simp add: csv_buf_def)
  have "data + min 3 (csv_span data_end data) \<le> length b"
    using assms by (auto simp: csv_span_le)
  then obtain bom where bom: "is_utf8_bom b data (csv_span data_end data) = Some bom"
    by (simp add: is_utf8_bom_def mem_simps)
  let ?line = "if bom then data + 3 else data"
  obtain st b' rows' p' where "parse_csv_loop b data_end n ?line rows p = Some (st, b', rows', p')"
      "st = EFI_SUCCESS \<or> st = EFI_OUT_OF_RESOURCES \<and> rows' = []" "length b' = length b"
      "\<forall>i. i < ?line \<or> data_end < i \<longrightarrow> b' ! i = b ! i"
    using parse_csv_loop_returns [OF cb, of n ?line rows p] assms(5,6) by blast
  then show ?thesis using assms(1,5) bom by (auto simp: parse_csv_data_def split: if_splits)
qed

lemma parse_csv_data_safe_witness:
  "\<exists>st b' rows' p'. parse_csv_data (lit ''a,,b'' @ [0x0D, 0, 0x0A, 0]) (Some 0) (Some 7) 2 (Some [])
      (\<lambda>k sz. k < 1) = Some (st, b', Some rows', p') \<and>
    (st = EFI_SUCCESS \<or> st = EFI_OUT_OF_RESOURCES \<and> rows' = []) \<and>
    length b' = length (lit ''a,,b'' @ [0x0D, 0, 0x0A, 0]) \<and>
    (\<forall>i. i < 0 \<or> 7 < i \<longrightarrow> b' ! i = (lit ''a,,b'' @ [0x0D, 0, 0x0A, 0]) ! i)"
  by (rule parse_csv_data_safe) (simp_all add: lit_def)

lemma parse_csv_data_lines:
  assumes "csv_buf b data_end" and "data < data_end" and "text_at b data_end data s"
    and "0 < n" and "8 * n + 24 < 2 ^ 64" and "pool_ok p"
  shows "\<exists>b' new p'. parse_csv_data b (Some data) (Some data_end) n (Some rows) p =
      Some (EFI_SUCCESS, b', Some (rows @ new), p') \<and> pool_ok p' \<and>
    list_all2 (row_holds b' n) new (csv_spec n s)"
proof -
  note bom = is_utf8_bom_text [OF assms(1-3)]
  let ?line = "if take 3 s = UTF8_BOM then data + 3 else data"
  have "text_at b data_end ?line (strip_bom s)"
  proof (cases "take 3 s = UTF8_BOM")
    case True
    then obtain t where "s = UTF8_BOM @ t" by (auto simp: bom_take)
    with assms(3) text_at_nth(1) [OF assms(3), of "3 + k" for k] show ?thesis
      by (auto simp: text_at_def strip_bom_def UTF8_BOM_def add.assoc)
  qed (use assms(3) in \<open>simp add: strip_bom_def\<close>)
  from parse_csv_loop_lines [OF assms(1) conjI [OF assms(4,5)] assms(6) this, of rows]
  show ?thesis using bom assms(2,4) by (auto simp: parse_csv_data_def csv_spec_def)
qed

text \<open>C13. The CSV parser implements the reference split: on a text followed by NULs, with
  allocations that succeed, \<^verbatim>\<open>parse_csv_data\<close> succeeds and appends one row per non-empty line
  of the text (after an optional UTF-8 byte order mark). On a line that has a comma the columns point to
  the strings between the commas, at most \<open>n\<close> of them, the others being NULL; a line without a comma has
  no columns at all: its only field is dropped, and all its columns are NULL.\<close>

theorem parse_csv_data_spec:
  assumes "csv_buf b data_end" and "data < data_end" and "text_at b data_end data s"
    and "0 < n" and "8 * n + 24 < 2 ^ 64" and "pool_ok p"
  shows "\<exists>b' new p'. parse_csv_data b (Some data) (Some data_end) n (Some rows) p =
      Some (EFI_SUCCESS, b', Some (rows @ new), p') \<and>
    list_all2 (row_holds b' n) new (csv_spec n s)"
  using parse_csv_data_lines [OF assms, of rows] by blast

lemma parse_csv_data_spec_witness:
  "\<exists>b' new p'. parse_csv_data (lit ''a,b'' @ [0x0A] @ lit ''cde'' @ [0]) (Some 0) (Some 7) 2 (Some [])
      (\<lambda>_ _. True) = Some (EFI_SUCCESS, b', Some ([] @ new), p') \<and>
    list_all2 (row_holds b' 2) new (csv_spec 2 (lit ''a,b'' @ [0x0A] @ lit ''cde'')) \<and>
    csv_spec 2 (lit ''a,b'' @ [0x0A] @ lit ''cde'') = [[lit ''a'', lit ''b''], []]"
proof -
  have "\<exists>b' new p'. parse_csv_data (lit ''a,b'' @ [0x0A] @ lit ''cde'' @ [0]) (Some 0) (Some 7) 2 (Some [])
      (\<lambda>_ _. True) = Some (EFI_SUCCESS, b', Some ([] @ new), p') \<and>
    list_all2 (row_holds b' 2) new (csv_spec 2 (lit ''a,b'' @ [0x0A] @ lit ''cde''))"
    by (rule parse_csv_data_spec)
      (auto simp: csv_buf_def text_at_def pool_ok_def lit_def less_Suc_eq dest: le_antisym)
  moreover have "csv_spec 2 (lit ''a,b'' @ [0x0A] @ lit ''cde'') = [[lit ''a'', lit ''b''], []]" by code_simp
  ultimately show ?thesis by blast
qed

end
