(* ===== verification/Efi_Services.thy ===== *)
theory Efi_Services
  imports Shim_Base
begin

text \<open>
  The runtime services of the firmware that the variable code calls, as a record of
  functions over the firmware's state \<open>'w\<close>, and the contract of the variable services as
  a locale: the firmware's variables are a finite map from name and GUID to attributes and
  data. The code that uses variables is proved against the contract; the store of
  \<^verbatim>\<open>mock-variables.c\<close> is proved to implement it.
\<close>

section \<open>The runtime services\<close>

text \<open>\<^verbatim>\<open>GetVariable\<close> takes the name, the GUID, the value of \<^verbatim>\<open>*DataSize\<close> and whether \<^verbatim>\<open>Data\<close> is
  not NULL. Its result is the status, the new \<^verbatim>\<open>*DataSize\<close>, the attributes if they were
  written, and the bytes written to \<^verbatim>\<open>Data\<close>. \<^verbatim>\<open>SetVariable\<close> may fail to return (\<open>None\<close>).
  \<^verbatim>\<open>GetTime\<close> gives the sixteen bytes of an \<^verbatim>\<open>EFI_TIME\<close>; \<^verbatim>\<open>QueryVariableInfo\<close> the maximum
  storage, the remaining storage and the maximum size of a variable.\<close>

type_synonym gv_result = "efi_status \<times> nat \<times> 32 word option \<times> buf"

record 'w efi_rt =
  GetVariable :: "ucs2 \<Rightarrow> efi_guid \<Rightarrow> nat \<Rightarrow> bool \<Rightarrow> 'w \<Rightarrow> gv_result"
  SetVariable :: "ucs2 \<Rightarrow> efi_guid \<Rightarrow> 32 word \<Rightarrow> buf \<Rightarrow> 'w \<Rightarrow> (efi_status \<times> 'w) option"
  QueryVariableInfo :: "32 word \<Rightarrow> 'w \<Rightarrow> efi_status \<times> (nat \<times> nat \<times> nat) option"
  GetTime :: "'w \<Rightarrow> efi_status \<times> buf"

section \<open>The contract of the variable services\<close>

type_synonym var_map = "ucs2 \<times> efi_guid \<Rightarrow> (32 word \<times> buf) option"

text \<open>What a successful \<^verbatim>\<open>SetVariable\<close> does to the map: an append extends the data, empty
  data deletes the variable, other data replaces it; an existing variable keeps its
  attributes.\<close>

definition var_update :: "ucs2 \<Rightarrow> efi_guid \<Rightarrow> 32 word \<Rightarrow> buf \<Rightarrow> var_map \<Rightarrow> var_map" where
  "var_update n g attrs data m =
     (case m (n, g) of
        None \<Rightarrow> m((n, g) \<mapsto> (attrs, data))
      | Some (a, d) \<Rightarrow>
          if attrs AND EFI_VARIABLE_APPEND_WRITE \<noteq> 0 then m((n, g) \<mapsto> (a, d @ data))
          else if data = [] then m((n, g) := None)
          else m((n, g) \<mapsto> (a, data)))"

locale variable_services =
  fixes rt :: "'w efi_rt" and vars :: "'w \<Rightarrow> var_map" and inv :: "'w \<Rightarrow> bool"
  assumes var_nonempty: "inv w \<Longrightarrow> vars w k = Some (a, d) \<Longrightarrow> d \<noteq> []"
    and get_none: "inv w \<Longrightarrow> vars w (n, g) = None \<Longrightarrow>
      GetVariable rt n g sz has w = (EFI_NOT_FOUND, sz, None, [])"
    and get_small: "inv w \<Longrightarrow> vars w (n, g) = Some (a, d) \<Longrightarrow> sz < length d \<Longrightarrow>
      GetVariable rt n g sz has w = (EFI_BUFFER_TOO_SMALL, length d, Some a, [])"
    and get_data: "inv w \<Longrightarrow> vars w (n, g) = Some (a, d) \<Longrightarrow> length d \<le> sz \<Longrightarrow>
      GetVariable rt n g sz True w = (EFI_SUCCESS, length d, Some a, d)"
    and set_inv: "inv w \<Longrightarrow> SetVariable rt n g at x w = Some (st, w') \<Longrightarrow> inv w'"
    and set_err: "inv w \<Longrightarrow> SetVariable rt n g at x w = Some (st, w') \<Longrightarrow> EFI_ERROR st \<Longrightarrow>
      vars w' = vars w"
    and set_ok: "inv w \<Longrightarrow> SetVariable rt n g at x w = Some (st, w') \<Longrightarrow> \<not> EFI_ERROR st \<Longrightarrow>
      vars w' = var_update n g at x (vars w)"

context variable_services
begin

text \<open>Reading after writing: the written data, and nothing else has changed.\<close>

lemma set_lookup:
  assumes "inv w" and "SetVariable rt n g at x w = Some (st, w')" and "\<not> EFI_ERROR st"
    and "at AND EFI_VARIABLE_APPEND_WRITE = 0" and "x \<noteq> []"
  shows "\<exists>a. vars w' (n, g) = Some (a, x)" and "k \<noteq> (n, g) \<Longrightarrow> vars w' k = vars w k"
  using set_ok [OF assms(1-3)] assms(4,5) by (auto simp: var_update_def split: option.splits)

lemma set_other:
  assumes "inv w" and "SetVariable rt n g at x w = Some (st, w')" and "k \<noteq> (n, g)"
  shows "vars w' k = vars w k"
proof (cases "EFI_ERROR st")
  case True
  then show ?thesis using set_err [OF assms(1,2)] by simp
next
  case False
  then show ?thesis
    using set_ok [OF assms(1,2)] assms(3) by (auto simp: var_update_def split: option.splits)
qed

lemma delete_lookup:
  assumes "inv w" and "SetVariable rt n g at [] w = Some (st, w')" and "\<not> EFI_ERROR st"
    and "at AND EFI_VARIABLE_APPEND_WRITE = 0"
  shows "vars w' (n, g) = None"
proof -
  have *: "vars w' (n, g) = var_update n g at [] (vars w) (n, g)"
    using set_ok [OF assms(1-3)] by simp
  show ?thesis
  proof (cases "vars w (n, g)")
    case None
    then have "vars w' (n, g) = Some (at, [])" using * by (simp add: var_update_def)
    then show ?thesis using var_nonempty [OF set_inv [OF assms(1,2)]] by blast
  next
    case (Some v)
    then show ?thesis using * assms(4) by (cases v) (simp add: var_update_def)
  qed
qed

end

end
