(* ===== verification/Esl.thy ===== *)
theory Esl
  imports Shim_Base
begin

text \<open>
  EFI signature lists: the structures \<^verbatim>\<open>EFI_SIGNATURE_LIST\<close> and \<^verbatim>\<open>EFI_SIGNATURE_DATA\<close> of
  \<^verbatim>\<open>include/efiauthenticated.h\<close> as the model reads them from memory, their byte encoding,
  and the lemmas that say what the loads at the fields of an encoded list return.
\<close>

section \<open>The structures in memory\<close>

text \<open>The fields of a list at an address: the type at offset 0, \<^verbatim>\<open>SignatureListSize\<close> at 16,
  \<^verbatim>\<open>SignatureHeaderSize\<close> at 20, \<^verbatim>\<open>SignatureSize\<close> at 24. The structure has 28 bytes, and the
  owner GUID of a signature 16.\<close>

definition esl_SignatureType :: "buf \<Rightarrow> nat \<Rightarrow> buf option" where
  "esl_SignatureType b cl = rdn b cl 16"

definition esl_ListSize :: "buf \<Rightarrow> nat \<Rightarrow> nat option" where
  "esl_ListSize b cl = rd32 b (cl + 16)"

definition esl_HeaderSize :: "buf \<Rightarrow> nat \<Rightarrow> nat option" where
  "esl_HeaderSize b cl = rd32 b (cl + 20)"

definition esl_SignatureSize :: "buf \<Rightarrow> nat \<Rightarrow> nat option" where
  "esl_SignatureSize b cl = rd32 b (cl + 24)"

section \<open>The encoding\<close>

text \<open>A signature list as data: its type, its header, the size of each signature and the
  signatures, each an owner and the signature's data.\<close>

record esl =
  esl_type :: efi_guid
  esl_header :: buf
  esl_sigsize :: nat
  esl_sigs :: "(buf \<times> buf) list"

definition sig_bytes :: "buf \<times> buf \<Rightarrow> buf" where
  "sig_bytes sig = fst sig @ snd sig"

definition esl_listsize :: "esl \<Rightarrow> nat" where
  "esl_listsize l = 28 + length (esl_header l) + length (esl_sigs l) * esl_sigsize l"

definition esl_encode :: "esl \<Rightarrow> buf" where
  "esl_encode l =
     guid_bytes (esl_type l) @ le_bytes 4 (esl_listsize l) @ le_bytes 4 (length (esl_header l)) @
     le_bytes 4 (esl_sigsize l) @ esl_header l @ concat (map sig_bytes (esl_sigs l))"

definition esls_encode :: "esl list \<Rightarrow> buf" where
  "esls_encode ls = concat (map esl_encode ls)"

text \<open>A well-formed list: each signature has the stated size, at least the owner,
  and the total fits in 32 bits.\<close>

definition esl_wf :: "esl \<Rightarrow> bool" where
  "esl_wf l \<longleftrightarrow> 16 \<le> esl_sigsize l \<and> esl_listsize l < 2 ^ 32 \<and>
     esl_sigsize l < 2 ^ 32 \<and>
     list_all (\<lambda>s. length (fst s) = 16 \<and> 16 + length (snd s) = esl_sigsize l) (esl_sigs l)"

lemma rd_le_append:
  assumes "length x = i" and "length y = n"
  shows "rd_le n (x @ y @ z) i = Some (le_val y)"
  using assms by (simp add: rd_le_def mem_simps)

lemma rd32_append: "length x = i \<Longrightarrow> v < 2 ^ 32 \<Longrightarrow> rd32 (x @ le_bytes 4 v @ z) i = Some v"
  by (simp add: rd32_def rd_le_append le_val_le_bytes)

lemma length_sigs:
  assumes "\<forall>s \<in> set sigs. length (sig_bytes s) = n"
  shows "length (concat (map sig_bytes sigs)) = length sigs * n"
  using assms by (induction sigs) auto

lemma esl_wf_sig:
  "esl_wf l \<Longrightarrow> s \<in> set (esl_sigs l) \<Longrightarrow>
    length (fst s) = 16 \<and> length (sig_bytes s) = esl_sigsize l"
  by (auto simp: esl_wf_def list_all_iff sig_bytes_def)

lemma length_esl_encode: "esl_wf l \<Longrightarrow> length (esl_encode l) = esl_listsize l"
  by (simp add: esl_encode_def esl_listsize_def esl_wf_sig length_sigs)

text \<open>The fields of an encoded list inside a buffer.\<close>

lemma esl_fields:
  assumes wf: "esl_wf l" and i: "length x = cl"
  shows "esl_SignatureType (x @ esl_encode l @ z) cl = Some (guid_bytes (esl_type l))"
    and "esl_ListSize (x @ esl_encode l @ z) cl = Some (esl_listsize l)"
    and "esl_HeaderSize (x @ esl_encode l @ z) cl = Some (length (esl_header l))"
    and "esl_SignatureSize (x @ esl_encode l @ z) cl = Some (esl_sigsize l)"
proof -
  let ?h = "le_bytes 4 (length (esl_header l))" and ?s = "le_bytes 4 (esl_sigsize l)"
  let ?rest = "esl_header l @ concat (map sig_bytes (esl_sigs l))"
  have hs: "length (esl_header l) < 2 ^ 32" "esl_listsize l < 2 ^ 32" "esl_sigsize l < 2 ^ 32"
    using wf by (auto simp: esl_wf_def esl_listsize_def)
  show "esl_SignatureType (x @ esl_encode l @ z) cl = Some (guid_bytes (esl_type l))"
    using i by (simp add: esl_SignatureType_def esl_encode_def mem_simps)
  show "esl_ListSize (x @ esl_encode l @ z) cl = Some (esl_listsize l)"
    using rd32_append [of "x @ guid_bytes (esl_type l)" "cl + 16" "esl_listsize l"
        "?h @ ?s @ ?rest @ z"] i hs
    by (simp add: esl_ListSize_def esl_encode_def)
  show "esl_HeaderSize (x @ esl_encode l @ z) cl = Some (length (esl_header l))"
    using rd32_append [of "x @ guid_bytes (esl_type l) @ le_bytes 4 (esl_listsize l)" "cl + 20"
        "length (esl_header l)" "?s @ ?rest @ z"] i hs
    by (simp add: esl_HeaderSize_def esl_encode_def)
  show "esl_SignatureSize (x @ esl_encode l @ z) cl = Some (esl_sigsize l)"
    using rd32_append [of "x @ guid_bytes (esl_type l) @ le_bytes 4 (esl_listsize l) @ ?h" "cl + 24"
        "esl_sigsize l" "?rest @ z"] i hs
    by (simp add: esl_SignatureSize_def esl_encode_def)
qed

text \<open>The data of the \<open>k\<close>-th signature of an encoded list is at its offset.\<close>

lemma sigs_split:
  assumes "k < length sigs"
  shows "concat (map sig_bytes sigs) =
    concat (map sig_bytes (take k sigs)) @ sig_bytes (sigs ! k) @
      concat (map sig_bytes (drop (Suc k) sigs))"
  using arg_cong [OF id_take_nth_drop [OF assms], of "\<lambda>s. concat (map sig_bytes s)"] by simp

lemma rdn_append: "length x = i \<Longrightarrow> length y = n \<Longrightarrow> rdn (x @ y @ z) i n = Some y"
  by (simp add: mem_simps)

lemma esl_sig_data:
  assumes wf: "esl_wf l" and i: "length x = cl" and k: "k < length (esl_sigs l)"
    and at: "at = cl + 28 + length (esl_header l) + k * esl_sigsize l"
  shows "rdn (x @ esl_encode l @ z) (at + 16) (esl_sigsize l - 16) = Some (snd (esl_sigs l ! k))"
    and "rdn (x @ esl_encode l @ z) at (esl_sigsize l) = Some (sig_bytes (esl_sigs l ! k))"
proof -
  let ?sg = "esl_sigs l ! k"
  let ?pre = "x @ guid_bytes (esl_type l) @ le_bytes 4 (esl_listsize l) @
    le_bytes 4 (length (esl_header l)) @ le_bytes 4 (esl_sigsize l) @ esl_header l @
    concat (map sig_bytes (take k (esl_sigs l)))"
  let ?post = "concat (map sig_bytes (drop (Suc k) (esl_sigs l))) @ z"
  have sg: "length (fst ?sg) = 16" "length (sig_bytes ?sg) = esl_sigsize l"
    using esl_wf_sig [OF wf nth_mem [OF k]] by auto
  have sz: "16 \<le> esl_sigsize l" using wf by (simp add: esl_wf_def)
  have "length (concat (map sig_bytes (take k (esl_sigs l)))) = k * esl_sigsize l"
    using k esl_wf_sig [OF wf] by (subst length_sigs [where n = "esl_sigsize l"])
      (auto dest: in_set_takeD)
  then have lp: "length ?pre = at" using i at by simp
  have eq: "x @ esl_encode l @ z = ?pre @ sig_bytes ?sg @ ?post"
    unfolding esl_encode_def sigs_split [OF k] by simp
  show "rdn (x @ esl_encode l @ z) at (esl_sigsize l) = Some (sig_bytes ?sg)"
    unfolding eq using lp sg by (intro rdn_append) auto
  have "rdn ((?pre @ fst ?sg) @ snd ?sg @ ?post) (at + 16) (esl_sigsize l - 16) = Some (snd ?sg)"
    using lp sg sz by (intro rdn_append) (auto simp: sig_bytes_def)
  then show "rdn (x @ esl_encode l @ z) (at + 16) (esl_sigsize l - 16) = Some (snd ?sg)"
    unfolding eq by (simp add: sig_bytes_def)
qed

lemma rdn_prefix:
  assumes "rdn b i n = Some y" and "m \<le> n"
  shows "rdn b i m = Some (take m y)"
  using assms by (auto simp: rdn_Some_iff min_def)

end
