(* ===== verification/Variables.thy ===== *)
theory Variables
  imports Efi_Services Esl
begin

text \<open>
  \<^verbatim>\<open>lib/variables.c\<close>: signature lists built and searched in memory, the payload of
  authenticated variables, and the wrappers of the firmware's variable services, with the
  GUIDs of \<^verbatim>\<open>lib/guid.c\<close> that the modelled code names.

  The lemmas prove, against the contract of the variable services, that reading returns the
  stored data followed by NULs and that writing, deleting and enrolling a hash have their
  effect; and, on memory, that building and searching signature lists agree.
\<close>

section \<open>GUIDs (lib/guid.c)\<close>

definition GV_GUID :: efi_guid where
  "GV_GUID = GUID 0x8be4df61 0x93ca 0x11d2 0xaa 0x0d 0x00 0xe0 0x98 0x03 0x2b 0x8c"
definition SIG_DB :: efi_guid where
  "SIG_DB = GUID 0xd719b2cb 0x3d3a 0x4596 0xa3 0xbc 0xda 0xd0 0x0e 0x67 0x65 0x6f"
definition X509_GUID :: efi_guid where
  "X509_GUID = GUID 0xa5c059a1 0x94e4 0x4aa7 0x87 0xb5 0xab 0x15 0x5c 0x2b 0xf0 0x72"
definition EFI_CERT_SHA1_GUID :: efi_guid where
  "EFI_CERT_SHA1_GUID = GUID 0x826ca512 0xcf10 0x4ac9 0xb1 0x87 0xbe 0x01 0x49 0x66 0x31 0xbd"
definition EFI_CERT_SHA256_GUID :: efi_guid where
  "EFI_CERT_SHA256_GUID = GUID 0xc1c41626 0x504c 0x4092 0xac 0xa9 0x41 0xf9 0x36 0x93 0x43 0x28"
definition EFI_CERT_TYPE_PKCS7_GUID :: efi_guid where
  "EFI_CERT_TYPE_PKCS7_GUID = GUID 0x4aafd29d 0x68df 0x49ee 0x8a 0xa9 0x34 0x7d 0x37 0x56 0x65 0xa7"
definition EFI_CERT_TYPE_X509_GUID :: efi_guid where
  "EFI_CERT_TYPE_X509_GUID = GUID 0xa5c059a1 0x94e4 0x4aa7 0x87 0xb5 0xab 0x15 0x5c 0x2b 0xf0 0x72"
definition EFI_SECURE_BOOT_DB_GUID :: efi_guid where
  "EFI_SECURE_BOOT_DB_GUID = GUID 0xd719b2cb 0x3d3a 0x4596 0xa3 0xbc 0xda 0xd0 0x0e 0x67 0x65 0x6f"
definition SHIM_LOCK_GUID :: efi_guid where
  "SHIM_LOCK_GUID = GUID 0x605dab50 0xe046 0x4300 0xab 0xb6 0x3d 0xd8 0x10 0xdd 0x8b 0x23"
definition MOK_VARIABLE_STORE :: efi_guid where
  "MOK_VARIABLE_STORE = GUID 0xc451ed2b 0x9694 0x45d3 0xba 0xba 0xed 0x9f 0x89 0x88 0xa3 0x89"
definition SECUREBOOT_EFI_NAMESPACE_GUID :: efi_guid where
  "SECUREBOOT_EFI_NAMESPACE_GUID =
     GUID 0x77fa9abd 0x0359 0x4d32 0xbd 0x60 0x28 0xf4 0xe7 0x8f 0x78 0x4b"

section \<open>Building signature lists\<close>

text \<open>\<^verbatim>\<open>fill_esl\<close>: \<open>first_sig\<close> is the signature array (NULL being \<open>None\<close>), \<open>out\<close> the output
  buffer, \<open>outlen\<close> the value of \<^verbatim>\<open>*outlen\<close>. The result is the status, the output buffer and
  the new \<^verbatim>\<open>*outlen\<close>; \<open>None\<close> is an access outside a buffer. \<^verbatim>\<open>type\<close> and \<^verbatim>\<open>outlen\<close> are not NULL
  in any call of the code.\<close>

definition fill_esl ::
    "buf option \<Rightarrow> nat \<Rightarrow> efi_guid \<Rightarrow> nat \<Rightarrow> buf option \<Rightarrow> nat
      \<Rightarrow> (efi_status \<times> buf option \<times> nat) option" where
  "fill_esl first_sig howmany type sig_size out outlen =
     (let data_len = (howmany * sig_size) mod 2 ^ 64
      in if (out \<noteq> None \<and> first_sig = None) \<or> howmany = 0 \<or> sig_size = 0
         then Some (EFI_INVALID_PARAMETER, out, outlen)
         else if howmany > (2 ^ 32 - 1 - 28) div sig_size
         then Some (EFI_INVALID_PARAMETER, out, outlen)
         else let needed = 28 + data_len
              in (case out of
                    None \<Rightarrow> Some (EFI_BUFFER_TOO_SMALL, out, needed)
                  | Some ob \<Rightarrow>
                      if outlen < needed then Some (EFI_BUFFER_TOO_SMALL, out, needed)
                      else (case rdn (the first_sig) 0 data_len of
                              None \<Rightarrow> None
                            | Some d \<Rightarrow>
                                (case wrn ob 0 (guid_bytes type @ le_bytes 4 needed @
                                        le_bytes 4 0 @ le_bytes 4 sig_size @ d) of
                                   None \<Rightarrow> None
                                 | Some ob' \<Rightarrow> Some (EFI_SUCCESS, Some ob', needed)))))"

text \<open>\<^verbatim>\<open>fill_esl_with_one_signature\<close>: \<^verbatim>\<open>sizeof(EFI_SIGNATURE_DATA) - 1\<close> is 16 and the sum is a
  \<^verbatim>\<open>UINT32\<close>. A missing owner leaves sixteen zero bytes.\<close>

definition fill_esl_with_one_signature ::
    "buf \<Rightarrow> efi_guid \<Rightarrow> efi_guid option \<Rightarrow> buf option \<Rightarrow> nat \<Rightarrow> pool
      \<Rightarrow> (efi_status \<times> buf option \<times> nat \<times> pool) option" where
  "fill_esl_with_one_signature data type owner out outlen p =
     (let sig_size = (16 + length data) mod 2 ^ 32
      in if length data > 2 ^ 32 - 1 - 17 + 1 then Some (EFI_INVALID_PARAMETER, out, outlen, p)
         else case out of
           None \<Rightarrow>
             map_option (\<lambda>(st, ob, n). (st, ob, n, p)) (fill_esl None 1 type sig_size None outlen)
         | Some ob \<Rightarrow>
             (case AllocatePool p sig_size of
                (ok, p1) \<Rightarrow>
                  if \<not> ok then Some (EFI_OUT_OF_RESOURCES, out, outlen, p1)
                  else
                    let sd = (case owner of None \<Rightarrow> replicate 16 0 | Some g \<Rightarrow> guid_bytes g) @ data
                    in map_option (\<lambda>(st, ob, n). (st, ob, n, p1))
                         (fill_esl (Some sd) 1 type sig_size out outlen)))"

definition variable_create_esl ::
    "buf \<Rightarrow> nat \<Rightarrow> efi_guid \<Rightarrow> nat \<Rightarrow> pool \<Rightarrow> (efi_status \<times> buf option \<times> nat \<times> pool) option" where
  "variable_create_esl first_sig howmany type sig_size p =
     (case fill_esl (Some first_sig) howmany type sig_size None 0 of
        None \<Rightarrow> None
      | Some (st, _, outlen) \<Rightarrow>
          if st \<noteq> EFI_BUFFER_TOO_SMALL then Some (st, None, outlen, p)
          else (case AllocatePool p outlen of
                  (ok, p1) \<Rightarrow>
                    if \<not> ok then Some (EFI_OUT_OF_RESOURCES, None, outlen, p1)
                    else map_option (\<lambda>(st, ob, n). (st, ob, n, p1))
                           (fill_esl (Some first_sig) howmany type sig_size
                              (Some (replicate outlen 0)) outlen)))"

text \<open>The \<^verbatim>\<open>size_t\<close> length is passed on as a \<^verbatim>\<open>uint32_t\<close>: a caller's length below \<open>2 ^ 32\<close>.\<close>

definition variable_create_esl_with_one_signature ::
    "buf \<Rightarrow> efi_guid \<Rightarrow> efi_guid option \<Rightarrow> pool \<Rightarrow> (efi_status \<times> buf option \<times> nat \<times> pool) option" where
  "variable_create_esl_with_one_signature data type owner p =
     (case fill_esl_with_one_signature data type owner None 0 p of
        None \<Rightarrow> None
      | Some (st, _, outlen, p0) \<Rightarrow>
          if st \<noteq> EFI_BUFFER_TOO_SMALL then Some (st, None, outlen, p0)
          else (case AllocatePool p0 outlen of
                  (ok, p1) \<Rightarrow>
                    if \<not> ok then Some (EFI_OUT_OF_RESOURCES, None, outlen, p1)
                    else fill_esl_with_one_signature data type owner
                           (Some (replicate outlen 0)) outlen p1))"

section \<open>Searching signature lists\<close>

text \<open>\<^verbatim>\<open>certentry_for_each_cert\<close> with the body of \<^verbatim>\<open>find_in_esl\<close>. A zero step would never end.\<close>

function find_in_esl_certs :: "buf \<Rightarrow> buf \<Rightarrow> nat \<Rightarrow> nat \<Rightarrow> nat \<Rightarrow> bool option" where
  "find_in_esl_certs b key c c_end step =
     (if c < c_end then
        (case rdn b (c + 16) (length key) of
           None \<Rightarrow> None
         | Some d \<Rightarrow>
             if d = key then Some True
             else if step = 0 then None
             else find_in_esl_certs b key (c + step) c_end step)
      else Some False)"
  by pat_completeness auto
termination
  by (relation "measure (\<lambda>(b, key, c, c_end, step). c_end - c)") auto

declare find_in_esl_certs.simps [simp del]

text \<open>\<^verbatim>\<open>certlist_for_each_certentry\<close>: the loop reads the list size before it knows that a
  whole header is left, and does not advance on a list of size zero.\<close>

partial_function (option) find_in_esl_lists ::
    "buf \<Rightarrow> buf \<Rightarrow> nat \<Rightarrow> nat \<Rightarrow> efi_status option" where
  "find_in_esl_lists b key cl s =
     (if s = 0 then Some EFI_NOT_FOUND
      else (case esl_ListSize b cl of
        None \<Rightarrow> None
      | Some lsz \<Rightarrow>
          if s < lsz then Some EFI_NOT_FOUND
          else (case esl_SignatureSize b cl of
            None \<Rightarrow> None
          | Some ssz \<Rightarrow>
              if ssz \<noteq> length key + 16 then find_in_esl_lists b key (cl + lsz) (s - lsz)
              else (case esl_HeaderSize b cl of
                None \<Rightarrow> None
              | Some hsz \<Rightarrow>
                  (case find_in_esl_certs b key (cl + 28 + hsz) (cl + lsz) ssz of
                     None \<Rightarrow> None
                   | Some found \<Rightarrow>
                       if found then Some EFI_SUCCESS
                       else find_in_esl_lists b key (cl + lsz) (s - lsz))))))"

declare find_in_esl_lists.simps [code]

definition find_in_esl :: "buf \<Rightarrow> nat \<Rightarrow> buf \<Rightarrow> efi_status option" where
  "find_in_esl b DataSize key = find_in_esl_lists b key 0 DataSize"

section \<open>Reading and writing variables\<close>

text \<open>\<^verbatim>\<open>get_variable_attr\<close>: the result is the status, the buffer that \<^verbatim>\<open>*data\<close> points to, the
  value of \<^verbatim>\<open>*len\<close>, and the attributes if they were written.\<close>

definition get_variable_attr ::
    "'w efi_rt \<Rightarrow> ucs2 \<Rightarrow> bool \<Rightarrow> efi_guid \<Rightarrow> pool \<Rightarrow> 'w
      \<Rightarrow> efi_status \<times> buf option \<times> nat \<times> 32 word option \<times> pool" where
  "get_variable_attr rt var has_data owner p w =
     (case GetVariable rt var owner 0 False w of
        (st, len, _, _) \<Rightarrow>
          if st \<noteq> EFI_BUFFER_TOO_SMALL then
            (if \<not> EFI_ERROR st then EFI_PROTOCOL_ERROR else st, None, len, None, p)
          else if \<not> has_data then (EFI_INVALID_PARAMETER, None, len, None, p)
          else (case AllocatePool p (len + 3) of
                  (ok, p1) \<Rightarrow>
                    if \<not> ok then (EFI_OUT_OF_RESOURCES, None, len, None, p1)
                    else (case GetVariable rt var owner len True w of
                            (st2, len2, attrs, d) \<Rightarrow>
                              if EFI_ERROR st2 then (st2, None, len2, attrs, p1)
                              else (st2, Some (put (replicate (len + 3) 0) 0 d), len2, attrs, p1))))"

definition get_variable ::
    "'w efi_rt \<Rightarrow> ucs2 \<Rightarrow> efi_guid \<Rightarrow> pool \<Rightarrow> 'w \<Rightarrow> efi_status \<times> buf option \<times> nat \<times> pool" where
  "get_variable rt var owner p w =
     (case get_variable_attr rt var True owner p w of (st, d, len, _, p') \<Rightarrow> (st, d, len, p'))"

text \<open>\<^verbatim>\<open>get_variable_size\<close>: the status and the value stored in \<^verbatim>\<open>*lenp\<close>, if any.\<close>

definition get_variable_size ::
    "'w efi_rt \<Rightarrow> ucs2 \<Rightarrow> efi_guid \<Rightarrow> pool \<Rightarrow> 'w \<Rightarrow> efi_status \<times> nat option" where
  "get_variable_size rt var owner p w =
     (case get_variable_attr rt var False owner p w of
        (st, _, len, _, _) \<Rightarrow>
          if EFI_ERROR st then
            (if st = EFI_BUFFER_TOO_SMALL then (EFI_SUCCESS, Some len)
             else if st = EFI_NOT_FOUND then (EFI_SUCCESS, Some 0)
             else (st, None))
          else (st, Some len))"

definition set_variable ::
    "'w efi_rt \<Rightarrow> ucs2 \<Rightarrow> efi_guid \<Rightarrow> 32 word \<Rightarrow> buf \<Rightarrow> 'w \<Rightarrow> (efi_status \<times> 'w) option" where
  "set_variable rt var owner attributes data w = SetVariable rt var owner attributes data w"

definition del_variable ::
    "'w efi_rt \<Rightarrow> ucs2 \<Rightarrow> efi_guid \<Rightarrow> 'w \<Rightarrow> (efi_status \<times> 'w) option" where
  "del_variable rt var owner w = set_variable rt var owner 0 [] w"

definition find_in_variable_esl ::
    "'w efi_rt \<Rightarrow> ucs2 \<Rightarrow> efi_guid \<Rightarrow> buf \<Rightarrow> pool \<Rightarrow> 'w \<Rightarrow> (efi_status \<times> pool) option" where
  "find_in_variable_esl rt var owner key p w =
     (case get_variable rt var owner p w of
        (st, d, len, p1) \<Rightarrow>
          if EFI_ERROR st then Some (st, p1)
          else map_option (\<lambda>r. (r, p1)) (find_in_esl (the d) len key))"

text \<open>A one-byte variable read into a local with a default value.\<close>

definition variable_is_setupmode :: "'w efi_rt \<Rightarrow> nat \<Rightarrow> 'w \<Rightarrow> nat" where
  "variable_is_setupmode rt default_return w =
     (case GetVariable rt (wlit ''SetupMode'') GV_GUID 1 True w of
        (st, _, _, d) \<Rightarrow>
          if EFI_ERROR st then default_return
          else (case d of [] \<Rightarrow> default_return | c # _ \<Rightarrow> unat c))"

definition variable_is_secureboot :: "'w efi_rt \<Rightarrow> 'w \<Rightarrow> nat" where
  "variable_is_secureboot rt w =
     (case GetVariable rt (wlit ''SecureBoot'') GV_GUID 1 True w of
        (st, _, _, d) \<Rightarrow>
          if EFI_ERROR st then 0 else (case d of [] \<Rightarrow> 0 | c # _ \<Rightarrow> unat c))"

text \<open>\<^verbatim>\<open>GetOSIndications\<close> has no defined result when the firmware writes fewer than eight
  bytes.\<close>

definition GetOSIndications :: "'w efi_rt \<Rightarrow> 'w \<Rightarrow> nat option" where
  "GetOSIndications rt w =
     (case GetVariable rt (wlit ''OsIndicationsSupported'') GV_GUID 8 True w of
        (st, _, _, d) \<Rightarrow>
          if EFI_ERROR st then Some 0 else if length d = 8 then Some (le_val d) else None)"

text \<open>\<^verbatim>\<open>SETOSIndicationsAndReboot\<close>: the flag says that \<^verbatim>\<open>ResetSystem\<close> was called.\<close>

definition SETOSIndicationsAndReboot ::
    "'w efi_rt \<Rightarrow> nat \<Rightarrow> 'w \<Rightarrow> (efi_status \<times> bool \<times> 'w) option" where
  "SETOSIndicationsAndReboot rt indications w =
     (case SetVariable rt (wlit ''OsIndications'') GV_GUID
             (EFI_VARIABLE_NON_VOLATILE OR EFI_VARIABLE_RUNTIME_ACCESS OR
              EFI_VARIABLE_BOOTSERVICE_ACCESS) (le_bytes 8 indications) w of
        None \<Rightarrow> None
      | Some (st, w') \<Rightarrow> if EFI_ERROR st then Some (st, False, w') else Some (EFI_SUCCESS, True, w'))"

section \<open>Secure mode (shim.c)\<close>

text \<open>\<^verbatim>\<open>secure_mode\<close>: \<open>insecure\<close> is the global \<^verbatim>\<open>user_insecure_mode\<close>. The countdown on the
  console is output only.\<close>

definition secure_mode :: "'w efi_rt \<Rightarrow> nat \<Rightarrow> 'w \<Rightarrow> bool" where
  "secure_mode rt insecure w =
     (if insecure \<noteq> 0 then False
      else if variable_is_secureboot rt w \<noteq> 1 then False
      else if variable_is_setupmode rt 0 w = 1 then False
      else True)"

section \<open>Authenticated variables\<close>

text \<open>\<^verbatim>\<open>CreateTimeBasedPayload\<close> puts a 40-byte \<^verbatim>\<open>EFI_VARIABLE_AUTHENTICATION_2\<close> before the
  payload: the time with its five fields cleared (\<^verbatim>\<open>Pad1\<close> at 7, \<^verbatim>\<open>Nanosecond\<close> at 8,
  \<^verbatim>\<open>TimeZone\<close> at 12, \<^verbatim>\<open>Daylight\<close> at 14, \<^verbatim>\<open>Pad2\<close> at 15), then a certificate header of 24 bytes.\<close>

definition CreateTimeBasedPayload ::
    "'w efi_rt \<Rightarrow> buf \<Rightarrow> pool \<Rightarrow> 'w \<Rightarrow> efi_status \<times> buf option \<times> pool" where
  "CreateTimeBasedPayload rt Payload p w =
     (case AllocatePool p (40 + length Payload) of
        (ok, p1) \<Rightarrow>
          if \<not> ok then (EFI_OUT_OF_RESOURCES, None, p1)
          else (case GetTime rt w of
                  (st, t) \<Rightarrow>
                    if EFI_ERROR st then (st, None, p1)
                    else (EFI_SUCCESS,
                          Some (take 7 t @ replicate 9 0 @
                                le_bytes 4 24 @ le_bytes 2 0x0200 @ le_bytes 2 0x0EF1 @
                                guid_bytes EFI_CERT_TYPE_PKCS7_GUID @ Payload), p1)))"

definition SetSecureVariable ::
    "'w efi_rt \<Rightarrow> ucs2 \<Rightarrow> buf \<Rightarrow> efi_guid \<Rightarrow> 32 word \<Rightarrow> bool \<Rightarrow> pool \<Rightarrow> 'w
      \<Rightarrow> (efi_status \<times> 'w \<times> pool) option" where
  "SetSecureVariable rt var Data owner options createtimebased p w =
     (if variable_is_setupmode rt 1 w = 0 then Some (EFI_SECURITY_VIOLATION, w, p)
      else case (if createtimebased then
                   variable_create_esl_with_one_signature Data X509_GUID None p
                 else Some (EFI_SUCCESS, Some Data, length Data, p)) of
        None \<Rightarrow> None
      | Some (st, Cert, _, p1) \<Rightarrow>
          if EFI_ERROR st then Some (st, w, p1)
          else (case CreateTimeBasedPayload rt (the Cert) p1 w of
                  (st2, pay, p2) \<Rightarrow>
                    if EFI_ERROR st2 then Some (st2, w, p2)
                    else map_option (\<lambda>(st3, w'). (st3, w', p2))
                           (SetVariable rt var owner
                              (EFI_VARIABLE_NON_VOLATILE OR EFI_VARIABLE_RUNTIME_ACCESS OR
                               EFI_VARIABLE_BOOTSERVICE_ACCESS OR
                               EFI_VARIABLE_TIME_BASED_AUTHENTICATED_WRITE_ACCESS OR options)
                              (the pay) w)))"

text \<open>The 76-byte signature list of \<^verbatim>\<open>variable_enroll_hash\<close> is on the stack. \<^verbatim>\<open>SetMem\<close> takes the
  size before the value, so \<^verbatim>\<open>SetMem(sig, 0, sizeof(sig))\<close> clears no byte: \<open>junk\<close> is what
  the stack held, and \<^verbatim>\<open>SignatureHeaderSize\<close> keeps it.\<close>

definition enroll_sig :: "buf \<Rightarrow> buf \<Rightarrow> buf" where
  "enroll_sig junk hash =
     guid_bytes EFI_CERT_SHA256_GUID @ le_bytes 4 76 @ take 4 (drop 20 junk) @ le_bytes 4 48 @
     guid_bytes SHIM_LOCK_GUID @ hash"

definition variable_enroll_hash ::
    "'w efi_rt \<Rightarrow> ucs2 \<Rightarrow> efi_guid \<Rightarrow> buf \<Rightarrow> buf \<Rightarrow> pool \<Rightarrow> 'w \<Rightarrow> (efi_status \<times> 'w \<times> pool) option" where
  "variable_enroll_hash rt var owner hash junk p w =
     (case find_in_variable_esl rt var owner hash p w of
        None \<Rightarrow> None
      | Some (st, p1) \<Rightarrow>
          if \<not> EFI_ERROR st then Some (EFI_ALREADY_STARTED, w, p1)
          else if owner = SIG_DB then
            SetSecureVariable rt var (enroll_sig junk hash) owner EFI_VARIABLE_APPEND_WRITE False p1 w
          else map_option (\<lambda>(st2, w'). (st2, w', p1))
                 (SetVariable rt var owner
                    (EFI_VARIABLE_NON_VOLATILE OR EFI_VARIABLE_BOOTSERVICE_ACCESS OR
                     EFI_VARIABLE_APPEND_WRITE) (enroll_sig junk hash) w))"

section \<open>Searching agrees with the encoding\<close>

text \<open>Whether a signature list holds a key of the length that is searched for.\<close>

definition esl_has :: "buf \<Rightarrow> esl list \<Rightarrow> bool" where
  "esl_has key ls \<longleftrightarrow>
     list_ex (\<lambda>l. esl_sigsize l = length key + 16 \<and> list_ex (\<lambda>s. snd s = key) (esl_sigs l)) ls"

lemma find_certs_encode:
  assumes wf: "esl_wf l" and x: "length x = cl" and key: "esl_sigsize l = length key + 16"
    and k: "k \<le> length (esl_sigs l)"
  shows "find_in_esl_certs (x @ esl_encode l @ z) key
      (cl + 28 + length (esl_header l) + k * esl_sigsize l) (cl + esl_listsize l) (esl_sigsize l) =
    Some (list_ex (\<lambda>s. snd s = key) (drop k (esl_sigs l)))"
  using k
proof (induction "length (esl_sigs l) - k" arbitrary: k)
  case 0
  then have "k = length (esl_sigs l)" by simp
  then show ?case by (subst find_in_esl_certs.simps) (simp add: esl_listsize_def)
next
  case (Suc m)
  then have k: "k < length (esl_sigs l)" by simp
  then have "k * esl_sigsize l < length (esl_sigs l) * esl_sigsize l" using key by simp
  then have lt: "cl + 28 + length (esl_header l) + k * esl_sigsize l < cl + esl_listsize l"
    by (simp add: esl_listsize_def)
  have rd: "rdn (x @ esl_encode l @ z)
      (cl + 28 + length (esl_header l) + k * esl_sigsize l + 16) (length key) =
      Some (snd (esl_sigs l ! k))"
    using esl_sig_data(1) [OF wf x k refl, of z] key by simp
  have nxt: "cl + 28 + length (esl_header l) + k * esl_sigsize l + esl_sigsize l =
      cl + 28 + length (esl_header l) + Suc k * esl_sigsize l" by simp
  have dr: "drop k (esl_sigs l) = esl_sigs l ! k # drop (Suc k) (esl_sigs l)"
    using k by (simp add: Cons_nth_drop_Suc)
  have IH: "find_in_esl_certs (x @ esl_encode l @ z) key
      (cl + 28 + length (esl_header l) + Suc k * esl_sigsize l) (cl + esl_listsize l) (esl_sigsize l) =
    Some (list_ex (\<lambda>s. snd s = key) (drop (Suc k) (esl_sigs l)))"
    using Suc by (intro Suc.hyps) auto
  show ?case
    by (subst find_in_esl_certs.simps) (use lt rd nxt IH key in \<open>simp add: dr add_ac\<close>)
qed

lemma find_lists_encode:
  assumes "list_all esl_wf ls" and "length x = cl"
  shows "find_in_esl_lists (x @ esls_encode ls @ z) key cl (length (esls_encode ls)) =
    Some (if esl_has key ls then EFI_SUCCESS else EFI_NOT_FOUND)"
  using assms
proof (induction ls arbitrary: x cl)
  case Nil
  then show ?case
    by (subst find_in_esl_lists.simps) (simp add: esls_encode_def esl_has_def)
next
  case (Cons l ls)
  have wf: "esl_wf l" and x: "length x = cl" using Cons.prems by auto
  let ?b = "x @ esls_encode (l # ls) @ z"
  have b: "?b = x @ esl_encode l @ (esls_encode ls @ z)" by (simp add: esls_encode_def)
  note f = esl_fields [OF wf x, of "esls_encode ls @ z", folded b]
  have len: "length (esls_encode (l # ls)) = esl_listsize l + length (esls_encode ls)"
    using wf by (simp add: esls_encode_def length_esl_encode)
  have pos: "0 < esl_listsize l" by (simp add: esl_listsize_def)
  have b2: "?b = (x @ esl_encode l) @ esls_encode ls @ z" by (simp add: esls_encode_def)
  have IH: "find_in_esl_lists ?b key (cl + esl_listsize l) (length (esls_encode ls)) =
      Some (if esl_has key ls then EFI_SUCCESS else EFI_NOT_FOUND)"
    unfolding b2 using Cons.prems wf by (intro Cons.IH) (auto simp: length_esl_encode)
  have certs: "find_in_esl_certs ?b key (cl + 28 + length (esl_header l)) (cl + esl_listsize l)
      (esl_sigsize l) = Some (list_ex (\<lambda>s. snd s = key) (esl_sigs l))"
    if "esl_sigsize l = length key + 16"
    using find_certs_encode [OF wf x that, of 0 "esls_encode ls @ z"] by (simp add: b)
  show ?case
    using certs IH pos
    by (subst find_in_esl_lists.simps) (auto simp: f len esl_has_def)
qed

text \<open>C19. \<^verbatim>\<open>find_in_esl\<close> decides membership: on a buffer that starts with well-formed signature
  lists, it succeeds exactly when some list whose signatures have the key's length holds
  the key, and otherwise returns not found. It stays inside the buffer.\<close>

theorem find_in_esl_exact:
  assumes "list_all esl_wf ls"
  shows "find_in_esl (esls_encode ls @ z) (length (esls_encode ls)) key =
    Some (if esl_has key ls then EFI_SUCCESS else EFI_NOT_FOUND)"
  using find_lists_encode [OF assms, of "[]" 0 z key] by (simp add: find_in_esl_def)

text \<open>A concrete list: one signature of four bytes.\<close>

definition sample_esl :: esl where
  "sample_esl = \<lparr>esl_type = EFI_CERT_SHA256_GUID, esl_header = [], esl_sigsize = 20,
     esl_sigs = [(replicate 16 7, [1, 2, 3, 4])]\<rparr>"

lemma find_in_esl_exact_witness:
  "find_in_esl (esls_encode [sample_esl] @ [0, 0, 0]) (length (esls_encode [sample_esl])) [1, 2, 3, 4] =
    Some (if esl_has [1, 2, 3, 4] [sample_esl] then EFI_SUCCESS else EFI_NOT_FOUND)"
  by (rule find_in_esl_exact) (simp add: sample_esl_def esl_wf_def esl_listsize_def)

text \<open>A signature list whose \<^verbatim>\<open>SignatureListSize\<close> is zero and whose signatures have another
  size than the key's stops the search: \<^verbatim>\<open>find_in_esl\<close> does not return.\<close>

definition zero_list_at :: "buf \<Rightarrow> buf \<Rightarrow> nat \<Rightarrow> nat \<Rightarrow> bool" where
  "zero_list_at b key cl s \<longleftrightarrow> esl_ListSize b cl = Some 0 \<and> 0 < s \<and>
     (\<exists>ssz. esl_SignatureSize b cl = Some ssz \<and> ssz \<noteq> length key + 16)"

lemma find_lists_not_stuck:
  assumes "find_in_esl_lists b key cl s = Some r"
  shows "\<not> zero_list_at b key cl s"
proof (rule find_in_esl_lists.raw_induct [OF _ assms, where P = "\<lambda>b key cl s r. \<not> zero_list_at b key cl s"])
  fix f b key cl s r
  assume IH: "\<And>b key cl s r. f b key cl s = Some r \<Longrightarrow> \<not> zero_list_at b key cl s"
    and eq: "(if s = 0 then Some EFI_NOT_FOUND
      else (case esl_ListSize b cl of
        None \<Rightarrow> None
      | Some lsz \<Rightarrow>
          if s < lsz then Some EFI_NOT_FOUND
          else (case esl_SignatureSize b cl of
            None \<Rightarrow> None
          | Some ssz \<Rightarrow>
              if ssz \<noteq> length key + 16 then f b key (cl + lsz) (s - lsz)
              else (case esl_HeaderSize b cl of
                None \<Rightarrow> None
              | Some hsz \<Rightarrow>
                  (case find_in_esl_certs b key (cl + 28 + hsz) (cl + lsz) ssz of
                     None \<Rightarrow> None
                   | Some found \<Rightarrow>
                       if found then Some EFI_SUCCESS
                       else f b key (cl + lsz) (s - lsz)))))) = Some r"
  show "\<not> zero_list_at b key cl s"
  proof
    assume z: "zero_list_at b key cl s"
    then have "f b key cl s = Some r" using eq by (auto simp: zero_list_at_def)
    from IH [OF this] z show False by blast
  qed
qed

lemma find_in_esl_stuck: "find_in_esl (replicate 31 0) 28 [1, 2, 3, 4] = None"
proof -
  have "esl_ListSize (replicate 31 0) 0 = Some 0" "esl_SignatureSize (replicate 31 0) 0 = Some 0"
    by code_simp+
  then show ?thesis
    using find_lists_not_stuck [of "replicate 31 0" "[1, 2, 3, 4]" 0 28]
    by (cases "find_in_esl (replicate 31 0) 28 [1, 2, 3, 4]")
      (auto simp: find_in_esl_def zero_list_at_def)
qed

section \<open>Building agrees with the encoding\<close>

lemma fill_esl_fits: "n + 44 < (2 ^ 32 :: nat) \<Longrightarrow> \<not> 1 > (2 ^ 32 - 1 - 28) div (16 + n)"
  using div_greater_zero_iff [of "2 ^ 32 - 1 - 28" "16 + n"] by simp

lemma fill_esl_encode:
  assumes "length data + 44 < 2 ^ 32" and "length ow = 16" and "length ob = 44 + length data"
  shows "fill_esl (Some (ow @ data)) 1 type (16 + length data) (Some ob) (44 + length data) =
    Some (EFI_SUCCESS, Some (esl_encode \<lparr>esl_type = type, esl_header = [],
      esl_sigsize = 16 + length data, esl_sigs = [(ow, data)]\<rparr>), 44 + length data)"
  using assms fill_esl_fits [OF assms(1)]
  by (simp add: fill_esl_def mem_simps put_all esl_encode_def esl_listsize_def sig_bytes_def Let_def)

lemma fill_esl_size:
  assumes "length data + 44 < 2 ^ 32"
  shows "fill_esl None 1 type (16 + length data) None n =
    Some (EFI_BUFFER_TOO_SMALL, None, 44 + length data)"
  using assms fill_esl_fits [OF assms] by (simp add: fill_esl_def Let_def)

text \<open>The owner bytes of a new signature.\<close>

definition owner_bytes :: "efi_guid option \<Rightarrow> buf" where
  "owner_bytes owner = (case owner of None \<Rightarrow> replicate 16 0 | Some g \<Rightarrow> guid_bytes g)"

definition one_sig_esl :: "efi_guid \<Rightarrow> efi_guid option \<Rightarrow> buf \<Rightarrow> esl" where
  "one_sig_esl type owner data = \<lparr>esl_type = type, esl_header = [], esl_sigsize = 16 + length data,
     esl_sigs = [(owner_bytes owner, data)]\<rparr>"

lemma length_owner_bytes [simp]: "length (owner_bytes owner) = 16"
  by (simp add: owner_bytes_def split: option.splits)

lemma one_sig_esl_wf: "length data + 44 < 2 ^ 32 \<Longrightarrow> esl_wf (one_sig_esl type owner data)"
  by (simp add: one_sig_esl_def esl_wf_def esl_listsize_def)

lemma create_one_signature:
  assumes "length data + 44 < 2 ^ 32" and "pool_ok p"
  shows "\<exists>p'. variable_create_esl_with_one_signature data type owner p =
      Some (EFI_SUCCESS, Some (esl_encode (one_sig_esl type owner data)), 44 + length data, p') \<and>
    pool_ok p'"
proof -
  have "fill_esl_with_one_signature data type owner None 0 p =
      Some (EFI_BUFFER_TOO_SMALL, None, 44 + length data, p)"
    using assms(1) fill_esl_size [OF assms(1), of type 0]
    by (simp add: fill_esl_with_one_signature_def Let_def)
  moreover have "\<exists>p'. fill_esl_with_one_signature data type owner
        (Some (replicate (44 + length data) 0)) (44 + length data) (\<lambda>k. p (Suc k)) =
      Some (EFI_SUCCESS, Some (esl_encode (one_sig_esl type owner data)), 44 + length data, p') \<and>
      pool_ok p'"
    using assms pool_ok_Suc [OF pool_ok_Suc [OF assms(2)]]
      fill_esl_encode [OF assms(1) length_owner_bytes, of "replicate (44 + length data) 0" owner type]
    by (simp add: fill_esl_with_one_signature_def Let_def AllocatePool_ok pool_ok_Suc
        one_sig_esl_def owner_bytes_def [symmetric])
  ultimately show ?thesis
    using assms(2) by (simp add: variable_create_esl_with_one_signature_def AllocatePool_ok)
qed

text \<open>C20. Building and searching agree: when the allocations succeed,
  \<^verbatim>\<open>variable_create_esl_with_one_signature\<close> returns a well-formed signature list of one
  signature with the given type, owner and data, and \<^verbatim>\<open>find_in_esl\<close> finds in it exactly the
  keys equal to the data.\<close>

theorem create_esl_roundtrip:
  assumes "length data + 44 < 2 ^ 32" and "pool_ok p"
  shows "\<exists>out outlen p'. variable_create_esl_with_one_signature data type owner p =
      Some (EFI_SUCCESS, Some out, outlen, p') \<and> outlen = length out \<and>
    out = esls_encode [one_sig_esl type owner data] \<and> esl_wf (one_sig_esl type owner data) \<and>
    (\<forall>key. find_in_esl out outlen key = Some (if key = data then EFI_SUCCESS else EFI_NOT_FOUND))"
proof -
  let ?l = "one_sig_esl type owner data"
  have wf: "esl_wf ?l" by (rule one_sig_esl_wf [OF assms(1)])
  have e: "esls_encode [?l] = esl_encode ?l" by (simp add: esls_encode_def)
  have len: "length (esl_encode ?l) = 44 + length data"
    using length_esl_encode [OF wf] by (simp add: one_sig_esl_def esl_listsize_def)
  have f: "find_in_esl (esl_encode ?l) (44 + length data) key =
      Some (if key = data then EFI_SUCCESS else EFI_NOT_FOUND)" for key
    using find_lists_encode [of "[?l]" "[]" 0 "[]" key] wf len e
    by (auto simp: find_in_esl_def esl_has_def one_sig_esl_def)
  show ?thesis using create_one_signature [OF assms, of type owner] wf e len f by auto
qed

lemma create_esl_roundtrip_witness:
  "\<exists>out outlen p'. variable_create_esl_with_one_signature [1, 2, 3] X509_GUID None (\<lambda>_ _. True) =
      Some (EFI_SUCCESS, Some out, outlen, p') \<and> outlen = length out \<and>
    out = esls_encode [one_sig_esl X509_GUID None [1, 2, 3]] \<and>
    esl_wf (one_sig_esl X509_GUID None [1, 2, 3]) \<and>
    (\<forall>key. find_in_esl out outlen key =
      Some (if key = [1, 2, 3] then EFI_SUCCESS else EFI_NOT_FOUND))"
  by (rule create_esl_roundtrip) (simp_all add: pool_ok_def)

section \<open>The wrappers against the contract of the services\<close>

text \<open>The signature list that \<^verbatim>\<open>variable_enroll_hash\<close> means to write.\<close>

definition hash_esl :: "buf \<Rightarrow> esl" where
  "hash_esl hash = one_sig_esl EFI_CERT_SHA256_GUID (Some SHIM_LOCK_GUID) hash"

lemma le_bytes_4_0: "le_bytes 4 0 = [0, 0, 0, 0]"
  by code_simp

lemma enroll_sig_encode:
  assumes "length hash = 32" and "take 4 (drop 20 junk) = [0, 0, 0, 0]"
  shows "enroll_sig junk hash = esl_encode (hash_esl hash)" and "esl_wf (hash_esl hash)"
  using assms
  by (simp_all add: enroll_sig_def hash_esl_def one_sig_esl_def esl_encode_def esl_listsize_def
      sig_bytes_def owner_bytes_def esl_wf_def le_bytes_4_0)

lemma esl_has_append: "esl_has key (xs @ ys) \<longleftrightarrow> esl_has key xs \<or> esl_has key ys"
  by (auto simp: esl_has_def)

lemma esls_encode_append: "esls_encode (xs @ [l]) = esls_encode xs @ esl_encode l"
  by (simp add: esls_encode_def)

context variable_services
begin

lemma get_variable_attr_none:
  "inv w \<Longrightarrow> vars w (n, g) = None \<Longrightarrow>
    get_variable_attr rt n has g p w = (EFI_NOT_FOUND, None, 0, None, p)"
  by (simp add: get_variable_attr_def get_none)

lemma get_variable_attr_some:
  assumes "inv w" and v: "vars w (n, g) = Some (a, d)" and "AllocatePool p (length d + 3) = (ok, p1)"
  shows "get_variable_attr rt n True g p w =
    (if ok then (EFI_SUCCESS, Some (d @ [0, 0, 0]), length d, Some a, p1)
     else (EFI_OUT_OF_RESOURCES, None, length d, None, p1))"
proof -
  have "0 < length d" using var_nonempty [OF assms(1) v] by simp
  moreover have "put (replicate (length d + 3) 0) 0 d = d @ [0, 0, 0]"
    unfolding put_def by (subst drop_replicate) (simp add: numeral_3_eq_3)
  ultimately show ?thesis
    using assms(3) get_small [OF assms(1) v, of 0 False] get_data [OF assms(1) v, of "length d"]
    by (simp add: get_variable_attr_def)
qed

lemma get_variable_some:
  assumes "inv w" and "vars w (n, g) = Some (a, d)" and "pool_ok p"
  shows "get_variable rt n g p w = (EFI_SUCCESS, Some (d @ [0, 0, 0]), length d, \<lambda>k. p (Suc k))"
  using get_variable_attr_some [OF assms(1,2) AllocatePool_ok [OF assms(3)]]
  by (simp add: get_variable_def)

lemma get_variable_none:
  "inv w \<Longrightarrow> vars w (n, g) = None \<Longrightarrow> get_variable rt n g p w = (EFI_NOT_FOUND, None, 0, p)"
  by (simp add: get_variable_def get_variable_attr_none)

text \<open>\<^verbatim>\<open>get_variable_size\<close> works for missing variables only.\<close>

lemma get_variable_size_some:
  assumes "inv w" and v: "vars w (n, g) = Some (a, d)"
  shows "get_variable_size rt n g p w = (EFI_INVALID_PARAMETER, None)"
proof -
  have "0 < length d" using var_nonempty [OF assms(1) v] by simp
  then show ?thesis
    using get_small [OF assms(1) v, of 0 False]
    by (simp add: get_variable_size_def get_variable_attr_def)
qed

lemma get_variable_size_none:
  "inv w \<Longrightarrow> vars w (n, g) = None \<Longrightarrow> get_variable_size rt n g p w = (EFI_SUCCESS, Some 0)"
  by (simp add: get_variable_size_def get_variable_attr_none)

lemma set_then_get:
  assumes "inv w" and "set_variable rt n g at d w = Some (EFI_SUCCESS, w')"
    and "at AND EFI_VARIABLE_APPEND_WRITE = 0" and "d \<noteq> []" and "pool_ok p"
  shows "get_variable rt n g p w' = (EFI_SUCCESS, Some (d @ [0, 0, 0]), length d, \<lambda>k. p (Suc k))"
proof -
  note s = assms(2) [unfolded set_variable_def]
  obtain a where "vars w' (n, g) = Some (a, d)"
    using set_lookup(1) [OF assms(1) s _ assms(3,4)] by auto
  then show ?thesis by (rule get_variable_some [OF set_inv [OF assms(1) s] _ assms(5)])
qed

lemma del_then_get:
  assumes "inv w" and "del_variable rt n g w = Some (EFI_SUCCESS, w')"
  shows "get_variable rt n g p w' = (EFI_NOT_FOUND, None, 0, p)"
proof -
  note s = assms(2) [unfolded del_variable_def set_variable_def]
  have "vars w' (n, g) = None" using delete_lookup [OF assms(1) s] by simp
  then show ?thesis by (rule get_variable_none [OF set_inv [OF assms(1) s]])
qed

lemma find_in_variable_esl_exact:
  assumes "inv w" and "vars w (n, g) = Some (a, esls_encode ls)" and "pool_ok p"
    and "list_all esl_wf ls"
  shows "find_in_variable_esl rt n g key p w =
    Some (if esl_has key ls then EFI_SUCCESS else EFI_NOT_FOUND, \<lambda>k. p (Suc k))"
  using get_variable_some [OF assms(1-3)] find_lists_encode [OF assms(4), of "[]" 0 "[0, 0, 0]" key]
  by (simp add: find_in_variable_esl_def find_in_esl_def)

text \<open>Enrolling a hash in a variable other than the firmware databases, when the stack
  happens to hold zeros where \<^verbatim>\<open>SignatureHeaderSize\<close> is: a hash that was not there is there
  afterwards, with everything that was there before.\<close>

lemma enroll_hash_adds:
  assumes "inv w" and "vars w (n, g) = Some (a, esls_encode ls)" and "pool_ok p"
    and "list_all esl_wf ls" and "\<not> esl_has hash ls" and "length hash = 32"
    and "take 4 (drop 20 junk) = [0, 0, 0, 0]" and "g \<noteq> SIG_DB"
    and "variable_enroll_hash rt n g hash junk p w = Some (EFI_SUCCESS, w', p')"
  shows "vars w' (n, g) = Some (a, esls_encode (ls @ [hash_esl hash]))"
    and "list_all esl_wf (ls @ [hash_esl hash]) \<and> esl_has hash (ls @ [hash_esl hash])"
proof -
  note e = enroll_sig_encode [OF assms(6,7)]
  have "SetVariable rt n g (EFI_VARIABLE_NON_VOLATILE OR EFI_VARIABLE_BOOTSERVICE_ACCESS OR
      EFI_VARIABLE_APPEND_WRITE) (enroll_sig junk hash) w = Some (EFI_SUCCESS, w')"
    using assms(5,8,9) find_in_variable_esl_exact [OF assms(1-4), of hash]
    by (auto simp: variable_enroll_hash_def)
  from set_ok [OF assms(1) this] assms(2) e(1)
  show "vars w' (n, g) = Some (a, esls_encode (ls @ [hash_esl hash]))"
    by (simp add: var_update_def attr_defs esls_encode_append)
  show "list_all esl_wf (ls @ [hash_esl hash]) \<and> esl_has hash (ls @ [hash_esl hash])"
    using assms(4,6) e(2) by (auto simp: esl_has_def hash_esl_def one_sig_esl_def)
qed

lemma enroll_hash_twice:
  assumes "inv w" and "vars w (n, g) = Some (a, esls_encode ls)" and "pool_ok p"
    and "list_all esl_wf ls" and "esl_has hash ls"
  shows "variable_enroll_hash rt n g hash junk p w = Some (EFI_ALREADY_STARTED, w, \<lambda>k. p (Suc k))"
  using find_in_variable_esl_exact [OF assms(1-4), of hash] assms(5)
  by (simp add: variable_enroll_hash_def)

text \<open>The firmware databases are not touched outside setup mode.\<close>

lemma secure_variable_setup_mode:
  assumes "inv w" and "vars w (wlit ''SetupMode'', GV_GUID) = Some (a, [0])"
  shows "SetSecureVariable rt n d g opts ctb p w = Some (EFI_SECURITY_VIOLATION, w, p)"
  using get_data [OF assms, of 1] by (simp add: SetSecureVariable_def variable_is_setupmode_def)

end

end
