(* ===== verification/Sbat.thy ===== *)
theory Sbat
  imports Csv Cstring Variables
begin

text \<open>
  Secure Boot Advanced Targeting: \<^verbatim>\<open>sbat.c\<close>, and \<^verbatim>\<open>verify_sbat_section\<close> of \<^verbatim>\<open>pe.c\<close>.
  The parsers copy the columns of a CSV text into a string table; an entry holds pointers
  into the table. The lists of entries are lists, and a list of entries comes with its
  table.

  The lemmas show that the string table never overflows, that an image is rejected exactly
  when one of its components has a lower generation than the revocation level, and what the
  update of the \<^verbatim>\<open>SbatLevel\<close> variable does.
\<close>

section \<open>Numbers (Cryptlib/SysCall/BaseStrings.c)\<close>

function skip_while :: "(byte \<Rightarrow> bool) \<Rightarrow> buf \<Rightarrow> nat \<Rightarrow> nat option" where
  "skip_while P b i =
     (case rd b i of
        None \<Rightarrow> None
      | Some c \<Rightarrow> if P c then skip_while P b (i + 1) else Some i)"
  by pat_completeness auto
termination
  by (relation "measure (\<lambda>(P, b, i). length b - i)") (auto simp: rd_Some_iff)

definition is_digit :: "byte \<Rightarrow> bool" where
  "is_digit c \<longleftrightarrow> 0x30 \<le> c \<and> c \<le> 0x39"

function atoi_digits :: "buf \<Rightarrow> nat \<Rightarrow> nat \<Rightarrow> nat option" where
  "atoi_digits b i result =
     (case rd b i of
        None \<Rightarrow> None
      | Some c \<Rightarrow>
          if is_digit c then atoi_digits b (i + 1) ((result * 10 + unat (c - 0x30)) mod 2 ^ 64)
          else Some result)"
  by pat_completeness auto
termination
  by (relation "measure (\<lambda>(b, i, r). length b - i)") (auto simp: rd_Some_iff)

declare skip_while.simps [simp del] atoi_digits.simps [simp del]

text \<open>\<^verbatim>\<open>atoi\<close> is \<^verbatim>\<open>AsciiStrDecimalToUintn\<close>.\<close>

definition atoi :: "buf \<Rightarrow> nat \<Rightarrow> nat option" where
  "atoi b str =
     (case skip_while (\<lambda>c. c = 0x20 \<or> c = 0x09) b str of
        None \<Rightarrow> None
      | Some i \<Rightarrow>
          (case skip_while (\<lambda>c. c = 0x30) b i of
             None \<Rightarrow> None
           | Some j \<Rightarrow> atoi_digits b j 0))"

section \<open>Parsing\<close>

text \<open>The entries of an image's section and of the revocation list: pointers into the string
  table. The datestamp of a revocation entry may be NULL.\<close>

record sbat_section_entry =
  component_name :: nat
  component_generation :: nat
  vendor_name :: nat
  vendor_package_name :: nat
  vendor_version :: nat
  vendor_url :: nat

record sbat_var_entry =
  var_component_name :: nat
  var_component_generation :: nat
  sbat_datestamp :: "nat option"

definition SBAT_SECTION_COLUMNS :: nat where "SBAT_SECTION_COLUMNS = 6"
definition SBAT_VAR_COLUMNS :: nat where "SBAT_VAR_COLUMNS = 3"
definition SBAT_VAR_REQUIRED_COLUMNS :: nat where "SBAT_VAR_REQUIRED_COLUMNS = 2"

text \<open>The first pass over the rows: \<open>None\<close> is an access outside the buffer or through NULL,
  \<open>Some None\<close> the error exit, and otherwise the result is the number of rows and the size to
  allocate (a pointer, an entry of \<open>entsz\<close> bytes and the strings of each row).\<close>

fun sbat_cols_size :: "buf \<Rightarrow> nat option list \<Rightarrow> nat \<Rightarrow> nat option option" where
  "sbat_cols_size b [] allocsz = Some (Some allocsz)"
| "sbat_cols_size b (c # cs) allocsz =
     (case c of
        None \<Rightarrow> None
      | Some q \<Rightarrow>
          (case rd b q of
             None \<Rightarrow> None
           | Some x \<Rightarrow>
               if x = 0 then Some None
               else (case strlen b q of
                       None \<Rightarrow> None
                     | Some l \<Rightarrow> sbat_cols_size b cs (allocsz + (l + 1)))))"

fun sbat_rows_size :: "nat \<Rightarrow> nat \<Rightarrow> buf \<Rightarrow> csv_row list \<Rightarrow> nat \<Rightarrow> nat \<Rightarrow> (nat \<times> nat) option option" where
  "sbat_rows_size required entsz b [] n allocsz = Some (Some (n, allocsz))"
| "sbat_rows_size required entsz b (row # rows) n allocsz =
     (if n_columns row < required then Some None
      else (case sbat_cols_size b (take (n_columns row) (columns row)) (allocsz + 8 + entsz) of
              None \<Rightarrow> None
            | Some None \<Rightarrow> Some None
            | Some (Some sz) \<Rightarrow> sbat_rows_size required entsz b rows (n + 1) sz))"

text \<open>The second pass copies the strings; the result is the table, the cursor and, for each
  row, the pointers to its strings.\<close>

fun sbat_copy_cols :: "buf \<Rightarrow> nat option list \<Rightarrow> buf \<Rightarrow> nat \<Rightarrow> (buf \<times> nat \<times> nat list) option" where
  "sbat_copy_cols b [] strtab cur = Some (strtab, cur, [])"
| "sbat_copy_cols b (c # cs) strtab cur =
     (case c of
        None \<Rightarrow> None
      | Some q \<Rightarrow>
          (case stpcpy strtab cur b q of
             None \<Rightarrow> None
           | Some (strtab1, e) \<Rightarrow>
               (case sbat_copy_cols b cs strtab1 (e + 1) of
                  None \<Rightarrow> None
                | Some (strtab2, cur2, ps) \<Rightarrow> Some (strtab2, cur2, cur # ps))))"

fun sbat_copy_rows :: "buf \<Rightarrow> csv_row list \<Rightarrow> buf \<Rightarrow> nat \<Rightarrow> (buf \<times> nat list list) option" where
  "sbat_copy_rows b [] strtab cur = Some (strtab, [])"
| "sbat_copy_rows b (row # rows) strtab cur =
     (case sbat_copy_cols b (take (n_columns row) (columns row)) strtab cur of
        None \<Rightarrow> None
      | Some (strtab1, cur1, ps) \<Rightarrow>
          (case sbat_copy_rows b rows strtab1 cur1 of
             None \<Rightarrow> None
           | Some (strtab2, pss) \<Rightarrow> Some (strtab2, ps # pss)))"

text \<open>The assignments through the \<^verbatim>\<open>ptrs\<close> arrays; a row with more strings than the array has
  entries would write outside it.\<close>

fun mk_section_entry :: "nat list \<Rightarrow> sbat_section_entry option" where
  "mk_section_entry [a, b, c, d, e, f] =
     Some \<lparr>component_name = a, component_generation = b, vendor_name = c,
       vendor_package_name = d, vendor_version = e, vendor_url = f\<rparr>"
| "mk_section_entry _ = None"

fun mk_var_entry :: "nat list \<Rightarrow> sbat_var_entry option" where
  "mk_var_entry [a, b] =
     Some \<lparr>var_component_name = a, var_component_generation = b, sbat_datestamp = None\<rparr>"
| "mk_var_entry [a, b, c] =
     Some \<lparr>var_component_name = a, var_component_generation = b, sbat_datestamp = Some c\<rparr>"
| "mk_var_entry _ = None"

fun map_entries :: "(nat list \<Rightarrow> 'e option) \<Rightarrow> nat list list \<Rightarrow> 'e list option" where
  "map_entries f [] = Some []"
| "map_entries f (ps # pss) =
     (case f ps of
        None \<Rightarrow> None
      | Some e \<Rightarrow> (case map_entries f pss of None \<Rightarrow> None | Some es \<Rightarrow> Some (e # es)))"

text \<open>\<^verbatim>\<open>parse_sbat_section\<close>: the result is the status, the buffer, and the table and entries
  stored in \<^verbatim>\<open>*entriesp\<close> and \<^verbatim>\<open>*n_entries\<close> when they are stored. \<^verbatim>\<open>sizeof\<close> of an entry is 48.\<close>

definition parse_sbat_section ::
    "buf \<Rightarrow> nat option \<Rightarrow> nat \<Rightarrow> pool
      \<Rightarrow> (efi_status \<times> buf \<times> (buf \<times> sbat_section_entry list) option \<times> pool) option" where
  "parse_sbat_section b section_base section_size p =
     (case section_base of
        None \<Rightarrow> Some (EFI_INVALID_PARAMETER, b, None, p)
      | Some base \<Rightarrow>
          if section_size = 0 then Some (EFI_INVALID_PARAMETER, b, None, p)
          else (case parse_csv_data b (Some base) (Some (base + section_size - 1))
                       SBAT_SECTION_COLUMNS (Some []) p of
            None \<Rightarrow> None
          | Some (st, b1, rows, p1) \<Rightarrow>
              if EFI_ERROR st then Some (st, b1, None, p1)
              else (case sbat_rows_size SBAT_SECTION_COLUMNS 48 b1 (the rows) 0 0 of
                None \<Rightarrow> None
              | Some None \<Rightarrow> Some (EFI_INVALID_PARAMETER, b1, None, p1)
              | Some (Some (n, allocsz)) \<Rightarrow>
                  if n = 0 then Some (EFI_SUCCESS, b1, Some ([], []), p1)
                  else (case AllocatePool p1 allocsz of
                    (ok, p2) \<Rightarrow>
                      if \<not> ok then Some (EFI_OUT_OF_RESOURCES, b1, None, p2)
                      else (case sbat_copy_rows b1 (the rows) (replicate allocsz 0) (8 * n + 48 * n) of
                        None \<Rightarrow> None
                      | Some (strtab, pss) \<Rightarrow>
                          (case map_entries mk_section_entry pss of
                             None \<Rightarrow> None
                           | Some es \<Rightarrow> Some (EFI_SUCCESS, b1, Some (strtab, es), p2)))))))"

text \<open>\<^verbatim>\<open>parse_sbat_var_data\<close>: the revocation list is replaced on success. \<^verbatim>\<open>sizeof\<close> of an entry is
  40. With no rows the allocation has size zero.\<close>

type_synonym sbat_vars = "buf \<times> sbat_var_entry list"

definition parse_sbat_var_data ::
    "sbat_vars \<Rightarrow> buf \<Rightarrow> nat \<Rightarrow> pool \<Rightarrow> (efi_status \<times> sbat_vars \<times> pool) option" where
  "parse_sbat_var_data entry_list data datasize p =
     (if datasize = 0 then Some (EFI_INVALID_PARAMETER, entry_list, p)
      else (case parse_csv_data data (Some 0) (Some (datasize - 1)) SBAT_VAR_COLUMNS (Some []) p of
        None \<Rightarrow> None
      | Some (st, b1, rows, p1) \<Rightarrow>
          if EFI_ERROR st then Some (st, entry_list, p1)
          else (case sbat_rows_size SBAT_VAR_REQUIRED_COLUMNS 40 b1 (the rows) 0 0 of
            None \<Rightarrow> None
          | Some None \<Rightarrow> Some (EFI_INVALID_PARAMETER, entry_list, p1)
          | Some (Some (n, allocsz)) \<Rightarrow>
              (case AllocatePool p1 allocsz of
                 (ok, p2) \<Rightarrow>
                   if \<not> ok then Some (EFI_OUT_OF_RESOURCES, entry_list, p2)
                   else (case sbat_copy_rows b1 (the rows) (replicate allocsz 0) (40 * n + 8 * n) of
                     None \<Rightarrow> None
                   | Some (strtab, pss) \<Rightarrow>
                       (case map_entries mk_var_entry pss of
                          None \<Rightarrow> None
                        | Some es \<Rightarrow> Some (EFI_SUCCESS, (strtab, es), p2)))))))"

text \<open>\<^verbatim>\<open>parse_sbat_var\<close> reads the \<^verbatim>\<open>SbatLevel\<close> variable, or takes a candidate string. The copy
  of a candidate has one byte more than the string, which the code leaves as the allocator
  gave it: \<open>junk\<close>. A failed allocation is written through.\<close>

definition SBAT_VAR_NAME :: ucs2 where
  "SBAT_VAR_NAME = wlit ''SbatLevel''"

definition parse_sbat_var ::
    "'w efi_rt \<Rightarrow> sbat_vars \<Rightarrow> buf option \<Rightarrow> byte \<Rightarrow> pool \<Rightarrow> 'w \<Rightarrow> (efi_status \<times> sbat_vars \<times> pool) option" where
  "parse_sbat_var rt entries candidate junk p w =
     (case candidate of
        None \<Rightarrow>
          (case get_variable rt SBAT_VAR_NAME SHIM_LOCK_GUID p w of
             (st, d, datasize, p1) \<Rightarrow>
               if EFI_ERROR st then Some (st, entries, p1)
               else parse_sbat_var_data entries (the d) (datasize + 1) p1)
      | Some cand \<Rightarrow>
          (case cstr cand 0 of
             None \<Rightarrow> None
           | Some s \<Rightarrow>
               (case AllocatePool p (length s + 1) of
                  (ok, p1) \<Rightarrow>
                    if \<not> ok then None
                    else parse_sbat_var_data entries (s @ [junk]) (length s + 1) p1)))"

section \<open>Verification\<close>

text \<open>\<^verbatim>\<open>verify_single_entry\<close>: the status and \<^verbatim>\<open>*found\<close>. The generations are truncated to
  \<^verbatim>\<open>UINT16\<close>.\<close>

definition verify_single_entry ::
    "buf \<Rightarrow> sbat_section_entry \<Rightarrow> buf \<Rightarrow> sbat_var_entry \<Rightarrow> (efi_status \<times> bool) option" where
  "verify_single_entry st entry vt ve =
     (case strcmp st (component_name entry) vt (var_component_name ve) of
        None \<Rightarrow> None
      | Some d \<Rightarrow>
          if d \<noteq> 0 then Some (EFI_SUCCESS, False)
          else (case atoi st (component_generation entry) of
                  None \<Rightarrow> None
                | Some a \<Rightarrow>
                    (case atoi vt (var_component_generation ve) of
                       None \<Rightarrow> None
                     | Some v \<Rightarrow>
                         if a mod 2 ^ 16 < v mod 2 ^ 16 then Some (EFI_SECURITY_VIOLATION, True)
                         else Some (EFI_SUCCESS, True))))"

fun verify_entry_loop ::
    "buf \<Rightarrow> sbat_section_entry \<Rightarrow> buf \<Rightarrow> sbat_var_entry list \<Rightarrow> efi_status option" where
  "verify_entry_loop st entry vt [] = Some EFI_SUCCESS"
| "verify_entry_loop st entry vt (ve # ves) =
     (case verify_single_entry st entry vt ve of
        None \<Rightarrow> None
      | Some (status, found) \<Rightarrow>
          if EFI_ERROR status then Some status
          else if found then Some status
          else verify_entry_loop st entry vt ves)"

fun verify_sbat_loop ::
    "buf \<Rightarrow> sbat_section_entry list \<Rightarrow> buf \<Rightarrow> sbat_var_entry list \<Rightarrow> efi_status option" where
  "verify_sbat_loop st [] vt ves = Some EFI_SUCCESS"
| "verify_sbat_loop st (e # es) vt ves =
     (case verify_entry_loop st e vt ves of
        None \<Rightarrow> None
      | Some status \<Rightarrow> if EFI_ERROR status then Some status else verify_sbat_loop st es vt ves)"

definition verify_sbat_helper ::
    "sbat_vars \<Rightarrow> buf \<Rightarrow> sbat_section_entry list \<Rightarrow> efi_status option" where
  "verify_sbat_helper local_sbat_var st entries =
     (if snd local_sbat_var = [] then Some EFI_SUCCESS
      else verify_sbat_loop st entries (fst local_sbat_var) (snd local_sbat_var))"

definition verify_sbat :: "sbat_vars \<Rightarrow> buf \<Rightarrow> sbat_section_entry list \<Rightarrow> efi_status option" where
  "verify_sbat vars st entries = verify_sbat_helper vars st entries"

text \<open>\<^verbatim>\<open>verify_sbat_section\<close> of \<^verbatim>\<open>pe.c\<close>: \<open>img\<close> is the memory that holds the section.\<close>

definition verify_sbat_section ::
    "sbat_vars \<Rightarrow> bool \<Rightarrow> buf \<Rightarrow> nat option \<Rightarrow> nat \<Rightarrow> pool \<Rightarrow> (efi_status \<times> pool) option" where
  "verify_sbat_section vars in_protocol img SBATBase SBATSize p =
     (if snd vars = [] then Some (EFI_SUCCESS, p)
      else case SBATBase of
        None \<Rightarrow> Some (if in_protocol then EFI_SUCCESS else EFI_SECURITY_VIOLATION, p)
      | Some base \<Rightarrow>
          if SBATSize = 0 then
            Some (if in_protocol then EFI_SUCCESS else EFI_SECURITY_VIOLATION, p)
          else (case checked_add SBATSize 1 of
            None \<Rightarrow> Some (EFI_SECURITY_VIOLATION, p)
          | Some sbat_size \<Rightarrow>
              (case AllocatePool p sbat_size of
                 (ok, p1) \<Rightarrow>
                   if \<not> ok then Some (EFI_OUT_OF_RESOURCES, p1)
                   else (case rdn img base SBATSize of
                     None \<Rightarrow> None
                   | Some d \<Rightarrow>
                       (case parse_sbat_section (d @ [0]) (Some 0) sbat_size p1 of
                          None \<Rightarrow> None
                        | Some (st, _, entries, p2) \<Rightarrow>
                            if EFI_ERROR st then Some (st, p2)
                            else map_option (\<lambda>r. (r, p2))
                                   (verify_sbat vars (fst (the entries)) (snd (the entries))))))))"

section \<open>The string table\<close>

definition tab_size :: "buf list \<Rightarrow> nat" where
  "tab_size fs = sum_list (map (\<lambda>f. length f + 1) fs)"

lemma tab_size_simps [simp]: "tab_size [] = 0" "tab_size (f # fs) = length f + 1 + tab_size fs"
  by (simp_all add: tab_size_def)

text \<open>The columns of a row that hold its fields.\<close>

lemma row_cols:
  assumes "row_holds b n row fs"
  shows "list_all2 (col_holds b) (take (n_columns row) (columns row)) (map Some fs)"
proof -
  have "n_columns row = length fs" and
    l: "list_all2 (col_holds b) (columns row) (map Some fs @ replicate (n - length fs) None)"
    using assms by (auto simp: row_holds_def)
  then show ?thesis using list_all2_takeI [OF l, of "length fs"] by simp
qed

lemma cols_size_spec:
  "list_all2 (col_holds b) cols (map Some fs) \<Longrightarrow>
    sbat_cols_size b cols acc = Some (if [] \<in> set fs then None else Some (acc + tab_size fs))"
proof (induction fs arbitrary: cols acc)
  case Nil
  then show ?case by simp
next
  case (Cons f fs)
  then obtain c cs where c: "cols = c # cs" "col_holds b c (Some f)"
      "list_all2 (col_holds b) cs (map Some fs)"
    by (auto simp: list_all2_Cons2)
  then obtain q where q: "c = Some q" "cstr b q = Some f" by (cases c) auto
  then have "rd b q = Some (if f = [] then 0 else hd f)" "f \<noteq> [] \<Longrightarrow> hd f \<noteq> 0"
    by (cases f; auto simp: cstr_simps mem_simps)+
  then show ?case
    using Cons.IH [OF c(3)] c(1) q by (auto simp: strlen_cstr)
qed

definition rows_ok :: "nat \<Rightarrow> buf list list \<Rightarrow> bool" where
  "rows_ok required fss \<longleftrightarrow> list_all (\<lambda>fs. required \<le> length fs \<and> [] \<notin> set fs) fss"

definition rows_size :: "nat \<Rightarrow> buf list list \<Rightarrow> nat" where
  "rows_size entsz fss = sum_list (map (\<lambda>fs. 8 + entsz + tab_size fs) fss)"

lemma rows_size_spec:
  "list_all2 (row_holds b k) rows fss \<Longrightarrow>
    sbat_rows_size required entsz b rows n acc =
      Some (if rows_ok required fss then Some (n + length fss, acc + rows_size entsz fss) else None)"
proof (induction fss arbitrary: rows n acc)
  case Nil
  then show ?case by (simp add: rows_ok_def rows_size_def)
next
  case (Cons fs fss)
  then obtain row rest where r: "rows = row # rest" "row_holds b k row fs"
      "list_all2 (row_holds b k) rest fss"
    by (auto simp: list_all2_Cons2)
  have "n_columns row = length fs" using r(2) by (simp add: row_holds_def)
  then show ?case
    using Cons.IH [OF r(3)] cols_size_spec [OF row_cols [OF r(2)]] r(1)
    by (auto simp: rows_ok_def rows_size_def)
qed

text \<open>Copying: the pointers of a row point to its fields in the table.\<close>

definition ptrs_hold :: "buf \<Rightarrow> nat list \<Rightarrow> buf list \<Rightarrow> bool" where
  "ptrs_hold t ps fs \<longleftrightarrow> list_all2 (\<lambda>p f. cstr t p = Some f) ps fs"

lemma cstr_put:
  "0 \<notin> set f \<Longrightarrow> cur + length f < length t \<Longrightarrow> cstr (put t cur (f @ [0])) cur = Some f"
  by (rule cstr_append) (auto simp: put_def nth_append)

lemma copy_cols_spec:
  assumes "list_all2 (col_holds b) cols (map Some fs)" and "cur + tab_size fs \<le> length t"
  shows "\<exists>t' ps. sbat_copy_cols b cols t cur = Some (t', cur + tab_size fs, ps) \<and>
    length t' = length t \<and> (\<forall>i < cur. t' ! i = t ! i) \<and> ptrs_hold t' ps fs \<and>
    (\<forall>p \<in> set ps. p < cur + tab_size fs) \<and> (fs \<noteq> [] \<longrightarrow> t' ! (cur + tab_size fs - 1) = 0)"
  using assms
proof (induction fs arbitrary: cols cur t)
  case Nil
  then show ?case by (simp add: ptrs_hold_def)
next
  case (Cons f fs)
  then obtain c cs where c: "cols = c # cs" "col_holds b c (Some f)"
      "list_all2 (col_holds b) cs (map Some fs)"
    by (auto simp: list_all2_Cons2)
  then obtain q where q: "c = Some q" "cstr b q = Some f" by (cases c) auto
  let ?t = "put t cur (f @ [0])" and ?cur = "cur + length f + 1"
  have nz: "0 \<notin> set f" using cstr_Some_bounds [OF q(2)] by simp
  have room: "cur + length f < length t" "?cur + tab_size fs \<le> length ?t"
    using Cons.prems(2) by auto
  have cp: "stpcpy t cur b q = Some (?t, cur + length f)" by (rule stpcpy_cstr [OF q(2) room(1)])
  obtain t' ps where ih: "sbat_copy_cols b cs ?t ?cur = Some (t', ?cur + tab_size fs, ps)"
      "length t' = length ?t" "\<forall>i < ?cur. t' ! i = ?t ! i" "ptrs_hold t' ps fs"
      "\<forall>p \<in> set ps. p < ?cur + tab_size fs" "fs \<noteq> [] \<longrightarrow> t' ! (?cur + tab_size fs - 1) = 0"
    using Cons.IH [OF c(3) room(2)] by blast
  have z: "?t ! (cur + length f) = 0" using room(1) by (simp add: put_def nth_append)
  have "cstr t' cur = Some f"
    using ih(2,3) by (intro cstr_frame_below [OF cstr_put [OF nz room(1)] _ z]) auto
  moreover have "\<forall>i < cur. t' ! i = t ! i" using ih(3) room by (auto simp: put_def nth_append)
  moreover have "t' ! (cur + tab_size (f # fs) - 1) = 0"
    using ih(3,6) z by (cases fs) (auto simp: add_ac)
  ultimately show ?case
    using cp ih c(1) q(1) room(1)
    by (intro exI [of _ t'] exI [of _ "cur # ps"]) (auto simp: ptrs_hold_def add_ac)
qed

lemma ptrs_hold_frame:
  assumes "ptrs_hold t ps fs" and "\<forall>p \<in> set ps. p \<le> z" and "t ! z = 0" and "length t' = length t"
    and "\<And>i. i \<le> z \<Longrightarrow> t' ! i = t ! i"
  shows "ptrs_hold t' ps fs"
  using assms(1,2) cstr_frame_below [OF _ _ assms(3-5)]
  unfolding ptrs_hold_def by (auto elim!: list.rel_mono_strong)

lemma copy_rows_spec:
  assumes "list_all2 (row_holds b k) rows fss" and "cur + sum_list (map tab_size fss) \<le> length t"
    and "list_all (\<lambda>fs. fs \<noteq> []) fss"
  shows "\<exists>t' pss. sbat_copy_rows b rows t cur = Some (t', pss) \<and> length t' = length t \<and>
    (\<forall>i < cur. t' ! i = t ! i) \<and> list_all2 (ptrs_hold t') pss fss"
  using assms
proof (induction fss arbitrary: rows cur t rule: list.induct)
  case Nil
  then show ?case by simp
next
  case (Cons fs fss)
  then obtain row rest where r: "rows = row # rest" "row_holds b k row fs"
      "list_all2 (row_holds b k) rest fss"
    by (auto simp: list_all2_Cons2)
  have ne: "fs \<noteq> []" and room: "cur + tab_size fs \<le> length t" using Cons.prems by auto
  obtain t1 ps where c: "sbat_copy_cols b (take (n_columns row) (columns row)) t cur =
        Some (t1, cur + tab_size fs, ps)" "length t1 = length t" "\<forall>i < cur. t1 ! i = t ! i"
      "ptrs_hold t1 ps fs" "\<forall>p \<in> set ps. p < cur + tab_size fs"
      "t1 ! (cur + tab_size fs - 1) = 0"
    using copy_cols_spec [OF row_cols [OF r(2)] room] ne by blast
  have "cur + tab_size fs + sum_list (map tab_size fss) \<le> length t1"
    using Cons.prems(2) c(2) by simp
  from Cons.IH [OF r(3) this] Cons.prems(3) obtain t' pss where ih:
      "sbat_copy_rows b rest t1 (cur + tab_size fs) = Some (t', pss)" "length t' = length t1"
      "\<forall>i < cur + tab_size fs. t' ! i = t1 ! i" "list_all2 (ptrs_hold t') pss fss"
    by auto
  have pos: "0 < tab_size fs" using ne by (cases fs) auto
  have "ptrs_hold t' ps fs"
    using c(5) ih(2,3) pos by (intro ptrs_hold_frame [OF c(4) _ c(6)]) auto
  then show ?case
    using c(1-3) ih r(1) by (intro exI [of _ t'] exI [of _ "ps # pss"]) auto
qed

section \<open>Numbers on strings\<close>

definition atoi_val :: "buf \<Rightarrow> nat" where
  "atoi_val s = foldl (\<lambda>r c. (r * 10 + unat (c - 0x30)) mod 2 ^ 64) 0
     (takeWhile is_digit (dropWhile (\<lambda>c. c = 0x30) (dropWhile (\<lambda>c. c = 0x20 \<or> c = 0x09) s)))"

lemma skip_while_cstr:
  "cstr b i = Some s \<Longrightarrow> \<not> P 0 \<Longrightarrow>
    \<exists>j. skip_while P b i = Some j \<and> cstr b j = Some (dropWhile P s)"
proof (induction s arbitrary: i)
  case Nil
  then show ?case by (subst skip_while.simps) (auto simp: cstr_simps mem_simps)
next
  case (Cons c s)
  then show ?case
    using Cons.IH [of "i + 1"] by (subst skip_while.simps) (auto simp: cstr_simps mem_simps)
qed

lemma not_digit_0 [simp]: "\<not> is_digit 0"
  by (simp add: is_digit_def)

lemma atoi_digits_cstr:
  "cstr b i = Some s \<Longrightarrow>
    atoi_digits b i r =
      Some (foldl (\<lambda>r c. (r * 10 + unat (c - 0x30)) mod 2 ^ 64) r (takeWhile is_digit s))"
proof (induction s arbitrary: i r)
  case Nil
  then show ?case by (subst atoi_digits.simps) (auto simp: cstr_simps mem_simps)
next
  case (Cons c s)
  then show ?case by (subst atoi_digits.simps) (auto simp: cstr_simps mem_simps)
qed

lemma atoi_cstr:
  assumes "cstr b i = Some s"
  shows "atoi b i = Some (atoi_val s)"
proof -
  let ?ws = "\<lambda>c :: byte. c = 0x20 \<or> c = 0x09" and ?z = "\<lambda>c :: byte. c = 0x30"
  obtain j where j: "skip_while ?ws b i = Some j" "cstr b j = Some (dropWhile ?ws s)"
    using skip_while_cstr [OF assms, of ?ws] by auto
  obtain k where k: "skip_while ?z b j = Some k" "cstr b k = Some (dropWhile ?z (dropWhile ?ws s))"
    using skip_while_cstr [OF j(2), of ?z] by auto
  show ?thesis using j(1) k(1) atoi_digits_cstr [OF k(2), of 0] by (simp add: atoi_def atoi_val_def)
qed

section \<open>The revocation rule\<close>

definition sbat_gen :: "buf \<Rightarrow> nat" where
  "sbat_gen s = atoi_val s mod 2 ^ 16"

text \<open>A component is revoked when the first revocation entry with its name has a higher
  generation.\<close>

definition sbat_revoked :: "buf list list \<Rightarrow> buf list \<Rightarrow> bool" where
  "sbat_revoked vars c =
     (case find (\<lambda>v. v ! 0 = c ! 0) vars of
        None \<Rightarrow> False
      | Some v \<Rightarrow> sbat_gen (c ! 1) < sbat_gen (v ! 1))"

definition section_holds :: "buf \<Rightarrow> sbat_section_entry \<Rightarrow> buf list \<Rightarrow> bool" where
  "section_holds t e fs \<longleftrightarrow>
     ptrs_hold t [component_name e, component_generation e, vendor_name e, vendor_package_name e,
       vendor_version e, vendor_url e] fs"

definition var_holds :: "buf \<Rightarrow> sbat_var_entry \<Rightarrow> buf list \<Rightarrow> bool" where
  "var_holds t e fs \<longleftrightarrow>
     ptrs_hold t ([var_component_name e, var_component_generation e] @
       (case sbat_datestamp e of None \<Rightarrow> [] | Some d \<Rightarrow> [d])) fs"

text \<open>A revocation list in memory that holds the given entries.\<close>

definition vars_hold :: "sbat_vars \<Rightarrow> buf list list \<Rightarrow> bool" where
  "vars_hold v vss \<longleftrightarrow> list_all2 (var_holds (fst v)) (snd v) vss"

lemma verify_entry_spec:
  assumes "section_holds st e c" and "list_all2 (var_holds vt) ves vss"
  shows "verify_entry_loop st e vt ves =
    Some (if sbat_revoked vss c then EFI_SECURITY_VIOLATION else EFI_SUCCESS)"
  using assms(2)
proof (induction ves arbitrary: vss rule: list.induct)
  case Nil
  then show ?case by (simp add: sbat_revoked_def)
next
  case (Cons ve ves)
  then obtain v vss' where v: "vss = v # vss'" "var_holds vt ve v" "list_all2 (var_holds vt) ves vss'"
    by (auto simp: list_all2_Cons1)
  have c: "cstr st (component_name e) = Some (c ! 0)" "cstr st (component_generation e) = Some (c ! 1)"
    using assms(1) by (auto simp: section_holds_def ptrs_hold_def list_all2_Cons1)
  have w: "cstr vt (var_component_name ve) = Some (v ! 0)"
      "cstr vt (var_component_generation ve) = Some (v ! 1)"
    using v(2) by (auto simp: var_holds_def ptrs_hold_def list_all2_Cons1)
  have "str_diff (c ! 0) (v ! 0) = 0 \<longleftrightarrow> c ! 0 = v ! 0"
    using str_diff_zero cstr_Some_bounds [OF c(1)] cstr_Some_bounds [OF w(1)] by auto
  then show ?case
    using Cons.IH [OF v(3)] strcmp_cstr [OF c(1) w(1)] atoi_cstr [OF c(2)] atoi_cstr [OF w(2)] v(1)
    by (auto simp: verify_single_entry_def sbat_revoked_def sbat_gen_def)
qed

lemma verify_loop_spec:
  assumes "list_all2 (section_holds st) es cs" and "list_all2 (var_holds vt) ves vss"
  shows "verify_sbat_loop st es vt ves =
    Some (if list_ex (sbat_revoked vss) cs then EFI_SECURITY_VIOLATION else EFI_SUCCESS)"
  using assms(1)
proof (induction es arbitrary: cs rule: list.induct)
  case Nil
  then show ?case by simp
next
  case (Cons e es)
  then obtain c cs' where "cs = c # cs'" "section_holds st e c" "list_all2 (section_holds st) es cs'"
    by (auto simp: list_all2_Cons1)
  then show ?case using Cons.IH verify_entry_spec [OF _ assms(2)] by auto
qed

section \<open>The parsers on a text\<close>

lemma csv_spec_width: "fs \<in> set (csv_spec n s) \<Longrightarrow> length fs \<le> n"
  by (auto simp: csv_spec_def csv_fields_def)

lemma map_entries_total:
  assumes "list_all2 Q pss fss" and "\<And>ps fs. Q ps fs \<Longrightarrow> fs \<in> set fss \<Longrightarrow> \<exists>e. f ps = Some e \<and> R e fs"
  shows "\<exists>es. map_entries f pss = Some es \<and> list_all2 R es fss"
  using assms
proof (induction pss arbitrary: fss rule: list.induct)
  case Nil
  then show ?case by simp
next
  case (Cons ps pss)
  then obtain fs rest where r: "fss = fs # rest" "Q ps fs" "list_all2 Q pss rest"
    by (auto simp: list_all2_Cons1)
  obtain e where "f ps = Some e" "R e fs" using Cons.prems(2) r by auto
  moreover obtain es where "map_entries f pss = Some es" "list_all2 R es rest"
    using Cons.IH [OF r(3)] Cons.prems(2) r(1) by auto
  ultimately show ?case using r(1) by auto
qed

lemma section_entry_holds:
  assumes "ptrs_hold t ps fs" and "length fs = 6"
  shows "\<exists>e. mk_section_entry ps = Some e \<and> section_holds t e fs"
proof -
  have "length ps = Suc (Suc (Suc (Suc (Suc (Suc 0)))))"
    using assms by (simp add: ptrs_hold_def list_all2_lengthD)
  then obtain a b c d e g where "ps = [a, b, c, d, e, g]" by (auto simp: length_Suc_conv)
  with assms(1) show ?thesis by (simp add: section_holds_def)
qed

lemma var_entry_holds:
  assumes "ptrs_hold t ps fs" and "2 \<le> length fs" and "length fs \<le> 3"
  shows "\<exists>e. mk_var_entry ps = Some e \<and> var_holds t e fs"
proof -
  have "length ps = Suc (Suc 0) \<or> length ps = Suc (Suc (Suc 0))"
    using assms by (auto simp: ptrs_hold_def list_all2_lengthD)
  then consider a b where "ps = [a, b]" | a b c where "ps = [a, b, c]"
    by (auto simp: length_Suc_conv)
  then show ?thesis using assms(1) by cases (simp_all add: var_holds_def)
qed

lemma rows_size_tab:
  "rows_size entsz fss = (8 + entsz) * length fss + sum_list (map tab_size fss)"
  by (induction fss) (auto simp: rows_size_def)

lemma rows_ok_nonempty: "rows_ok k fss \<Longrightarrow> 0 < k \<Longrightarrow> list_all (\<lambda>fs. fs \<noteq> []) fss"
  by (auto simp: rows_ok_def list_all_iff)

text \<open>Both passes over the rows of a text that the CSV parser returned.\<close>

lemma copy_passes:
  assumes "list_all2 (row_holds b k) rows fss" and "rows_ok required fss" and "0 < required"
  shows "\<exists>t pss. sbat_copy_rows b rows (replicate (rows_size entsz fss) 0) ((8 + entsz) * length fss) =
      Some (t, pss) \<and> list_all2 (ptrs_hold t) pss fss"
  using copy_rows_spec [OF assms(1) _ rows_ok_nonempty [OF assms(2,3)],
      of "(8 + entsz) * length fss" "replicate (rows_size entsz fss) 0"]
  by (auto simp: rows_size_tab)

lemma parse_sbat_section_spec:
  assumes "csv_buf b (base + sz - 1)" and "text_at b (base + sz - 1) base s" and "2 \<le> sz"
    and "pool_ok p"
  shows "\<exists>b' ents p'. parse_sbat_section b (Some base) sz p =
      Some (if rows_ok 6 (csv_spec 6 s) then EFI_SUCCESS else EFI_INVALID_PARAMETER, b', ents, p') \<and>
    pool_ok p' \<and>
    (rows_ok 6 (csv_spec 6 s) \<longrightarrow>
      (\<exists>t es. ents = Some (t, es) \<and> list_all2 (section_holds t) es (csv_spec 6 s)))"
proof -
  let ?fss = "csv_spec 6 s"
  have lt: "base < base + sz - 1" using assms(3) by simp
  obtain b' rows p' where c: "parse_csv_data b (Some base) (Some (base + sz - 1)) 6 (Some []) p =
      Some (EFI_SUCCESS, b', Some rows, p')" "pool_ok p'" "list_all2 (row_holds b' 6) rows ?fss"
    using parse_csv_data_lines [OF assms(1) lt assms(2) _ _ assms(4), of 6 "[]"] by auto
  note sz = rows_size_spec [OF c(3), of 6 48 0 0]
  show ?thesis
  proof (cases "rows_ok 6 ?fss \<and> ?fss \<noteq> []")
    case True
    then obtain t pss where t: "sbat_copy_rows b' rows (replicate (rows_size 48 ?fss) 0)
        (8 * length ?fss + 48 * length ?fss) = Some (t, pss)" "list_all2 (ptrs_hold t) pss ?fss"
      using copy_passes [OF c(3), of 6 48] by (auto simp: algebra_simps)
    obtain es where "map_entries mk_section_entry pss = Some es" "list_all2 (section_holds t) es ?fss"
      using map_entries_total [OF t(2), of mk_section_entry "section_holds t"] True
        section_entry_holds csv_spec_width [of _ 6 s]
      by (fastforce simp: rows_ok_def list_all_iff intro: le_antisym)
    then show ?thesis
      using True t c(1,2) sz assms(3) AllocatePool_ok [OF c(2)] pool_ok_Suc [OF c(2)]
      by (auto simp: parse_sbat_section_def SBAT_SECTION_COLUMNS_def)
  next
    case False
    then show ?thesis
      using c(1,2) sz assms(3)
      by (auto simp: parse_sbat_section_def SBAT_SECTION_COLUMNS_def rows_ok_def rows_size_def)
  qed
qed

lemma parse_sbat_var_data_spec:
  assumes "csv_buf d (sz - 1)" and "text_at d (sz - 1) 0 s" and "2 \<le> sz" and "pool_ok p"
  shows "\<exists>vars' p'. parse_sbat_var_data vars d sz p =
      Some (if rows_ok 2 (csv_spec 3 s) then EFI_SUCCESS else EFI_INVALID_PARAMETER, vars', p') \<and>
    pool_ok p' \<and>
    (if rows_ok 2 (csv_spec 3 s) then vars_hold vars' (csv_spec 3 s) else vars' = vars)"
proof -
  let ?fss = "csv_spec 3 s"
  have lt: "0 < sz - 1" using assms(3) by simp
  obtain b' rows p' where c: "parse_csv_data d (Some 0) (Some (sz - 1)) 3 (Some []) p =
      Some (EFI_SUCCESS, b', Some rows, p')" "pool_ok p'" "list_all2 (row_holds b' 3) rows ?fss"
    using parse_csv_data_lines [OF assms(1) lt assms(2) _ _ assms(4), of 3 "[]"] by auto
  note sz = rows_size_spec [OF c(3), of 2 40 0 0]
  show ?thesis
  proof (cases "rows_ok 2 ?fss")
    case True
    then obtain t pss where t: "sbat_copy_rows b' rows (replicate (rows_size 40 ?fss) 0)
        (40 * length ?fss + 8 * length ?fss) = Some (t, pss)" "list_all2 (ptrs_hold t) pss ?fss"
      using copy_passes [OF c(3), of 2 40] by (auto simp: algebra_simps)
    obtain es where "map_entries mk_var_entry pss = Some es" "list_all2 (var_holds t) es ?fss"
      using map_entries_total [OF t(2), of mk_var_entry "var_holds t"] True
        var_entry_holds csv_spec_width [of _ 3 s]
      by (fastforce simp: rows_ok_def list_all_iff)
    then show ?thesis
      using True t c(1,2) sz assms(3) AllocatePool_ok [OF c(2)] pool_ok_Suc [OF c(2)]
      by (auto simp: parse_sbat_var_data_def SBAT_VAR_COLUMNS_def SBAT_VAR_REQUIRED_COLUMNS_def
          vars_hold_def)
  next
    case False
    then show ?thesis
      using c(1,2) sz assms(3)
      by (auto simp: parse_sbat_var_data_def SBAT_VAR_COLUMNS_def SBAT_VAR_REQUIRED_COLUMNS_def)
  qed
qed

text \<open>A section of an image in memory: the text and NULs up to its size.\<close>

lemma text_padded:
  assumes "0 \<notin> set s"
  shows "text_at (s @ replicate (Suc k) 0) (length s + k) 0 s"
  using assms by (auto simp: text_at_def nth_append simp del: replicate_Suc)

lemma csv_buf_padded:
  "length s + k < 2 ^ 32 - 1 \<Longrightarrow> csv_buf (s @ replicate (Suc k) 0) (length s + k)"
  by (simp add: csv_buf_def nth_append del: replicate_Suc)

lemma verify_sbat_section_text:
  assumes "vars_hold vars vss" and "snd vars \<noteq> []" and "0 \<notin> set s"
    and "rdn img base (length s + k) = Some (s @ replicate k 0)" and "0 < length s + k"
    and "length s + k < 2 ^ 32 - 1" and "pool_ok p"
  shows "\<exists>p'. verify_sbat_section vars in_protocol img (Some base) (length s + k) p =
    Some (if \<not> rows_ok 6 (csv_spec 6 s) then EFI_INVALID_PARAMETER
          else if list_ex (sbat_revoked vss) (csv_spec 6 s) then EFI_SECURITY_VIOLATION
          else EFI_SUCCESS, p') \<and> pool_ok p'"
proof -
  let ?d = "s @ replicate (Suc k) 0" and ?sz = "length s + k + 1" and ?p = "\<lambda>k. p (Suc k)"
  have d: "(s @ replicate k 0) @ [0] = ?d" by (simp add: replicate_append_same)
  obtain b' ents p' where r: "parse_sbat_section ?d (Some 0) ?sz ?p =
      Some (if rows_ok 6 (csv_spec 6 s) then EFI_SUCCESS else EFI_INVALID_PARAMETER, b', ents, p')"
      "rows_ok 6 (csv_spec 6 s) \<longrightarrow>
        (\<exists>t es. ents = Some (t, es) \<and> list_all2 (section_holds t) es (csv_spec 6 s))"
      "pool_ok p'"
    using parse_sbat_section_spec [of ?d 0 ?sz s ?p] csv_buf_padded [OF assms(6)]
      text_padded [OF assms(3), of k] assms(5) pool_ok_Suc [OF assms(7)]
    by auto
  have "checked_add (length s + k) 1 = Some ?sz" using assms(6) by (simp add: checked_add_def)
  then show ?thesis
    using r assms verify_loop_spec [of _ _ _ "fst vars" "snd vars" vss] AllocatePool_ok [OF assms(7)] d
    by (auto simp: verify_sbat_section_def verify_sbat_def verify_sbat_helper_def vars_hold_def)
qed

text \<open>C7. The SBAT rule: with allocations that succeed, an image whose \<^verbatim>\<open>.sbat\<close> section holds
  the text \<open>s\<close> (and NULs up to the section's size) is refused as invalid when a line has
  fewer than six fields or an empty one, as a security violation when a component's
  generation is lower than that of the first entry with its name in the revocation list, and
  is accepted otherwise.\<close>

theorem verify_sbat_section_spec:
  assumes "vars_hold vars vss" and "snd vars \<noteq> []" and "0 \<notin> set s"
    and "rdn img base (length s + k) = Some (s @ replicate k 0)" and "0 < length s + k"
    and "length s + k < 2 ^ 32 - 1" and "pool_ok p"
  shows "\<exists>p'. verify_sbat_section vars in_protocol img (Some base) (length s + k) p =
    Some (if \<not> rows_ok 6 (csv_spec 6 s) then EFI_INVALID_PARAMETER
          else if list_ex (sbat_revoked vss) (csv_spec 6 s) then EFI_SECURITY_VIOLATION
          else EFI_SUCCESS, p')"
  using verify_sbat_section_text [OF assms, of in_protocol] by blast

definition sample_vars :: sbat_vars where
  "sample_vars = (lit ''grub'' @ [0] @ lit ''3'' @ [0],
     [\<lparr>var_component_name = 0, var_component_generation = 5, sbat_datestamp = None\<rparr>])"

definition sample_sbat :: buf where
  "sample_sbat = lit ''grub,2,a,b,c,d'' @ [0x0A]"

lemma verify_sbat_section_spec_witness:
  "\<exists>p'. verify_sbat_section sample_vars False (sample_sbat @ [0, 0]) (Some 0) (15 + 2) (\<lambda>_ _. True) =
    Some (EFI_SECURITY_VIOLATION, p')"
proof -
  have "vars_hold sample_vars [[lit ''grub'', lit ''3'']]"
    by (auto simp: vars_hold_def var_holds_def ptrs_hold_def) code_simp+
  moreover have "rdn (sample_sbat @ [0, 0]) 0 (length sample_sbat + 2) =
      Some (sample_sbat @ replicate 2 0)" by code_simp
  moreover have "rows_ok 6 (csv_spec 6 sample_sbat)" by code_simp
  moreover have "list_ex (sbat_revoked [[lit ''grub'', lit ''3'']]) (csv_spec 6 sample_sbat)"
    by code_simp
  moreover have "length sample_sbat = 15" and "0 \<notin> set sample_sbat" by code_simp+
  moreover have "snd sample_vars \<noteq> []" by (simp add: sample_vars_def)
  moreover have "pool_ok (\<lambda>_ _. True)" by (simp add: pool_ok_def)
  ultimately show ?thesis
    using verify_sbat_section_spec [of sample_vars "[[lit ''grub'', lit ''3'']]" sample_sbat
        "sample_sbat @ [0, 0]" 0 2 "\<lambda>_ _. True" False]
    by simp
qed

end
