(* ===== verification/Mock_Variables.thy ===== *)
theory Mock_Variables
  imports Variables "HOL-Library.List_Lexorder"
begin

text \<open>
  The variable store of \<^verbatim>\<open>mock-variables.c\<close>: the firmware's \<^verbatim>\<open>GetVariable\<close>,
  \<^verbatim>\<open>SetVariable\<close>, \<^verbatim>\<open>GetNextVariableName\<close>, \<^verbatim>\<open>QueryVariableInfo\<close> and
  \<^verbatim>\<open>InstallConfigurationTable\<close>, over an ordered list of variables with storage
  accounting. The hooks are not installed (their state after \<^verbatim>\<open>mock_reset_variables\<close>),
  and the loading of variables from files is not modelled.

  The storage counters are reached through pointers that several limit entries share, so
  they are cells of a small store and a limit entry holds their addresses.

  The lemmas show that the list keeps one non-empty entry per name and GUID, and that the
  services implement a finite map.
\<close>

section \<open>State\<close>

text \<open>\<^verbatim>\<open>struct mock_variable\<close>; its \<^verbatim>\<open>size\<close> is the length of the data.\<close>

record mock_variable =
  v_name :: ucs2
  v_guid :: efi_guid
  v_data :: buf
  v_attrs :: "32 word"

text \<open>\<^verbatim>\<open>struct mock_variable_limits\<close>: the three counters are addresses of cells.\<close>

record mock_variable_limits =
  lim_attrs :: "32 word"
  max_var_storage :: nat
  remaining_var_storage :: nat
  max_var_size :: nat
  lim_status :: efi_status

text \<open>The sort policies; \<^verbatim>\<open>MOCK_SORT_MAX_SENTINEL\<close> only bounds the enumeration.\<close>

datatype mock_sort_policy =
  MOCK_SORT_DESCENDING | MOCK_SORT_PREPEND | MOCK_SORT_APPEND | MOCK_SORT_ASCENDING

text \<open>The configuration table is the list of its used entries; a table pointer is an
  address, zero being NULL.\<close>

record mock_state =
  mock_variables :: "mock_variable list"
  mock_qvi_limits :: "mock_variable_limits list"
  mock_sv_limits :: "mock_variable_limits list"
  mock_cells :: "nat \<Rightarrow> nat"
  mock_variable_sort_policy :: mock_sort_policy
  mock_variable_delete_attr_policy :: "32 word"
  mock_pool :: pool
  mock_config_table :: "(efi_guid \<times> nat) list"
  mock_config_table_sort_policy :: mock_sort_policy
  qvi_installed :: bool

section \<open>Comparison\<close>

text \<open>\<^verbatim>\<open>guidcmp\<close> of \<^verbatim>\<open>include/test.h\<close>: the fields in the order of the printed form, then the
  sign of the first difference.\<close>

fun guid_key :: "efi_guid \<Rightarrow> int list" where
  "guid_key (GUID a b c d0 d1 d2 d3 d4 d5 d6 d7) =
     [uint a, uint b, uint c, uint d1, uint d0, uint d2, uint d3, uint d4, uint d5, uint d6,
      uint d7]"

fun first_diff :: "int list \<Rightarrow> int list \<Rightarrow> int" where
  "first_diff (x # xs) (y # ys) = (if x \<noteq> y then x - y else first_diff xs ys)"
| "first_diff _ _ = 0"

definition guidcmp :: "efi_guid \<Rightarrow> efi_guid \<Rightarrow> int" where
  "guidcmp g0 g1 = sgn (first_diff (guid_key g0) (guid_key g1))"

definition variable_limits_cmp :: "mock_variable_limits \<Rightarrow> mock_variable_limits \<Rightarrow> int" where
  "variable_limits_cmp v0 v1 =
     (let mask = EFI_VARIABLE_NON_VOLATILE OR EFI_VARIABLE_BOOTSERVICE_ACCESS OR
                 EFI_VARIABLE_RUNTIME_ACCESS
      in uint (lim_attrs v0 AND mask) - uint (lim_attrs v1 AND mask))"

definition variable_cmp :: "ucs2 \<Rightarrow> efi_guid \<Rightarrow> mock_variable \<Rightarrow> int" where
  "variable_cmp name guid v1 =
     (let ret = guidcmp guid (v_guid v1) * 256
      in if ret \<noteq> 0 then ret else StrCmp name (v_name v1))"

section \<open>GetVariable and GetNextVariableName\<close>

text \<open>\<^verbatim>\<open>mock_get_variable\<close>: the arguments are the name and GUID, the value of \<^verbatim>\<open>*size\<close>, and
  whether \<^verbatim>\<open>data\<close> is not NULL. The result is the status, the new \<^verbatim>\<open>*size\<close>, the attributes
  if they were written, and the bytes written to \<^verbatim>\<open>data\<close>.\<close>

fun mock_get_variable_loop ::
    "mock_variable list \<Rightarrow> ucs2 \<Rightarrow> efi_guid \<Rightarrow> nat \<Rightarrow> bool \<Rightarrow> gv_result" where
  "mock_get_variable_loop [] name guid sz has_data = (EFI_NOT_FOUND, sz, None, [])"
| "mock_get_variable_loop (var # vars) name guid sz has_data =
     (if variable_cmp name guid var = 0 then
        (if length (v_data var) > sz then
           (EFI_BUFFER_TOO_SMALL, length (v_data var), Some (v_attrs var), [])
         else if \<not> has_data then (EFI_INVALID_PARAMETER, sz, Some (v_attrs var), [])
         else (EFI_SUCCESS, length (v_data var), Some (v_attrs var), v_data var))
      else mock_get_variable_loop vars name guid sz has_data)"

definition mock_get_variable ::
    "ucs2 \<Rightarrow> efi_guid \<Rightarrow> nat \<Rightarrow> bool \<Rightarrow> mock_state \<Rightarrow> gv_result" where
  "mock_get_variable name guid sz has_data s =
     mock_get_variable_loop (mock_variables s) name guid sz has_data"

text \<open>\<^verbatim>\<open>mock_get_next_variable_name\<close>: \<open>name\<close> is the caller's \<^verbatim>\<open>CHAR16\<close> array. The first loop
  looks for a terminator in the first \<^verbatim>\<open>*size\<close> characters (the value counts bytes), and
  leaves the array if it is shorter. \<open>gnvn_search\<close> is the loop over the variables: the
  result is \<open>found\<close> and the variable chosen.\<close>

fun gnvn_has_nul :: "nat \<Rightarrow> 16 word list \<Rightarrow> bool option" where
  "gnvn_has_nul 0 name = Some False"
| "gnvn_has_nul (Suc n) [] = None"
| "gnvn_has_nul (Suc n) (c # cs) = (if c = 0 then Some True else gnvn_has_nul n cs)"

fun gnvn_search ::
    "mock_variable list \<Rightarrow> ucs2 \<Rightarrow> efi_guid \<Rightarrow> bool \<Rightarrow> bool \<times> mock_variable option" where
  "gnvn_search [] name guid found = (found, None)"
| "gnvn_search (var # vars) name guid found =
     (if name = [] then
        (if guidcmp (v_guid var) guid = 0 then (True, Some var)
         else gnvn_search vars name guid found)
      else if found then
        (if guidcmp (v_guid var) guid = 0 then (True, Some var)
         else gnvn_search vars name guid True)
      else gnvn_search vars name guid (variable_cmp name guid var = 0))"

text \<open>\<^verbatim>\<open>mock_gnvn_set_result\<close>: the copy of the name must fit in the array.\<close>

definition mock_gnvn_set_result ::
    "nat \<Rightarrow> 16 word list \<Rightarrow> efi_guid \<Rightarrow> mock_variable
      \<Rightarrow> (efi_status \<times> nat \<times> 16 word list \<times> efi_guid) option" where
  "mock_gnvn_set_result sz name guid result =
     (if sz < StrSize (v_name result) then
        Some (EFI_BUFFER_TOO_SMALL, StrSize (v_name result), name, guid)
      else if length name < length (v_name result) + 1 then None
      else Some (EFI_SUCCESS, length (v_name result) + 1,
             v_name result @ [0] @ drop (length (v_name result) + 1) name, v_guid result))"

definition mock_get_next_variable_name ::
    "nat \<Rightarrow> 16 word list \<Rightarrow> efi_guid \<Rightarrow> mock_state
      \<Rightarrow> (efi_status \<times> nat \<times> 16 word list \<times> efi_guid) option" where
  "mock_get_next_variable_name sz name guid s =
     (case gnvn_has_nul sz name of
        None \<Rightarrow> None
      | Some False \<Rightarrow> Some (EFI_INVALID_PARAMETER, sz, name, guid)
      | Some True \<Rightarrow>
          (case gnvn_search (mock_variables s) (takeWhile (\<lambda>c. c \<noteq> 0) name) guid False of
             (False, _) \<Rightarrow>
               Some (if hd name = 0 then EFI_NOT_FOUND else EFI_INVALID_PARAMETER, sz, name, guid)
           | (True, None) \<Rightarrow> Some (EFI_NOT_FOUND, sz, name, guid)
           | (True, Some result) \<Rightarrow> mock_gnvn_set_result sz name guid result))"

section \<open>SetVariable\<close>

definition mock_sv_attrs_match :: "32 word \<Rightarrow> 32 word \<Rightarrow> bool" where
  "mock_sv_attrs_match old new =
     (let mask = NOT EFI_VARIABLE_APPEND_WRITE in (old AND mask) = (new AND mask))"

text \<open>The value of a \<^verbatim>\<open>size_t\<close> expression passed as \<^verbatim>\<open>ssize_t\<close>.\<close>

definition ssize :: "int \<Rightarrow> int" where
  "ssize x = (x + 2 ^ 63) mod 2 ^ 64 - 2 ^ 63"

definition mock_sv_adjust_usage_data ::
    "32 word \<Rightarrow> nat \<Rightarrow> int \<Rightarrow> mock_state \<Rightarrow> efi_status \<times> mock_state" where
  "mock_sv_adjust_usage_data attrs sz change s =
     (let goal = \<lparr>lim_attrs = attrs AND (EFI_VARIABLE_BOOTSERVICE_ACCESS OR
                    EFI_VARIABLE_NON_VOLATILE OR EFI_VARIABLE_RUNTIME_ACCESS),
                  max_var_storage = 0, remaining_var_storage = 0, max_var_size = 0,
                  lim_status = EFI_SUCCESS\<rparr>;
          qvi = find (\<lambda>c. variable_limits_cmp goal c = 0) (mock_qvi_limits s);
          sv = find (\<lambda>c. variable_limits_cmp goal c = 0) (mock_sv_limits s);
          cells = mock_cells s
      in case sv of
           None \<Rightarrow> (EFI_UNSUPPORTED, s)
         | Some l \<Rightarrow>
             if lim_status l \<noteq> EFI_SUCCESS then (lim_status l, s)
             else if cells (max_var_size l) < sz then (EFI_OUT_OF_RESOURCES, s)
             else if change > 0 \<and> nat change > cells (remaining_var_storage l) then
               (EFI_OUT_OF_RESOURCES, s)
             else
               let cells1 = cells(remaining_var_storage l :=
                     nat ((int (cells (remaining_var_storage l)) + change) mod 2 ^ 64))
               in (EFI_SUCCESS,
                   s\<lparr>mock_cells := (case qvi of
                        None \<Rightarrow> cells1
                      | Some q \<Rightarrow>
                          let r = remaining_var_storage q
                          in if r = remaining_var_storage l then cells1
                             else if change < 0 \<and> nat (- change) > cells1 r then cells1(r := 0)
                             else if change > 0 \<and> 2 ^ 64 - 1 - cells1 r < nat change then
                               cells1(r := 2 ^ 64 - 1)
                             else cells1(r := nat ((int (cells1 r) + change) mod 2 ^ 64)))\<rparr>))"

text \<open>Deleting, replacing and extending the variable at a position of the list.\<close>

definition mock_delete_variable :: "nat \<Rightarrow> mock_state \<Rightarrow> efi_status \<times> mock_state" where
  "mock_delete_variable i s =
     (let var = mock_variables s ! i
      in case mock_sv_adjust_usage_data (v_attrs var) 0 (ssize (- int (length (v_data var)))) s of
           (status, s1) \<Rightarrow>
             if EFI_ERROR status then (status, s1)
             else (EFI_SUCCESS, s1\<lparr>mock_variables :=
                     take i (mock_variables s1) @ drop (Suc i) (mock_variables s1)\<rparr>))"

definition mock_replace_variable :: "nat \<Rightarrow> buf \<Rightarrow> mock_state \<Rightarrow> efi_status \<times> mock_state" where
  "mock_replace_variable i data s =
     (let var = mock_variables s ! i
      in case mock_sv_adjust_usage_data (v_attrs var) (length data)
                (ssize (- int (length (v_data var)) + int (length data))) s of
           (status, s1) \<Rightarrow>
             if EFI_ERROR status then (status, s1)
             else (case AllocatePool (mock_pool s1) (length data) of
                     (ok, p) \<Rightarrow>
                       let s2 = s1\<lparr>mock_pool := p\<rparr>
                       in if \<not> ok then (EFI_OUT_OF_RESOURCES, s2)
                          else (EFI_SUCCESS, s2\<lparr>mock_variables :=
                                  (mock_variables s2)[i := var\<lparr>v_data := data\<rparr>]\<rparr>)))"

definition mock_sv_extend :: "nat \<Rightarrow> buf \<Rightarrow> mock_state \<Rightarrow> efi_status \<times> mock_state" where
  "mock_sv_extend i data s =
     (let var = mock_variables s ! i
      in if data = [] then (EFI_SUCCESS, s)
         else case mock_sv_adjust_usage_data (v_attrs var) (length (v_data var) + length data)
                     (ssize (int (length data))) s of
           (status, s1) \<Rightarrow>
             if EFI_ERROR status then (status, s1)
             else (case AllocatePool (mock_pool s1) (length (v_data var) + length data) of
                     (ok, p) \<Rightarrow>
                       let s2 = s1\<lparr>mock_pool := p\<rparr>
                       in if \<not> ok then (EFI_OUT_OF_RESOURCES, s2)
                          else (EFI_SUCCESS, s2\<lparr>mock_variables :=
                                  (mock_variables s2)[i := var\<lparr>v_data := v_data var @ data\<rparr>]\<rparr>)))"

text \<open>\<^verbatim>\<open>mock_new_variable\<close>: \<^verbatim>\<open>sizeof(struct mock_variable)\<close> is 64. When the second allocation
  fails the code unlinks the new entry through NULL links: no defined result.\<close>

definition mock_new_variable ::
    "ucs2 \<Rightarrow> efi_guid \<Rightarrow> 32 word \<Rightarrow> buf \<Rightarrow> pool
      \<Rightarrow> (efi_status \<times> mock_variable option \<times> pool) option" where
  "mock_new_variable name guid attrs data p =
     (if data = [] then Some (EFI_INVALID_PARAMETER, None, p)
      else case AllocatePool p (64 + StrSize name) of
        (ok, p1) \<Rightarrow>
          if \<not> ok then Some (EFI_OUT_OF_RESOURCES, None, p1)
          else (case AllocatePool p1 (length data) of
                  (ok2, p2) \<Rightarrow>
                    if \<not> ok2 then None
                    else Some (EFI_SUCCESS,
                           Some \<lparr>v_name = name, v_guid = guid, v_data = data, v_attrs = attrs\<rparr>, p2)))"

text \<open>The search of \<^verbatim>\<open>mock_set_variable\<close>: the position where it stopped (the length of the
  list for its head), whether it found a stopping point, and the last comparison.\<close>

fun mock_sv_found :: "mock_sort_policy \<Rightarrow> int \<Rightarrow> bool" where
  "mock_sv_found MOCK_SORT_DESCENDING cmp = (cmp \<ge> 0)"
| "mock_sv_found MOCK_SORT_ASCENDING cmp = (cmp \<le> 0)"
| "mock_sv_found _ cmp = (cmp = 0)"

fun mock_sv_search ::
    "mock_sort_policy \<Rightarrow> ucs2 \<Rightarrow> efi_guid \<Rightarrow> mock_variable list \<Rightarrow> nat \<Rightarrow> int
      \<Rightarrow> nat \<times> bool \<times> int" where
  "mock_sv_search policy name guid [] i cmp = (i, False, cmp)"
| "mock_sv_search policy name guid (var # vars) i cmp =
     (let cmp1 = sgn (variable_cmp name guid var)
      in if mock_sv_found policy cmp1 then (i, True, cmp1)
         else mock_sv_search policy name guid vars (Suc i) cmp1)"

text \<open>Inserting a new entry before a position (\<^verbatim>\<open>list_add_tail\<close>) or after it (\<^verbatim>\<open>list_add\<close>).\<close>

definition mock_insert :: "bool \<Rightarrow> nat \<Rightarrow> 'a \<Rightarrow> 'a list \<Rightarrow> 'a list" where
  "mock_insert add_tail pos v vars =
     (let i = (if add_tail then pos else if pos = length vars then 0 else Suc pos)
      in take i vars @ v # drop i vars)"

definition mock_sv_create ::
    "ucs2 \<Rightarrow> efi_guid \<Rightarrow> 32 word \<Rightarrow> buf \<Rightarrow> nat \<Rightarrow> mock_state \<Rightarrow> (efi_status \<times> mock_state) option" where
  "mock_sv_create name guid attrs data pos s =
     (let totalsz = length data + StrSize name
      in case mock_sv_adjust_usage_data attrs (length data) (ssize (- int totalsz)) s of
           (status, s1) \<Rightarrow>
             if EFI_ERROR status then Some (status, s1)
             else (case mock_new_variable name guid attrs data (mock_pool s1) of
                     None \<Rightarrow> None
                   | Some (status2, var, p) \<Rightarrow>
                       let s2 = s1\<lparr>mock_pool := p\<rparr>
                       in (case var of
                             None \<Rightarrow> Some (status2,
                                snd (mock_sv_adjust_usage_data attrs 0 (ssize (int totalsz)) s2))
                           | Some v \<Rightarrow>
                               Some (status2, s2\<lparr>mock_variables :=
                                 mock_insert (mock_variable_sort_policy s2 \<noteq> MOCK_SORT_PREPEND)
                                   pos v (mock_variables s2)\<rparr>))))"

text \<open>The last part of \<^verbatim>\<open>mock_set_variable\<close>: an existing variable is extended, deleted or
  replaced, if the attributes allow it. \<^verbatim>\<open>MOCK_VAR_DELETE_ATTR_ALLOW_ZERO\<close> is 1 and
  \<^verbatim>\<open>MOCK_VAR_DELETE_ATTR_ALOW_MISMATCH\<close> is 2.\<close>

definition mock_sv_existing ::
    "32 word \<Rightarrow> buf \<Rightarrow> nat \<Rightarrow> mock_state \<Rightarrow> efi_status \<times> mock_state" where
  "mock_sv_existing attrs data i s =
     (let var = mock_variables s ! i;
          appending = (attrs AND EFI_VARIABLE_APPEND_WRITE \<noteq> 0);
          policy = mock_variable_delete_attr_policy s;
          allowed = (mock_sv_attrs_match (v_attrs var) attrs \<or>
            (data = [] \<and> \<not> appending \<and>
              ((policy AND 1 \<noteq> 0 \<and> attrs = 0) \<or> policy AND 2 \<noteq> 0)))
      in if \<not> allowed then (EFI_INVALID_PARAMETER, s)
         else if appending then mock_sv_extend i data s
         else if data = [] then
           (if attrs AND (EFI_VARIABLE_TIME_BASED_AUTHENTICATED_WRITE_ACCESS OR
                          EFI_VARIABLE_ENHANCED_AUTHENTICATED_ACCESS) \<noteq> 0
            then (EFI_INVALID_PARAMETER, s)
            else mock_delete_variable i s)
         else mock_replace_variable i data s)"

definition mock_set_variable ::
    "ucs2 \<Rightarrow> efi_guid \<Rightarrow> 32 word \<Rightarrow> buf \<Rightarrow> mock_state \<Rightarrow> (efi_status \<times> mock_state) option" where
  "mock_set_variable name guid attrs data s =
     (if name = [] then Some (EFI_INVALID_PARAMETER, s)
      else if attrs AND EFI_VARIABLE_RUNTIME_ACCESS \<noteq> 0 \<and>
              attrs AND EFI_VARIABLE_BOOTSERVICE_ACCESS = 0 then Some (EFI_INVALID_PARAMETER, s)
      else case mock_sv_search (mock_variable_sort_policy s) name guid (mock_variables s) 0 (-1) of
        (pos, found, cmp) \<Rightarrow>
          if cmp \<noteq> 0 \<or> \<not> found then mock_sv_create name guid attrs data pos s
          else Some (mock_sv_existing attrs data pos s))"

section \<open>QueryVariableInfo and the limits\<close>

definition mock_query_variable_info ::
    "32 word \<Rightarrow> mock_state \<Rightarrow> efi_status \<times> (nat \<times> nat \<times> nat) option" where
  "mock_query_variable_info attrs s =
     (let goal = \<lparr>lim_attrs = attrs, max_var_storage = 0, remaining_var_storage = 0,
                  max_var_size = 0, lim_status = EFI_SUCCESS\<rparr>
      in case find (\<lambda>l. variable_limits_cmp goal l = 0) (mock_qvi_limits s) of
           None \<Rightarrow> (EFI_UNSUPPORTED, None)
         | Some l \<Rightarrow> (EFI_SUCCESS,
             Some (mock_cells s (max_var_storage l), mock_cells s (remaining_var_storage l),
                   mock_cells s (max_var_size l))))"

text \<open>The cells of \<^verbatim>\<open>default_max_var_storage\<close>, \<^verbatim>\<open>default_remaining_var_storage\<close> and
  \<^verbatim>\<open>default_max_var_size\<close> are at 0, 1 and 2.\<close>

definition default_limit :: "32 word \<Rightarrow> mock_variable_limits" where
  "default_limit attrs = \<lparr>lim_attrs = attrs, max_var_storage = 0, remaining_var_storage = 1,
     max_var_size = 2, lim_status = EFI_SUCCESS\<rparr>"

definition default_limits :: "mock_variable_limits list" where
  "default_limits =
     [default_limit EFI_VARIABLE_BOOTSERVICE_ACCESS,
      default_limit (EFI_VARIABLE_BOOTSERVICE_ACCESS OR EFI_VARIABLE_RUNTIME_ACCESS),
      default_limit (EFI_VARIABLE_BOOTSERVICE_ACCESS OR EFI_VARIABLE_NON_VOLATILE),
      default_limit (EFI_VARIABLE_BOOTSERVICE_ACCESS OR EFI_VARIABLE_RUNTIME_ACCESS OR
        EFI_VARIABLE_NON_VOLATILE),
      default_limit 0]"

text \<open>The array ends at the entry with no attributes.\<close>

definition mock_set_usage_limits :: "mock_variable_limits list \<Rightarrow> mock_state \<Rightarrow> mock_state" where
  "mock_set_usage_limits limits s =
     (let l = takeWhile (\<lambda>l. lim_attrs l \<noteq> 0) limits
      in s\<lparr>mock_qvi_limits := l, mock_sv_limits := l\<rparr>)"

definition mock_set_default_usage_limits :: "mock_state \<Rightarrow> mock_state" where
  "mock_set_default_usage_limits s =
     mock_set_usage_limits default_limits
       (s\<lparr>mock_cells := (mock_cells s)(0 := 65536, 1 := 65536, 2 := 32768)\<rparr>)"

text \<open>\<^verbatim>\<open>mock_reset_variables\<close>: every variable is deleted, then the list is emptied even if a
  deletion failed.\<close>

fun mock_delete_all :: "nat \<Rightarrow> nat \<Rightarrow> mock_state \<Rightarrow> mock_state" where
  "mock_delete_all 0 i s = s"
| "mock_delete_all (Suc n) i s =
     (case mock_delete_variable i s of
        (status, s1) \<Rightarrow> mock_delete_all n (if EFI_ERROR status then Suc i else i) s1)"

definition mock_reset_variables :: "mock_state \<Rightarrow> mock_state" where
  "mock_reset_variables s =
     (let s1 = mock_delete_all (length (mock_variables s)) 0 s
      in (mock_set_default_usage_limits (s1\<lparr>mock_variables := []\<rparr>))
           \<lparr>mock_variable_delete_attr_policy := 1\<rparr>)"

definition mock_install_query_variable_info :: "mock_state \<Rightarrow> mock_state" where
  "mock_install_query_variable_info s = s\<lparr>qvi_installed := True\<rparr>"

definition mock_uninstall_query_variable_info :: "mock_state \<Rightarrow> mock_state" where
  "mock_uninstall_query_variable_info s = s\<lparr>qvi_installed := False\<rparr>"

section \<open>The configuration table\<close>

definition mock_config_table_cmp :: "mock_sort_policy \<Rightarrow> efi_guid \<times> nat \<Rightarrow> efi_guid \<times> nat \<Rightarrow> int" where
  "mock_config_table_cmp policy p0 p1 =
     (let cmp = guidcmp (fst p0) (fst p1)
      in if policy = MOCK_SORT_DESCENDING then - cmp else cmp)"

text \<open>\<^verbatim>\<open>qsort\<close> with that comparison: the GUIDs of the table are distinct, so the result is
  determined.\<close>

fun insert_cmp :: "('a \<Rightarrow> 'a \<Rightarrow> int) \<Rightarrow> 'a \<Rightarrow> 'a list \<Rightarrow> 'a list" where
  "insert_cmp cmp x [] = [x]"
| "insert_cmp cmp x (y # ys) = (if cmp x y \<le> 0 then x # y # ys else y # insert_cmp cmp x ys)"

definition qsort :: "('a \<Rightarrow> 'a \<Rightarrow> int) \<Rightarrow> 'a list \<Rightarrow> 'a list" where
  "qsort cmp xs = foldr (insert_cmp cmp) xs []"

fun config_find :: "(efi_guid \<times> nat) list \<Rightarrow> efi_guid \<Rightarrow> nat \<Rightarrow> nat option" where
  "config_find [] guid i = None"
| "config_find (e # es) guid i =
     (if guidcmp guid (fst e) = 0 then Some i else config_find es guid (Suc i))"

definition mock_install_configuration_table ::
    "efi_guid \<Rightarrow> nat \<Rightarrow> mock_state \<Rightarrow> efi_status \<times> mock_state" where
  "mock_install_configuration_table guid table s =
     (let t = mock_config_table s; policy = mock_config_table_sort_policy s
      in case config_find t guid 0 of
           Some i \<Rightarrow>
             (EFI_SUCCESS, s\<lparr>mock_config_table :=
               (if table \<noteq> 0 then t[i := (fst (t ! i), table)] else take i t @ drop (Suc i) t)\<rparr>)
         | None \<Rightarrow>
             if table = 0 then (EFI_NOT_FOUND, s)
             else if length t = 1023 then (EFI_OUT_OF_RESOURCES, s)
             else (EFI_SUCCESS, s\<lparr>mock_config_table :=
               (case policy of
                  MOCK_SORT_PREPEND \<Rightarrow> (guid, table) # t
                | MOCK_SORT_APPEND \<Rightarrow> t @ [(guid, table)]
                | _ \<Rightarrow> qsort (mock_config_table_cmp policy) (t @ [(guid, table)]))\<rparr>))"

definition mock_reset_config_table :: "mock_state \<Rightarrow> mock_state" where
  "mock_reset_config_table s = s\<lparr>mock_config_table := []\<rparr>"

definition mock_finalize_vars_and_configs :: "mock_state \<Rightarrow> mock_state" where
  "mock_finalize_vars_and_configs s = mock_reset_config_table (mock_reset_variables s)"

section \<open>The order of the variables\<close>

definition full_key :: "ucs2 \<Rightarrow> efi_guid \<Rightarrow> int list" where
  "full_key n g = guid_key g @ map uint n"

definition vkey :: "mock_variable \<Rightarrow> int list" where
  "vkey v = full_key (v_name v) (v_guid v)"

text \<open>The sign of a comparison in a linear order.\<close>

definition cmp_sgn :: "'a::linorder \<Rightarrow> 'a \<Rightarrow> int" where
  "cmp_sgn x y = (if x < y then -1 else if x = y then 0 else 1)"

lemma length_guid_key: "length (guid_key g) = 11"
  by (cases g) simp

lemma guid_key_inj: "guid_key g = guid_key h \<Longrightarrow> g = h"
  by (cases g; cases h) (simp add: word_uint_eq_iff)

lemma map_uint_inj: "map uint s = map uint t \<longleftrightarrow> s = (t :: ucs2)"
  by (rule inj_map_eq_map) (simp add: inj_on_def word_uint_eq_iff)

lemma full_key_inj: "full_key n g = full_key m h \<longleftrightarrow> n = m \<and> g = h"
  using length_guid_key [of g] length_guid_key [of h] guid_key_inj [of g h]
  by (auto simp: full_key_def map_uint_inj)

lemma cmp_sgn_lists [simp]:
  "cmp_sgn [] [] = 0" "cmp_sgn [] (y # ys) = -1" "cmp_sgn (x # xs) [] = 1"
  "cmp_sgn (x # xs) (y # ys) = (if x = y then cmp_sgn xs ys else if x < y then -1 else 1)"
  by (auto simp: cmp_sgn_def)

lemma sgn_diff: "x \<noteq> y \<Longrightarrow> sgn (x - y :: int) = (if x < y then -1 else 1)"
  by (simp add: sgn_if)

lemma first_diff_sgn:
  "length xs = length ys \<Longrightarrow> sgn (first_diff xs ys) = cmp_sgn xs ys"
  by (induction xs ys rule: list_induct2) (auto simp: sgn_diff)

lemma StrCmp_sgn: "sgn (StrCmp s t) = cmp_sgn (map uint s) (map uint t)"
  by (induction s t rule: StrCmp.induct) (auto simp: sgn_diff word_uint_eq_iff)

lemma lex_append_less:
  fixes a c :: "'a::linorder list"
  shows "length a = length c \<Longrightarrow> a @ b < c @ d \<longleftrightarrow> a < c \<or> a = c \<and> b < d"
  by (induction a c rule: list_induct2) auto

lemma variable_cmp_sgn: "sgn (variable_cmp n g v) = cmp_sgn (full_key n g) (vkey v)"
proof -
  have l: "length (guid_key g) = length (guid_key (v_guid v))" by (simp add: length_guid_key)
  have "guidcmp g (v_guid v) = cmp_sgn (guid_key g) (guid_key (v_guid v))"
    unfolding guidcmp_def by (rule first_diff_sgn [OF l])
  then show ?thesis
    using l guid_key_inj [of g "v_guid v"] StrCmp_sgn [of n "v_name v"]
    by (auto simp: variable_cmp_def Let_def vkey_def full_key_def lex_append_less cmp_sgn_def
        sgn_mult split: if_splits)
qed

lemma variable_cmp_zero: "variable_cmp n g v = 0 \<longleftrightarrow> v_name v = n \<and> v_guid v = g"
  using variable_cmp_sgn [of n g v] full_key_inj [of n g "v_name v" "v_guid v"]
  by (auto simp: cmp_sgn_def vkey_def sgn_0_0 split: if_splits)

section \<open>The invariant of the list\<close>

fun mock_ordered :: "mock_sort_policy \<Rightarrow> mock_variable list \<Rightarrow> bool" where
  "mock_ordered MOCK_SORT_DESCENDING vs = sorted_wrt (\<lambda>a b. vkey b < vkey a) vs"
| "mock_ordered MOCK_SORT_ASCENDING vs = sorted_wrt (\<lambda>a b. vkey a < vkey b) vs"
| "mock_ordered _ vs = distinct (map vkey vs)"

definition mock_inv :: "mock_state \<Rightarrow> bool" where
  "mock_inv s \<longleftrightarrow> mock_ordered (mock_variable_sort_policy s) (mock_variables s) \<and>
     (\<forall>v \<in> set (mock_variables s). v_data v \<noteq> [])"

text \<open>The map that the list represents.\<close>

definition mock_entry :: "mock_variable \<Rightarrow> (ucs2 \<times> efi_guid) \<times> 32 word \<times> buf" where
  "mock_entry v = ((v_name v, v_guid v), v_attrs v, v_data v)"

definition mock_vars :: "mock_state \<Rightarrow> var_map" where
  "mock_vars s = map_of (map mock_entry (mock_variables s))"

lemma mock_ordered_distinct: "mock_ordered pol vs \<Longrightarrow> distinct (map vkey vs)"
proof (cases pol)
  assume "mock_ordered pol vs" and "pol = MOCK_SORT_DESCENDING"
  then show ?thesis by (induction vs) auto
next
  assume "mock_ordered pol vs" and "pol = MOCK_SORT_ASCENDING"
  then show ?thesis by (induction vs) auto
qed auto

lemma map_of_mid: "k \<notin> fst ` set xs \<Longrightarrow> map_of (xs @ (k, x) # ys) = (map_of (xs @ ys))(k \<mapsto> x)"
  by (induction xs) (auto simp: fun_upd_twist)

lemma map_of_del:
  "k \<notin> fst ` set xs \<Longrightarrow> k \<notin> fst ` set ys \<Longrightarrow>
    map_of (xs @ ys) = (map_of (xs @ (k, x) # ys))(k := None)"
proof -
  assume k: "k \<notin> fst ` set xs" "k \<notin> fst ` set ys"
  then have "map_of (xs @ ys) k = None" by (subst map_of_eq_None_iff) auto
  then show ?thesis using map_of_mid [OF k(1), of x ys] by (auto simp: fun_eq_iff)
qed

lemma mock_find:
  assumes "distinct (map vkey vs)"
  shows "map_of (map mock_entry vs) (n, g) = Some (a, d) \<longleftrightarrow>
    (\<exists>v \<in> set vs. vkey v = full_key n g \<and> v_attrs v = a \<and> v_data v = d)"
proof -
  have "distinct (map fst (map mock_entry vs))"
    using assms by (auto simp: distinct_map inj_on_def mock_entry_def vkey_def full_key_inj)
  then show ?thesis
    by (auto simp: map_of_eq_Some_iff mock_entry_def vkey_def full_key_inj image_iff)
qed

section \<open>GetVariable reads the map\<close>

lemma get_loop_spec:
  "mock_get_variable_loop vs n g sz has =
    (case map_of (map mock_entry vs) (n, g) of
       None \<Rightarrow> (EFI_NOT_FOUND, sz, None, [])
     | Some (a, d) \<Rightarrow>
         if length d > sz then (EFI_BUFFER_TOO_SMALL, length d, Some a, [])
         else if \<not> has then (EFI_INVALID_PARAMETER, sz, Some a, [])
         else (EFI_SUCCESS, length d, Some a, d))"
  by (induction vs) (auto simp: variable_cmp_zero mock_entry_def)

section \<open>SetVariable updates the map\<close>

lemma search_split:
  assumes "mock_sv_search pol n g vs i c = (j, found, cmp)"
  obtains pre post where "vs = pre @ post" "j = i + length pre"
    "\<forall>v \<in> set pre. \<not> mock_sv_found pol (cmp_sgn (full_key n g) (vkey v))"
    "post = [] \<Longrightarrow> \<not> found" "post \<noteq> [] \<Longrightarrow> found \<and>
       cmp = cmp_sgn (full_key n g) (vkey (hd post)) \<and> mock_sv_found pol cmp"
  using assms
proof (induction vs arbitrary: i c thesis)
  case Nil
  then show ?case by auto
next
  case (Cons v vs)
  let ?c = "sgn (variable_cmp n g v)"
  have c: "?c = cmp_sgn (full_key n g) (vkey v)" by (rule variable_cmp_sgn)
  show ?case
  proof (cases "mock_sv_found pol ?c")
    case True
    then show ?thesis using Cons.prems(2) c by (intro Cons.prems(1) [of "[]" "v # vs"]) auto
  next
    case False
    with Cons.prems(2) have s: "mock_sv_search pol n g vs (Suc i) ?c = (j, found, cmp)"
      by (simp add: Let_def)
    show ?thesis
    proof (rule Cons.IH [OF _ s], goal_cases)
      case (1 pre post)
      then show ?case using False c by (intro Cons.prems(1) [of "v # pre" post]) auto
    qed
  qed
qed

lemma found_zero: "mock_sv_found pol 0"
  by (cases pol) auto

lemma found_eq: "mock_sv_found pol (cmp_sgn k k)"
  by (simp add: cmp_sgn_def found_zero)

text \<open>A key that the search did not find is not in the list, and inserting it where the
  search stopped keeps the order.\<close>

lemma insert_ordered:
  assumes ord: "mock_ordered pol (pre @ post)"
    and pre: "\<forall>v \<in> set pre. \<not> mock_sv_found pol (cmp_sgn (vkey x) (vkey v))"
    and post: "post \<noteq> [] \<Longrightarrow> mock_sv_found pol (cmp_sgn (vkey x) (vkey (hd post))) \<and>
      cmp_sgn (vkey x) (vkey (hd post)) \<noteq> 0"
  shows "vkey x \<notin> vkey ` set (pre @ post)"
    and "mock_ordered pol (mock_insert (pol \<noteq> MOCK_SORT_PREPEND) (length pre) x (pre @ post))"
proof -
  have np: "vkey x \<notin> vkey ` set pre" using pre by (metis found_eq image_iff)
  have dist: "distinct (map vkey (pre @ post))" by (rule mock_ordered_distinct [OF ord])
  show key: "vkey x \<notin> vkey ` set (pre @ post)"
  proof (cases post)
    case Nil
    then show ?thesis using np by simp
  next
    case (Cons v post')
    then show ?thesis using np post ord
      by (cases pol) (force simp: sorted_wrt_append cmp_sgn_def split: if_splits)+
  qed
  show "mock_ordered pol (mock_insert (pol \<noteq> MOCK_SORT_PREPEND) (length pre) x (pre @ post))"
  proof (cases pol)
    case MOCK_SORT_DESCENDING
    then show ?thesis using ord pre post
      by (cases post) (force simp: mock_insert_def sorted_wrt_append cmp_sgn_def split: if_splits)+
  next
    case MOCK_SORT_ASCENDING
    then show ?thesis using ord pre post
      by (cases post) (force simp: mock_insert_def sorted_wrt_append cmp_sgn_def split: if_splits)+
  next
    case MOCK_SORT_APPEND
    then show ?thesis using dist key by (auto simp: mock_insert_def)
  next
    case MOCK_SORT_PREPEND
    then show ?thesis using dist key post by (cases post) (auto simp: mock_insert_def cmp_sgn_def)
  qed
qed

lemma insert_map:
  assumes "vkey x \<notin> vkey ` set vs" and "i \<le> length vs"
  shows "map_of (map mock_entry (mock_insert tail i x vs)) =
    (map_of (map mock_entry vs))((v_name x, v_guid x) \<mapsto> (v_attrs x, v_data x))"
proof -
  define j where "j = (if tail then i else if i = length vs then 0 else Suc i)"
  have n: "(v_name x, v_guid x) \<notin> fst ` set (map mock_entry (take j vs))"
    using assms(1) by (auto simp: mock_entry_def vkey_def full_key_inj dest!: in_set_takeD)
  have "map mock_entry (mock_insert tail i x vs) =
      map mock_entry (take j vs) @ ((v_name x, v_guid x), v_attrs x, v_data x) # map mock_entry (drop j vs)"
    by (simp add: mock_insert_def j_def Let_def mock_entry_def)
  then show ?thesis
    using map_of_mid [OF n, of "(v_attrs x, v_data x)" "map mock_entry (drop j vs)"]
    by (simp flip: map_append)
qed

lemma set_mock_insert: "i \<le> length vs \<Longrightarrow> set (mock_insert tail i x vs) = insert x (set vs)"
  by (auto simp: mock_insert_def Let_def dest: in_set_takeD in_set_dropD)
    (metis Un_iff append_take_drop_id set_append)+

lemma adjust_frame:
  assumes "mock_sv_adjust_usage_data attrs sz change s = (st, s1)"
  obtains cells where "s1 = s\<lparr>mock_cells := cells\<rparr>"
proof -
  have "mock_cells s1 = mock_cells s \<Longrightarrow> s1 = s \<Longrightarrow> thesis" using that [of "mock_cells s"] by simp
  then show thesis
    using assms that
    by (auto simp: mock_sv_adjust_usage_data_def Let_def split: option.splits if_splits)
qed

text \<open>What a step of \<^verbatim>\<open>SetVariable\<close> promises of the list: the invariant is kept, a failure
  leaves the variables alone, a success makes them \<open>m\<close>.\<close>

definition sv_refines :: "mock_state \<Rightarrow> efi_status \<Rightarrow> mock_state \<Rightarrow> var_map \<Rightarrow> bool" where
  "sv_refines s st s' m \<longleftrightarrow> mock_inv s' \<and> mock_vars s' = (if EFI_ERROR st then mock_vars s else m)"

lemma sv_refines_same:
  "mock_inv s \<Longrightarrow> EFI_ERROR st \<Longrightarrow> sv_refines s st (s\<lparr>mock_cells := c, mock_pool := p\<rparr>) m"
  "mock_inv s \<Longrightarrow> EFI_ERROR st \<Longrightarrow> sv_refines s st (s\<lparr>mock_cells := c\<rparr>) m"
  "mock_inv s \<Longrightarrow> EFI_ERROR st \<Longrightarrow> sv_refines s st s m"
  by (simp_all add: sv_refines_def mock_inv_def mock_vars_def)

lemma create_refines:
  assumes inv: "mock_inv s"
    and srch: "mock_sv_search (mock_variable_sort_policy s) n g (mock_variables s) 0 c = (pos, found, cmp)"
    and new: "cmp \<noteq> 0 \<or> \<not> found" and res: "mock_sv_create n g attrs data pos s = Some (st, s')"
  shows "sv_refines s st s' (var_update n g attrs data (mock_vars s))"
proof -
  let ?pol = "mock_variable_sort_policy s"
  let ?x = "\<lparr>v_name = n, v_guid = g, v_data = data, v_attrs = attrs\<rparr>"
  obtain pre post where pp: "mock_variables s = pre @ post" "pos = length pre"
      "\<forall>v \<in> set pre. \<not> mock_sv_found ?pol (cmp_sgn (vkey ?x) (vkey v))"
      "post = [] \<Longrightarrow> \<not> found" "post \<noteq> [] \<Longrightarrow> found \<and>
         cmp = cmp_sgn (vkey ?x) (vkey (hd post)) \<and> mock_sv_found ?pol cmp"
    by (rule search_split [OF srch]) (auto simp: vkey_def)
  have ord: "mock_ordered ?pol (pre @ post)" using inv pp(1) by (simp add: mock_inv_def)
  have post: "post \<noteq> [] \<Longrightarrow> mock_sv_found ?pol (cmp_sgn (vkey ?x) (vkey (hd post))) \<and>
      cmp_sgn (vkey ?x) (vkey (hd post)) \<noteq> 0"
    using pp(5) new by auto
  note ins = insert_ordered [OF ord pp(3) post]
  obtain st1 s1 where a: "mock_sv_adjust_usage_data attrs (length data)
      (ssize (- int (length data + StrSize n))) s = (st1, s1)" by fastforce
  obtain c1 where s1: "s1 = s\<lparr>mock_cells := c1\<rparr>" by (rule adjust_frame [OF a])
  show ?thesis
  proof (cases "EFI_ERROR st1")
    case True
    then show ?thesis using res a s1 inv by (auto simp: mock_sv_create_def intro: sv_refines_same)
  next
    case False
    then obtain var p where nv: "mock_new_variable n g attrs data (mock_pool s1) = Some (st, var, p)"
      using res a by (auto simp: mock_sv_create_def Let_def split: option.splits)
    show ?thesis
    proof (cases var)
      case None
      then have e: "EFI_ERROR st"
        using nv by (auto simp: mock_new_variable_def split: if_splits prod.splits)
      obtain st2 s2 where a2: "mock_sv_adjust_usage_data attrs 0
          (ssize (int (length data + StrSize n))) (s1\<lparr>mock_pool := p\<rparr>) = (st2, s2)" by fastforce
      obtain c2 where s2: "s2 = (s1\<lparr>mock_pool := p\<rparr>)\<lparr>mock_cells := c2\<rparr>" by (rule adjust_frame [OF a2])
      have "s' = s2" using None res a False nv a2 by (simp add: mock_sv_create_def Let_def)
      then have "s' = s\<lparr>mock_cells := c2, mock_pool := p\<rparr>" using s1 s2 by simp
      then show ?thesis using sv_refines_same(1) [OF inv e] by simp
    next
      case (Some v)
      then have v: "v = ?x" "st = EFI_SUCCESS" "data \<noteq> []"
        using nv by (auto simp: mock_new_variable_def split: if_splits prod.splits)
      have s': "s' = s\<lparr>mock_cells := c1, mock_pool := p, mock_variables :=
          mock_insert (?pol \<noteq> MOCK_SORT_PREPEND) pos ?x (pre @ post)\<rparr>"
        using Some res a False nv v s1 pp(1) by (simp add: mock_sv_create_def Let_def)
      have none: "mock_vars s (n, g) = None"
        using ins(1) by (auto simp: mock_vars_def pp(1) map_of_eq_None_iff mock_entry_def vkey_def
            full_key_inj image_iff)
      have "mock_vars s' = (mock_vars s)((n, g) \<mapsto> (attrs, data))"
        using insert_map [OF ins(1), of pos "?pol \<noteq> MOCK_SORT_PREPEND"] pp(2)
        by (simp add: mock_vars_def s' pp(1))
      moreover have "mock_inv s'"
        using inv ins(2) v(3) pp(1,2) by (auto simp: mock_inv_def s' set_mock_insert)
      ultimately show ?thesis
        using none v(2) by (simp add: sv_refines_def var_update_def)
    qed
  qed
qed

text \<open>An existing variable, at its position in the list.\<close>

lemma ordered_replace:
  "mock_ordered pol (pre @ v # post) \<Longrightarrow> vkey v' = vkey v \<Longrightarrow> mock_ordered pol (pre @ v' # post)"
  by (cases pol) (auto simp: sorted_wrt_append)

lemma ordered_remove: "mock_ordered pol (pre @ v # post) \<Longrightarrow> mock_ordered pol (pre @ post)"
  by (cases pol) (auto simp: sorted_wrt_append)

lemma entry_positions:
  assumes "mock_inv s" and "mock_variables s = pre @ v # post"
  shows "(v_name v, v_guid v) \<notin> fst ` set (map mock_entry pre)"
    and "(v_name v, v_guid v) \<notin> fst ` set (map mock_entry post)"
    and "mock_vars s (v_name v, v_guid v) = Some (v_attrs v, v_data v)"
proof -
  have "distinct (map vkey (pre @ v # post))"
    using assms mock_ordered_distinct [of "mock_variable_sort_policy s" "pre @ v # post"]
    by (simp add: mock_inv_def)
  then show 1: "(v_name v, v_guid v) \<notin> fst ` set (map mock_entry pre)"
    and "(v_name v, v_guid v) \<notin> fst ` set (map mock_entry post)"
    by (auto simp: mock_entry_def vkey_def full_key_inj image_iff)
  show "mock_vars s (v_name v, v_guid v) = Some (v_attrs v, v_data v)"
    using map_of_mid [OF 1, of "(v_attrs v, v_data v)" "map mock_entry post"]
    by (simp add: mock_vars_def assms(2) mock_entry_def)
qed

lemma replace_map:
  assumes "mock_inv s" and vs: "mock_variables s = pre @ v # post"
    and s': "mock_variables s' = pre @ v\<lparr>v_data := d\<rparr> # post"
      "mock_variable_sort_policy s' = mock_variable_sort_policy s" and "d \<noteq> []"
  shows "mock_inv s'" and "mock_vars s' = (mock_vars s)((v_name v, v_guid v) \<mapsto> (v_attrs v, d))"
proof -
  show "mock_inv s'"
    using assms ordered_replace [of _ pre v post "v\<lparr>v_data := d\<rparr>"]
    by (auto simp: mock_inv_def vkey_def)
  show "mock_vars s' = (mock_vars s)((v_name v, v_guid v) \<mapsto> (v_attrs v, d))"
    using map_of_mid [OF entry_positions(1) [OF assms(1) vs], of "(v_attrs v, d)" "map mock_entry post"]
      map_of_mid [OF entry_positions(1) [OF assms(1) vs], of "(v_attrs v, v_data v)" "map mock_entry post"]
    by (simp add: mock_vars_def vs s'(1) mock_entry_def)
qed

lemma delete_map:
  assumes "mock_inv s" and vs: "mock_variables s = pre @ v # post"
    and s': "mock_variables s' = pre @ post"
      "mock_variable_sort_policy s' = mock_variable_sort_policy s"
  shows "mock_inv s'" and "mock_vars s' = (mock_vars s)((v_name v, v_guid v) := None)"
proof -
  show "mock_inv s'" using assms ordered_remove [of _ pre v post] by (auto simp: mock_inv_def)
  show "mock_vars s' = (mock_vars s)((v_name v, v_guid v) := None)"
    using map_of_del [OF entry_positions(1,2) [OF assms(1) vs], of "(v_attrs v, v_data v)"]
    by (simp add: mock_vars_def vs s'(1) mock_entry_def)
qed

lemma existing_refines:
  assumes inv: "mock_inv s" and vs: "mock_variables s = pre @ v # post"
    and res: "mock_sv_existing attrs data (length pre) s = (st, s')"
  shows "sv_refines s st s' (var_update (v_name v) (v_guid v) attrs data (mock_vars s))"
proof -
  have nth: "mock_variables s ! length pre = v" by (simp add: vs)
  have nonempty: "v_data v \<noteq> []" using inv vs by (auto simp: mock_inv_def)
  note look = entry_positions(3) [OF inv vs]
  define ap where "ap \<longleftrightarrow> attrs AND EFI_VARIABLE_APPEND_WRITE \<noteq> 0"
  consider (err) "EFI_ERROR st" "s' = s"
    | (ext) "ap" "mock_sv_extend (length pre) data s = (st, s')"
    | (del) "\<not> ap" "data = []" "mock_delete_variable (length pre) s = (st, s')"
    | (rep) "\<not> ap" "data \<noteq> []" "mock_replace_variable (length pre) data s = (st, s')"
    using res by (auto simp: mock_sv_existing_def Let_def ap_def split: if_splits)
  then show ?thesis
  proof cases
    case err
    then show ?thesis using sv_refines_same(3) [OF inv] by simp
  next
    case ext
    have upd: "var_update (v_name v) (v_guid v) attrs data (mock_vars s) =
        (mock_vars s)((v_name v, v_guid v) \<mapsto> (v_attrs v, v_data v @ data))"
      using ext(1) look by (simp add: var_update_def ap_def)
    obtain st1 s1 where a: "mock_sv_adjust_usage_data (v_attrs v)
        (length (v_data v) + length data) (ssize (int (length data))) s = (st1, s1)" by fastforce
    obtain c1 where s1: "s1 = s\<lparr>mock_cells := c1\<rparr>" by (rule adjust_frame [OF a])
    obtain ok p where al: "AllocatePool (mock_pool s) (length (v_data v) + length data) = (ok, p)"
      by fastforce
    consider "data = []" "st = EFI_SUCCESS" "s' = s" | "EFI_ERROR st" "s' = s1"
      | "EFI_ERROR st" "s' = s1\<lparr>mock_pool := p\<rparr>"
      | "st = EFI_SUCCESS" "s' = s1\<lparr>mock_pool := p, mock_variables :=
          pre @ v\<lparr>v_data := v_data v @ data\<rparr> # post\<rparr>"
      using ext(2) a al s1 nth vs
      by (auto simp: mock_sv_extend_def Let_def list_update_append split: if_splits)
    then show ?thesis
    proof cases
      case 1
      then show ?thesis using inv upd look by (auto simp: sv_refines_def fun_upd_idem)
    next
      case 4
      then show ?thesis
        using replace_map [OF inv vs, of s' "v_data v @ data"] nonempty s1 upd
        by (simp add: sv_refines_def)
    qed (use s1 sv_refines_same [OF inv] in auto)
  next
    case del
    have upd: "var_update (v_name v) (v_guid v) attrs data (mock_vars s) =
        (mock_vars s)((v_name v, v_guid v) := None)"
      using del(1,2) look by (simp add: var_update_def ap_def)
    obtain st1 s1 where a: "mock_sv_adjust_usage_data (v_attrs v) 0
        (ssize (- int (length (v_data v)))) s = (st1, s1)" by fastforce
    obtain c1 where s1: "s1 = s\<lparr>mock_cells := c1\<rparr>" by (rule adjust_frame [OF a])
    consider "EFI_ERROR st" "s' = s1" | "st = EFI_SUCCESS" "s' = s1\<lparr>mock_variables := pre @ post\<rparr>"
      using del(3) a s1 nth vs by (auto simp: mock_delete_variable_def Let_def split: if_splits)
    then show ?thesis
    proof cases
      case 2
      then show ?thesis using delete_map [OF inv vs, of s'] s1 upd by (simp add: sv_refines_def)
    qed (use s1 sv_refines_same [OF inv] in auto)
  next
    case rep
    have upd: "var_update (v_name v) (v_guid v) attrs data (mock_vars s) =
        (mock_vars s)((v_name v, v_guid v) \<mapsto> (v_attrs v, data))"
      using rep(1,2) look by (simp add: var_update_def ap_def)
    obtain st1 s1 where a: "mock_sv_adjust_usage_data (v_attrs v) (length data)
        (ssize (- int (length (v_data v)) + int (length data))) s = (st1, s1)" by fastforce
    obtain c1 where s1: "s1 = s\<lparr>mock_cells := c1\<rparr>" by (rule adjust_frame [OF a])
    obtain ok p where al: "AllocatePool (mock_pool s) (length data) = (ok, p)" by fastforce
    consider "EFI_ERROR st" "s' = s1" | "EFI_ERROR st" "s' = s1\<lparr>mock_pool := p\<rparr>"
      | "st = EFI_SUCCESS" "s' = s1\<lparr>mock_pool := p, mock_variables := pre @ v\<lparr>v_data := data\<rparr> # post\<rparr>"
      using rep(3) a al s1 nth vs
      by (auto simp: mock_replace_variable_def Let_def list_update_append split: if_splits)
    then show ?thesis
    proof cases
      case 3
      then show ?thesis
        using replace_map [OF inv vs, of s' data] rep(2) s1 upd by (simp add: sv_refines_def)
    qed (use s1 sv_refines_same [OF inv] in auto)
  qed
qed

lemma set_variable_refines:
  assumes inv: "mock_inv s" and res: "mock_set_variable n g attrs data s = Some (st, s')"
  shows "sv_refines s st s' (var_update n g attrs data (mock_vars s))"
proof -
  obtain pos found cmp where srch: "mock_sv_search (mock_variable_sort_policy s) n g
      (mock_variables s) 0 (-1) = (pos, found, cmp)" by (metis prod_cases3)
  consider (bad) "EFI_ERROR st" "s' = s"
    | (new) "cmp \<noteq> 0 \<or> \<not> found" "mock_sv_create n g attrs data pos s = Some (st, s')"
    | (old) "cmp = 0" "found" "mock_sv_existing attrs data pos s = (st, s')"
    using res srch by (auto simp: mock_set_variable_def split: if_splits)
  then show ?thesis
  proof cases
    case bad
    then show ?thesis using sv_refines_same(3) [OF inv] by simp
  next
    case new
    then show ?thesis by (rule create_refines [OF inv srch])
  next
    case old
    obtain pre post where pp: "mock_variables s = pre @ post" "pos = length pre"
        "post = [] \<Longrightarrow> \<not> found" "post \<noteq> [] \<Longrightarrow> cmp = cmp_sgn (full_key n g) (vkey (hd post))"
      by (rule search_split [OF srch]) auto
    then obtain v post' where post: "post = v # post'" using old(2) by (cases post) auto
    have "vkey v = full_key n g"
      using pp(4) old(1) post by (auto simp: cmp_sgn_def split: if_splits)
    then have "v_name v = n" "v_guid v = g" by (auto simp: vkey_def full_key_inj)
    then show ?thesis
      using existing_refines [OF inv, of pre v post'] pp(1,2) post old(3) by auto
  qed
qed

section \<open>The mock store implements the variable services\<close>

text \<open>The table that \<^verbatim>\<open>mock_reset_variables\<close> installs; \<open>gt\<close> is the firmware's clock.\<close>

definition mock_rt :: "(mock_state \<Rightarrow> efi_status \<times> buf) \<Rightarrow> mock_state efi_rt" where
  "mock_rt gt = \<lparr>GetVariable = mock_get_variable, SetVariable = mock_set_variable,
     QueryVariableInfo = (\<lambda>attrs s. if qvi_installed s then mock_query_variable_info attrs s
       else (EFI_UNSUPPORTED, None)), GetTime = gt\<rparr>"

lemma mock_rt_simps [simp]:
  "GetVariable (mock_rt gt) = mock_get_variable" "SetVariable (mock_rt gt) = mock_set_variable"
  by (simp_all add: mock_rt_def)

interpretation mock: variable_services "mock_rt gt" mock_vars mock_inv for gt
proof unfold_locales
  fix w k a d assume "mock_inv w" "mock_vars w k = Some (a, d)"
  then show "d \<noteq> []"
    by (cases k) (auto simp: mock_vars_def mock_inv_def mock_find [OF mock_ordered_distinct])
next
  fix w n g st w' and at x assume "mock_inv w" "SetVariable (mock_rt gt) n g at x w = Some (st, w')"
  then have r: "sv_refines w st w' (var_update n g at x (mock_vars w))"
    by (intro set_variable_refines) auto
  show "mock_inv w'" using r by (simp add: sv_refines_def)
  show "EFI_ERROR st \<Longrightarrow> mock_vars w' = mock_vars w" using r by (simp add: sv_refines_def)
  show "\<not> EFI_ERROR st \<Longrightarrow> mock_vars w' = var_update n g at x (mock_vars w)"
    using r by (simp add: sv_refines_def)
qed (simp_all add: mock_get_variable_def get_loop_spec mock_vars_def)

text \<open>An empty store with the default limits, and the same store with one variable.\<close>

definition mock_empty :: mock_state where
  "mock_empty = mock_set_default_usage_limits
     \<lparr>mock_variables = [], mock_qvi_limits = [], mock_sv_limits = [], mock_cells = (\<lambda>_. 0),
      mock_variable_sort_policy = MOCK_SORT_ASCENDING, mock_variable_delete_attr_policy = 1,
      mock_pool = (\<lambda>_ _. True), mock_config_table = [],
      mock_config_table_sort_policy = MOCK_SORT_APPEND, qvi_installed = True\<rparr>"

definition sample_set :: "buf \<Rightarrow> mock_state \<Rightarrow> (efi_status \<times> mock_state) option" where
  "sample_set d s = mock_set_variable (wlit ''A'') SHIM_LOCK_GUID
     (EFI_VARIABLE_NON_VOLATILE OR EFI_VARIABLE_BOOTSERVICE_ACCESS) d s"

definition mock_sample :: mock_state where
  "mock_sample = snd (the (sample_set [1, 2] mock_empty))"

lemma mock_empty_inv: "mock_inv mock_empty"
  by (simp add: mock_inv_def mock_empty_def mock_set_default_usage_limits_def
      mock_set_usage_limits_def Let_def)

lemma sample_set_ok: "sample_set [1, 2] mock_empty = Some (EFI_SUCCESS, mock_sample)"
  unfolding mock_sample_def by (rule Some_pairI) code_simp+

lemma mock_sample_inv: "mock_inv mock_sample"
  using set_variable_refines [OF mock_empty_inv] sample_set_ok
  by (fastforce simp: sample_set_def sv_refines_def)

text \<open>The services over the mock store, with a clock that answers nothing.\<close>

abbreviation mock_rt0 :: "mock_state efi_rt" where
  "mock_rt0 \<equiv> mock_rt (\<lambda>_. (EFI_SUCCESS, []))"

text \<open>C21. The mock store refines a finite map: whatever the sort policy, every call of
  \<^verbatim>\<open>mock_set_variable\<close> that returns keeps one non-empty entry per name and GUID in the order
  of the policy; an error leaves the map of variables as it was, and a success creates,
  replaces, extends or deletes exactly the named variable.\<close>

theorem mock_set_variable_refinement:
  assumes "mock_inv s" and "mock_set_variable n g attrs data s = Some (st, s')"
  shows "mock_inv s' \<and>
    mock_vars s' = (if EFI_ERROR st then mock_vars s else var_update n g attrs data (mock_vars s))"
  using set_variable_refines [OF assms] by (simp add: sv_refines_def)

lemma mock_set_variable_refinement_witness:
  "mock_inv mock_sample \<and> mock_vars mock_sample =
    (if EFI_ERROR EFI_SUCCESS then mock_vars mock_empty
     else var_update (wlit ''A'') SHIM_LOCK_GUID
       (EFI_VARIABLE_NON_VOLATILE OR EFI_VARIABLE_BOOTSERVICE_ACCESS) [1, 2] (mock_vars mock_empty))"
  by (rule mock_set_variable_refinement [OF mock_empty_inv sample_set_ok [unfolded sample_set_def]])

lemma conj_at: "A \<and> (\<forall>k. P k \<longrightarrow> Q k) \<Longrightarrow> P k \<Longrightarrow> A \<and> Q k"
  by blast

text \<open>C22. Writing then reading: after \<^verbatim>\<open>set_variable\<close> succeeds with non-empty data and without
  the append attribute, \<^verbatim>\<open>get_variable\<close> returns exactly that data followed by three NUL bytes,
  and every other variable is as it was.\<close>

theorem set_get_variable:
  assumes "mock_inv s" and "set_variable (mock_rt gt) n g attrs data s = Some (EFI_SUCCESS, s')"
    and "attrs AND EFI_VARIABLE_APPEND_WRITE = 0" and "data \<noteq> []" and "pool_ok p"
  shows "get_variable (mock_rt gt) n g p s' =
      (EFI_SUCCESS, Some (data @ [0, 0, 0]), length data, \<lambda>k. p (Suc k)) \<and>
    (\<forall>k. k \<noteq> (n, g) \<longrightarrow> mock_vars s' k = mock_vars s k)"
  using mock.set_then_get [OF assms] mock.set_other [OF assms(1) assms(2) [unfolded set_variable_def]]
  by blast

lemma set_get_variable_witness:
  "get_variable (mock_rt (\<lambda>_. (EFI_SUCCESS, []))) (wlit ''A'') SHIM_LOCK_GUID (\<lambda>_ _. True) mock_sample =
      (EFI_SUCCESS, Some ([1, 2] @ [0, 0, 0]), length ([1, 2] :: buf), \<lambda>k. (\<lambda>_ _. True) (Suc k)) \<and>
    mock_vars mock_sample (wlit ''B'', SHIM_LOCK_GUID) = mock_vars mock_empty (wlit ''B'', SHIM_LOCK_GUID)"
  by (rule set_get_variable [OF mock_empty_inv, where attrs = "EFI_VARIABLE_NON_VOLATILE OR
        EFI_VARIABLE_BOOTSERVICE_ACCESS", THEN conj_at [where k = "(wlit ''B'', SHIM_LOCK_GUID)"]])
    (use sample_set_ok in \<open>simp_all add: set_variable_def sample_set_def attr_defs pool_ok_def wlit_def\<close>)

text \<open>C23. Deleting then reading: after \<^verbatim>\<open>del_variable\<close> succeeds, the variable is not found and
  every other variable is as it was.\<close>

theorem del_get_variable:
  assumes "mock_inv s" and "del_variable (mock_rt gt) n g s = Some (EFI_SUCCESS, s')"
  shows "get_variable (mock_rt gt) n g p s' = (EFI_NOT_FOUND, None, 0, p) \<and>
    (\<forall>k. k \<noteq> (n, g) \<longrightarrow> mock_vars s' k = mock_vars s k)"
  using mock.del_then_get [OF assms]
    mock.set_other [OF assms(1) assms(2) [unfolded del_variable_def set_variable_def]]
  by blast

lemma del_get_variable_witness:
  "\<exists>s'. del_variable mock_rt0 (wlit ''A'') SHIM_LOCK_GUID mock_sample = Some (EFI_SUCCESS, s') \<and>
    get_variable mock_rt0 (wlit ''A'') SHIM_LOCK_GUID (\<lambda>_ _. True) s' =
      (EFI_NOT_FOUND, None, 0, \<lambda>_ _. True) \<and>
    mock_vars s' (wlit ''B'', SHIM_LOCK_GUID) = mock_vars mock_sample (wlit ''B'', SHIM_LOCK_GUID)"
proof -
  have "case mock_set_variable (wlit ''A'') SHIM_LOCK_GUID 0 [] mock_sample of
      None \<Rightarrow> False | Some (st, _) \<Rightarrow> st = EFI_SUCCESS" by code_simp
  then obtain s' where d: "del_variable mock_rt0 (wlit ''A'') SHIM_LOCK_GUID mock_sample = Some (EFI_SUCCESS, s')"
    by (auto simp: del_variable_def set_variable_def split: option.splits)
  have "(wlit ''B'', SHIM_LOCK_GUID) \<noteq> (wlit ''A'', SHIM_LOCK_GUID)" by (simp add: wlit_def)
  with d del_get_variable [OF mock_sample_inv d, of "\<lambda>_ _. True"] show ?thesis by blast
qed

text \<open>C24. Enrolling a hash in a variable that holds well-formed signature lists and whose owner is not that of
  the firmware databases, when allocations succeed. If it succeeds, the variable holds the old bytes followed by
  the new list, whose field \<^verbatim>\<open>SignatureHeaderSize\<close> is what the stack held. If those four bytes are zero, the
  variable holds the old lists and a list with the hash, every search for the hash succeeds from then on, and
  enrolling it again reports that it is already there.\<close>

theorem enroll_hash_found:
  assumes "mock_inv s" and "mock_vars s (n, g) = Some (a, esls_encode ls)" and "pool_ok p"
    and "list_all esl_wf ls" and "\<not> esl_has hash ls" and "length hash = 32" and "g \<noteq> SIG_DB"
    and "variable_enroll_hash (mock_rt gt) n g hash junk p s = Some (EFI_SUCCESS, s', p')"
  shows "mock_vars s' (n, g) = Some (a, esls_encode ls @ enroll_sig junk hash) \<and>
    (take 4 (drop 20 junk) = [0, 0, 0, 0] \<longrightarrow>
      mock_vars s' (n, g) = Some (a, esls_encode (ls @ [hash_esl hash])) \<and>
      find_in_variable_esl (mock_rt gt) n g hash p s' = Some (EFI_SUCCESS, \<lambda>k. p (Suc k)) \<and>
      variable_enroll_hash (mock_rt gt) n g hash junk p s' =
        Some (EFI_ALREADY_STARTED, s', \<lambda>k. p (Suc k)))"
proof -
  have set: "SetVariable (mock_rt gt) n g (EFI_VARIABLE_NON_VOLATILE OR EFI_VARIABLE_BOOTSERVICE_ACCESS OR
      EFI_VARIABLE_APPEND_WRITE) (enroll_sig junk hash) s = Some (EFI_SUCCESS, s')"
    using assms(5,7,8) mock.find_in_variable_esl_exact [OF assms(1-4), of gt hash]
    by (auto simp: variable_enroll_hash_def)
  then have inv: "mock_inv s'" by (rule mock.set_inv [OF assms(1)])
  have "mock_vars s' (n, g) = Some (a, esls_encode ls @ enroll_sig junk hash)"
    using mock.set_ok [OF assms(1) set] assms(2,6) by (simp add: var_update_def attr_defs enroll_sig_def)
  moreover have "mock_vars s' (n, g) = Some (a, esls_encode (ls @ [hash_esl hash])) \<and>
      find_in_variable_esl (mock_rt gt) n g hash p s' = Some (EFI_SUCCESS, \<lambda>k. p (Suc k)) \<and>
      variable_enroll_hash (mock_rt gt) n g hash junk p s' = Some (EFI_ALREADY_STARTED, s', \<lambda>k. p (Suc k))"
    if "take 4 (drop 20 junk) = [0, 0, 0, 0]"
  proof -
    note e = mock.enroll_hash_adds [OF assms(1-6) that assms(7,8)]
    show ?thesis
      using e mock.find_in_variable_esl_exact [OF inv e(1) assms(3), of gt hash]
        mock.enroll_hash_twice [OF inv e(1) assms(3), of hash gt junk] by simp
  qed
  ultimately show ?thesis by blast
qed

definition sample_esl_set :: "(efi_status \<times> mock_state) option" where
  "sample_esl_set = sample_set (esls_encode [sample_esl]) mock_empty"

definition mock_esl :: mock_state where
  "mock_esl = snd (the sample_esl_set)"

definition sample_enroll :: "(efi_status \<times> mock_state \<times> pool) option" where
  "sample_enroll = variable_enroll_hash (mock_rt (\<lambda>_. (EFI_SUCCESS, []))) (wlit ''A'') SHIM_LOCK_GUID
     (replicate 32 5) (replicate 76 0) (\<lambda>_ _. True) mock_esl"

lemma sample_esl_set_ok: "sample_esl_set = Some (EFI_SUCCESS, mock_esl)"
  unfolding mock_esl_def by (rule Some_pairI) code_simp+

lemma mock_esl_inv: "mock_inv mock_esl"
  and mock_esl_vars: "mock_vars mock_esl (wlit ''A'', SHIM_LOCK_GUID) =
    Some (EFI_VARIABLE_NON_VOLATILE OR EFI_VARIABLE_BOOTSERVICE_ACCESS, esls_encode [sample_esl])"
proof -
  have "sv_refines mock_empty EFI_SUCCESS mock_esl (var_update (wlit ''A'') SHIM_LOCK_GUID
      (EFI_VARIABLE_NON_VOLATILE OR EFI_VARIABLE_BOOTSERVICE_ACCESS) (esls_encode [sample_esl])
      (mock_vars mock_empty))"
    using set_variable_refines [OF mock_empty_inv] sample_esl_set_ok
    by (simp add: sample_esl_set_def sample_set_def)
  moreover have "mock_vars mock_empty (wlit ''A'', SHIM_LOCK_GUID) = None" by code_simp
  ultimately show "mock_inv mock_esl" and "mock_vars mock_esl (wlit ''A'', SHIM_LOCK_GUID) =
    Some (EFI_VARIABLE_NON_VOLATILE OR EFI_VARIABLE_BOOTSERVICE_ACCESS, esls_encode [sample_esl])"
    by (simp_all add: sv_refines_def var_update_def)
qed

lemma sample_enroll_ok:
  "sample_enroll = Some (EFI_SUCCESS, fst (snd (the sample_enroll)), snd (snd (the sample_enroll)))"
proof -
  have "sample_enroll = Some (EFI_SUCCESS, snd (the sample_enroll))"
    by (rule Some_pairI) code_simp+
  then show ?thesis by simp
qed

lemma enroll_hash_found_witness:
  "mock_vars (fst (snd (the sample_enroll))) (wlit ''A'', SHIM_LOCK_GUID) =
      Some (EFI_VARIABLE_NON_VOLATILE OR EFI_VARIABLE_BOOTSERVICE_ACCESS,
        esls_encode ([sample_esl] @ [hash_esl (replicate 32 5)])) \<and>
    find_in_variable_esl (mock_rt (\<lambda>_. (EFI_SUCCESS, []))) (wlit ''A'') SHIM_LOCK_GUID (replicate 32 5)
      (\<lambda>_ _. True) (fst (snd (the sample_enroll))) = Some (EFI_SUCCESS, \<lambda>k. (\<lambda>_ _. True) (Suc k)) \<and>
    variable_enroll_hash (mock_rt (\<lambda>_. (EFI_SUCCESS, []))) (wlit ''A'') SHIM_LOCK_GUID (replicate 32 5)
      (replicate 76 0) (\<lambda>_ _. True) (fst (snd (the sample_enroll))) =
      Some (EFI_ALREADY_STARTED, fst (snd (the sample_enroll)), \<lambda>k. (\<lambda>_ _. True) (Suc k))"
proof -
  have w: "list_all esl_wf [sample_esl]" by (simp add: sample_esl_def esl_wf_def esl_listsize_def)
  have n: "\<not> esl_has (replicate 32 5) [sample_esl]" by code_simp
  have z: "take 4 (drop 20 (replicate 76 0)) = [0, 0, 0, 0 :: byte]" by code_simp
  have g: "SHIM_LOCK_GUID \<noteq> SIG_DB" by (simp add: SHIM_LOCK_GUID_def SIG_DB_def)
  have p: "pool_ok (\<lambda>_ _. True)" by (simp add: pool_ok_def)
  have e: "variable_enroll_hash (mock_rt (\<lambda>_. (EFI_SUCCESS, []))) (wlit ''A'') SHIM_LOCK_GUID
      (replicate 32 5) (replicate 76 0) (\<lambda>_ _. True) mock_esl =
    Some (EFI_SUCCESS, fst (snd (the sample_enroll)), snd (snd (the sample_enroll)))"
    using sample_enroll_ok by (simp add: sample_enroll_def)
  show ?thesis
    using enroll_hash_found [OF mock_esl_inv mock_esl_vars p w n length_replicate g e] z by blast
qed

section \<open>Sample stores\<close>

text \<open>The store after a list of writes, used to evaluate the code on concrete variables.\<close>

fun mock_sets :: "(ucs2 \<times> efi_guid \<times> 32 word \<times> buf) list \<Rightarrow> mock_state \<Rightarrow> mock_state option" where
  "mock_sets [] s = Some s"
| "mock_sets ((n, g, a, d) # vs) s =
     (case mock_set_variable n g a d s of
        None \<Rightarrow> None
      | Some (st, s1) \<Rightarrow> if EFI_ERROR st then None else mock_sets vs s1)"

lemma mock_sets_inv:
  "mock_inv s \<Longrightarrow> mock_sets vs s = Some s' \<Longrightarrow> mock_inv s'"
proof (induction vs arbitrary: s)
  case Nil
  then show ?case by simp
next
  case (Cons v vs)
  obtain n g a d where v: "v = (n, g, a, d)" by (cases v) auto
  then obtain st s1 where s1: "mock_set_variable n g a d s = Some (st, s1)" "mock_sets vs s1 = Some s'"
    using Cons.prems(2) by (auto split: option.splits if_splits)
  have "mock_inv s1" using set_variable_refines [OF Cons.prems(1) s1(1)] by (simp add: sv_refines_def)
  then show ?case using Cons.IH s1(2) by blast
qed

definition mock_store :: "(ucs2 \<times> efi_guid \<times> 32 word \<times> buf) list \<Rightarrow> mock_state" where
  "mock_store vs = the (mock_sets vs mock_empty)"

lemma mock_store_inv: "\<not> Option.is_none (mock_sets vs mock_empty) \<Longrightarrow> mock_inv (mock_store vs)"
  using mock_sets_inv [OF mock_empty_inv] by (auto simp: mock_store_def Option.is_none_def)

section \<open>Defects\<close>

text \<open>What the stack holds matters: with 16 in the place of the header size, the search for
  the enrolled hash leaves the buffer.\<close>

lemma enroll_sig_junk:
  "find_in_esl (enroll_sig (replicate 20 0 @ [16] @ replicate 55 0) (replicate 32 5) @ [0, 0, 0]) 76
    (replicate 32 5) = None"
  by code_simp

text \<open>\<^verbatim>\<open>get_variable_size\<close> fails on every variable that exists.\<close>

lemma get_variable_size_broken:
  assumes "mock_inv s" and "mock_vars s (n, g) = Some (a, d)"
  shows "get_variable_size (mock_rt gt) n g p s = (EFI_INVALID_PARAMETER, None)"
  by (rule mock.get_variable_size_some [OF assms])

text \<open>Deleting a variable lowers the remaining storage again instead of giving it back.\<close>

lemma delete_lowers_storage:
  "(mock_cells mock_empty 1, mock_cells mock_sample 1,
    mock_cells (snd (the (mock_set_variable (wlit ''A'') SHIM_LOCK_GUID 0 [] mock_sample))) 1) =
   (65536, 65530, 65528)"
  by code_simp

end
