(* ===== verification/Sbat_Level.thy ===== *)
theory Sbat_Level
  imports Sbat Mock_Variables
begin

text \<open>
  The update of the \<^verbatim>\<open>SbatLevel\<close>, \<^verbatim>\<open>SkuSiPolicyVersion\<close> and \<^verbatim>\<open>SkuSiPolicyUpdateSigners\<close> variables:
  the second half of \<^verbatim>\<open>sbat.c\<close>, with the constants of \<^verbatim>\<open>sbat.h\<close>, \<^verbatim>\<open>sbat_var_defs.h\<close>, \<^verbatim>\<open>ssp.h\<close> and
  \<^verbatim>\<open>ssp_var_defs.h\<close>. The lemmas are proved against the contract of the variable services and
  show which values the variables can have afterwards.
\<close>

section \<open>Constants\<close>

definition UEFI_VAR_NV_BS :: "32 word" where
  "UEFI_VAR_NV_BS = EFI_VARIABLE_NON_VOLATILE OR EFI_VARIABLE_BOOTSERVICE_ACCESS"

definition UEFI_VAR_NV_BS_TIMEAUTH :: "32 word" where
  "UEFI_VAR_NV_BS_TIMEAUTH =
     UEFI_VAR_NV_BS OR EFI_VARIABLE_TIME_BASED_AUTHENTICATED_WRITE_ACCESS"

definition SBAT_POLICY :: ucs2 where "SBAT_POLICY = wlit ''SbatPolicy''"
definition SSP_POLICY :: ucs2 where "SSP_POLICY = wlit ''SSPPolicy''"

definition POLICY_LATEST :: byte where "POLICY_LATEST = 1"
definition POLICY_AUTOMATIC :: byte where "POLICY_AUTOMATIC = 2"
definition POLICY_RESET :: byte where "POLICY_RESET = 3"
definition POLICY_NOTREAD :: byte where "POLICY_NOTREAD = 255"

definition SBAT_VAR_SIG :: buf where "SBAT_VAR_SIG = lit ''sbat,''"
definition SBAT_VAR_ORIGINAL_DATE :: buf where "SBAT_VAR_ORIGINAL_DATE = lit ''2021030218''"
definition SBAT_VAR_ORIGINAL :: buf where
  "SBAT_VAR_ORIGINAL = SBAT_VAR_SIG @ lit ''1,'' @ SBAT_VAR_ORIGINAL_DATE @ [0x0A]"

definition SSPVER_VAR_NAME :: ucs2 where "SSPVER_VAR_NAME = wlit ''SkuSiPolicyVersion''"
definition SSPSIG_VAR_NAME :: ucs2 where "SSPSIG_VAR_NAME = wlit ''SkuSiPolicyUpdateSigners''"
definition SSPVER_SIZE :: nat where "SSPVER_SIZE = 8"
definition SSPSIG_SIZE :: nat where "SSPSIG_SIZE = 131"

definition SkuSiPolicyVersion :: buf where
  "SkuSiPolicyVersion = [2, 0, 0, 0, 0, 0, 2, 0]"

definition SkuSiPolicyUpdateSigners :: buf where
  "SkuSiPolicyUpdateSigners =
     [0x01,0x00,0x00,0x00,0x06,0x00,0x00,0x00,0x00,0x00,0x00,0x00,0x00,0x00,0x00,0x00,
      0x00,0x00,0x00,0x00,0x00,0x00,0x00,0x00,0x00,0x00,0x00,0x00,0x01,0x00,0x00,0x00,
      0x0b,0x00,0x00,0x00,0xd0,0x91,0x73,0x00,0x00,0x00,0x00,0x00,0x00,0x00,0x02,0x00,
      0x00,0x00,0x00,0x00,0x54,0xa6,0x78,0x00,0x00,0x00,0x00,0x00,0x00,0x00,0x02,0x00,
      0x00,0x00,0x00,0x00,0x5c,0xa6,0x78,0x00,0x00,0x00,0x00,0x00,0x00,0x00,0x02,0x00,
      0x00,0x00,0x00,0x00,0x64,0xa6,0x78,0x00,0x00,0x00,0x00,0x00,0x00,0x00,0x00,0x00,
      0x00,0x00,0x00,0x00,0x00,0x00,0x00,0x00,0x00,0x00,0x00,0x00,0x00,0x00,0x00,0x00,
      0x00,0x00,0x00,0x00,0x0a,0x2b,0x06,0x01,0x04,0x01,0x82,0x37,0x0a,0x03,0x06,0x00,
      0x00,0x00,0x00]"

section \<open>Comparing levels\<close>

definition check_sbat_var_attributes :: "32 word \<Rightarrow> bool" where
  "check_sbat_var_attributes attributes \<longleftrightarrow>
     attributes = UEFI_VAR_NV_BS \<or> attributes = UEFI_VAR_NV_BS_TIMEAUTH"

function nth_sbat_field_from :: "buf \<Rightarrow> nat \<Rightarrow> nat \<Rightarrow> nat \<Rightarrow> nat \<Rightarrow> nat option" where
  "nth_sbat_field_from b str limit n i =
     (if \<not> i < limit then Some (str + i)
      else case rd b (str + i) of
        None \<Rightarrow> None
      | Some c \<Rightarrow>
          if c = 0 then Some (str + i)
          else if n = 0 then Some (str + i)
          else nth_sbat_field_from b str limit (if c = 0x2C then n - 1 else n) (i + 1))"
  by pat_completeness auto
termination
  by (relation "measure (\<lambda>(b, str, limit, n, i). limit - i)") auto

declare nth_sbat_field_from.simps [simp del]

definition nth_sbat_field :: "buf \<Rightarrow> nat \<Rightarrow> nat \<Rightarrow> nat \<Rightarrow> nat option" where
  "nth_sbat_field b str limit n = nth_sbat_field_from b str limit n 0"

text \<open>\<^verbatim>\<open>preserve_sbat_uefi_variable\<close>: the lengths are differences of pointers, truncated to \<^verbatim>\<open>int\<close>, and a negative
  one becomes a large \<^verbatim>\<open>size_t\<close> when it is passed to \<^verbatim>\<open>strncmp\<close>.\<close>

definition to_int :: "int \<Rightarrow> int" where
  "to_int x = (x + 2 ^ 31) mod 2 ^ 32 - 2 ^ 31"

lemma to_int_eq: "0 \<le> x \<Longrightarrow> x < 2 ^ 31 \<Longrightarrow> to_int x = x"
  by (simp add: to_int_def)

definition preserve_sbat_uefi_variable :: "buf \<Rightarrow> nat \<Rightarrow> 32 word \<Rightarrow> buf \<Rightarrow> bool option" where
  "preserve_sbat_uefi_variable sbat sbatsize attributes sbat_var =
     (if \<not> check_sbat_var_attributes attributes then Some False
      else if sbatsize < length SBAT_VAR_ORIGINAL then Some False
      else case strncmp sbat 0 (SBAT_VAR_SIG @ [0]) 0 (length SBAT_VAR_SIG) of
        None \<Rightarrow> None
      | Some d \<Rightarrow>
          if d \<noteq> 0 then Some False
          else (case (nth_sbat_field sbat 0 sbatsize 1, strlen sbat_var 0) of
            (Some current_version, Some l) \<Rightarrow>
              (case (nth_sbat_field sbat_var 0 (l + 1) 1, nth_sbat_field sbat 0 sbatsize 2,
                     nth_sbat_field sbat_var 0 (l + 1) 2) of
                 (Some new_version, Some current_datestamp, Some new_datestamp) \<Rightarrow>
                   (let current_version_len = to_int (int current_datestamp - int current_version - 1);
                        new_version_len = to_int (int new_datestamp - int new_version - 1)
                    in
                    case (if current_version_len > new_version_len then Some True
                          else if current_version_len = new_version_len then
                            map_option (\<lambda>r. r > 0)
                              (strncmp sbat current_version sbat_var new_version
                                 (nat (new_version_len mod 2 ^ 64)))
                          else Some False) of
                      None \<Rightarrow> None
                    | Some True \<Rightarrow> Some True
                    | Some False \<Rightarrow>
                        map_option (\<lambda>r. r \<ge> 0)
                          (strncmp sbat current_datestamp sbat_var new_datestamp
                             (length SBAT_VAR_ORIGINAL_DATE)))
               | _ \<Rightarrow> None)
          | _ \<Rightarrow> None))"

definition ssp_ver_to_ull :: "buf \<Rightarrow> nat option" where
  "ssp_ver_to_ull ver =
     (case (rd16 ver 0, rd16 ver 2, rd16 ver 4, rd16 ver 6) of
        (Some v0, Some v1, Some v2, Some v3) \<Rightarrow>
          Some (v0 * 2 ^ 48 + v1 * 2 ^ 32 + v2 * 2 ^ 16 + v3)
      | _ \<Rightarrow> None)"

definition preserve_ssp_uefi_variable ::
    "buf option \<Rightarrow> nat \<Rightarrow> 32 word \<Rightarrow> buf option \<Rightarrow> bool option" where
  "preserve_ssp_uefi_variable ssp_applied sspversize attributes ssp_candidate =
     (case (ssp_applied, ssp_candidate) of
        (Some applied, Some cand) \<Rightarrow>
          if sspversize \<noteq> SSPVER_SIZE then Some False
          else if \<not> check_sbat_var_attributes attributes then Some False
          else (case (ssp_ver_to_ull applied, ssp_ver_to_ull cand) of
                  (Some old, Some new) \<Rightarrow> Some (\<not> new > old)
                | _ \<Rightarrow> None)
      | _ \<Rightarrow> Some False)"

section \<open>Updating the variables\<close>

text \<open>The globals of \<^verbatim>\<open>sbat.c\<close>: the policies, and the revocation list \<^verbatim>\<open>sbat_var\<close>.\<close>

record sbat_globals =
  sbat_policy :: byte
  ssp_policy :: byte
  sbat_var :: sbat_vars

text \<open>\<^verbatim>\<open>clear_sbat_policy\<close> and \<^verbatim>\<open>clear_ssp_policy\<close>: an error is reported on the console only.\<close>

definition clear_sbat_policy :: "'w efi_rt \<Rightarrow> 'w \<Rightarrow> 'w option" where
  "clear_sbat_policy rt w = map_option snd (del_variable rt SBAT_POLICY SHIM_LOCK_GUID w)"

definition clear_ssp_policy :: "'w efi_rt \<Rightarrow> 'w \<Rightarrow> 'w option" where
  "clear_ssp_policy rt w = map_option snd (del_variable rt SSP_POLICY SHIM_LOCK_GUID w)"

text \<open>The first block of \<^verbatim>\<open>set_sbat_uefi_variable\<close> and of \<^verbatim>\<open>set_ssp_uefi_variable\<close>: read the policy
  variable once, and delete it. The result is the status, the policy and the firmware's
  state.\<close>

definition read_policy ::
    "'w efi_rt \<Rightarrow> ucs2 \<Rightarrow> ('w \<Rightarrow> 'w option) \<Rightarrow> byte \<Rightarrow> pool \<Rightarrow> 'w
      \<Rightarrow> (efi_status \<times> byte \<times> 'w \<times> pool) option" where
  "read_policy rt name clear policy p w =
     (if policy = POLICY_NOTREAD then
        (case get_variable_attr rt name True SHIM_LOCK_GUID p w of
           (st, d, _, _, p1) \<Rightarrow>
             if EFI_ERROR st then Some (st, policy, w, p1)
             else (case rd (the d) 0 of
                     None \<Rightarrow> None
                   | Some c \<Rightarrow> (case clear w of None \<Rightarrow> None | Some w' \<Rightarrow> Some (st, c, w', p1))))
      else Some (EFI_SUCCESS, policy, w, p))"

text \<open>The choice of the candidate in \<^verbatim>\<open>set_sbat_uefi_variable\<close>: \<open>secure\<close> is the value of
  \<^verbatim>\<open>secure_mode()\<close>, and the result is \<^verbatim>\<open>reset_sbat\<close> and \<^verbatim>\<open>sbat_var_candidate\<close>.\<close>

definition sbat_candidate :: "bool \<Rightarrow> efi_status \<Rightarrow> byte \<Rightarrow> buf \<Rightarrow> buf \<Rightarrow> bool \<times> buf" where
  "sbat_candidate secure st policy automatic latest =
     (let default = (if secure then (False, automatic) else (True, SBAT_VAR_ORIGINAL @ [0]))
      in if EFI_ERROR st then default
         else if policy = POLICY_LATEST then (False, latest)
         else if policy = POLICY_AUTOMATIC then (False, automatic)
         else if policy = POLICY_RESET then default
         else default)"

text \<open>The end of \<^verbatim>\<open>set_sbat_uefi_variable\<close>: write the candidate and read it back.\<close>

definition write_sbat_level ::
    "'w efi_rt \<Rightarrow> buf \<Rightarrow> pool \<Rightarrow> 'w \<Rightarrow> (efi_status \<times> 'w \<times> pool) option" where
  "write_sbat_level rt candidate p w =
     (case cstr candidate 0 of
        None \<Rightarrow> None
      | Some s \<Rightarrow>
          (case set_variable rt SBAT_VAR_NAME SHIM_LOCK_GUID UEFI_VAR_NV_BS s w of
             None \<Rightarrow> None
           | Some (st, w1) \<Rightarrow>
               if EFI_ERROR st then Some (st, w1, p)
               else (case get_variable rt SBAT_VAR_NAME SHIM_LOCK_GUID p w1 of
                 (st2, sbat, sbatsize, p1) \<Rightarrow>
                   if EFI_ERROR st2 then Some (st2, w1, p1)
                   else if sbatsize \<noteq> length s then Some (EFI_INVALID_PARAMETER, w1, p1)
                   else (case strncmp (the sbat) 0 candidate 0 (length s) of
                           None \<Rightarrow> None
                         | Some d \<Rightarrow>
                             Some (if d \<noteq> 0 then EFI_INVALID_PARAMETER else st2, w1, p1)))))"

text \<open>The last branch of \<^verbatim>\<open>set_sbat_uefi_variable\<close>, for a level that is replaced: parse the
  candidate into \<^verbatim>\<open>sbat_var\<close>, check shim's own section against it, delete the variable and
  write the candidate. \<open>own\<close> is the memory from \<^verbatim>\<open>_sbat\<close> to \<^verbatim>\<open>_esbat\<close>, and \<open>junk\<close> the byte that
  \<^verbatim>\<open>parse_sbat_var\<close> does not initialise.\<close>

definition replace_sbat_level ::
    "'w efi_rt \<Rightarrow> bool \<Rightarrow> buf \<Rightarrow> byte \<Rightarrow> 32 word \<Rightarrow> buf \<Rightarrow> sbat_globals \<Rightarrow> pool \<Rightarrow> 'w
      \<Rightarrow> (efi_status \<times> sbat_globals \<times> 'w \<times> pool) option" where
  "replace_sbat_level rt in_protocol own junk attributes candidate s p w =
     (case parse_sbat_var rt (sbat_var s) (Some candidate) junk p w of
        None \<Rightarrow> None
      | Some (st, v, p1) \<Rightarrow>
          (let s1 = s\<lparr>sbat_var := v\<rparr> in
           if EFI_ERROR st then Some (st, s1, w, p1)
           else (case verify_sbat_section v in_protocol own (Some 0) (length own - 1) p1 of
             None \<Rightarrow> None
           | Some (st2, p2) \<Rightarrow>
               if EFI_ERROR st2 then Some (st2, s1, w, p2)
               else (case set_variable rt SBAT_VAR_NAME SHIM_LOCK_GUID attributes [] w of
                 None \<Rightarrow> None
               | Some (st3, w1) \<Rightarrow>
                   if EFI_ERROR st3 then Some (st3, s1, w1, p2)
                   else map_option (\<lambda>(r, w', p'). (r, s1, w', p'))
                          (write_sbat_level rt candidate p2 w1)))))"

definition set_sbat_uefi_variable ::
    "'w efi_rt \<Rightarrow> nat \<Rightarrow> bool \<Rightarrow> buf \<Rightarrow> byte \<Rightarrow> buf \<Rightarrow> buf \<Rightarrow> sbat_globals \<Rightarrow> pool \<Rightarrow> 'w
      \<Rightarrow> (efi_status \<times> sbat_globals \<times> 'w \<times> pool) option" where
  "set_sbat_uefi_variable rt insecure in_protocol own junk automatic latest s p w =
     (case read_policy rt SBAT_POLICY (clear_sbat_policy rt) (sbat_policy s) p w of
        None \<Rightarrow> None
      | Some (st, policy, w1, p1) \<Rightarrow>
          (case sbat_candidate (secure_mode rt insecure w1) st policy automatic latest of
             (reset_sbat, candidate) \<Rightarrow>
               (case get_variable_attr rt SBAT_VAR_NAME True SHIM_LOCK_GUID p1 w1 of
                  (st2, sbat, sbatsize, attributes, p2) \<Rightarrow>
                    if EFI_ERROR st2 then
                      map_option (\<lambda>(r, w', p'). (r, s\<lparr>sbat_policy := policy\<rparr>, w', p'))
                        (write_sbat_level rt candidate p2 w1)
                    else (case (if reset_sbat then Some False
                                else preserve_sbat_uefi_variable (the sbat) sbatsize
                                       (the attributes) candidate) of
                      None \<Rightarrow> None
                    | Some True \<Rightarrow> Some (EFI_SUCCESS, s\<lparr>sbat_policy := policy\<rparr>, w1, p2)
                    | Some False \<Rightarrow>
                        replace_sbat_level rt in_protocol own junk (the attributes) candidate
                          (s\<lparr>sbat_policy := policy\<rparr>) p2 w1))))"

text \<open>\<^verbatim>\<open>set_sbat_uefi_variable_internal\<close>: \<open>payload\<close> is the \<^verbatim>\<open>.sbatlevel\<close> section, whose header holds
  the offsets of the two levels.\<close>

definition set_sbat_uefi_variable_internal ::
    "'w efi_rt \<Rightarrow> nat \<Rightarrow> bool \<Rightarrow> buf \<Rightarrow> byte \<Rightarrow> buf \<Rightarrow> sbat_globals \<Rightarrow> pool \<Rightarrow> 'w
      \<Rightarrow> (efi_status \<times> sbat_globals \<times> 'w \<times> pool) option" where
  "set_sbat_uefi_variable_internal rt insecure in_protocol own junk payload s p w =
     (case (rd32 payload 0, rd32 payload 4) of
        (Some automatic_offset, Some latest_offset) \<Rightarrow>
          set_sbat_uefi_variable rt insecure in_protocol own junk
            (drop automatic_offset payload) (drop latest_offset payload) s p w
      | _ \<Rightarrow> None)"

definition clear_ssp_uefi_variables :: "'w efi_rt \<Rightarrow> 'w \<Rightarrow> (efi_status \<times> 'w) option" where
  "clear_ssp_uefi_variables rt w =
     (case del_variable rt SSPVER_VAR_NAME SECUREBOOT_EFI_NAMESPACE_GUID w of
        None \<Rightarrow> None
      | Some (st, w1) \<Rightarrow>
          (let rc = (if EFI_ERROR st then st else EFI_SUCCESS) in
           case del_variable rt SSPSIG_VAR_NAME SECUREBOOT_EFI_NAMESPACE_GUID w1 of
             None \<Rightarrow> None
           | Some (st2, w2) \<Rightarrow> Some (if EFI_ERROR st2 then st2 else rc, w2)))"

text \<open>The choice of \<^verbatim>\<open>ssp_ver\<close>, \<^verbatim>\<open>ssp_sig\<close> and \<^verbatim>\<open>reset_ssp\<close>.\<close>

definition ssp_candidate ::
    "bool \<Rightarrow> efi_status \<Rightarrow> byte \<Rightarrow> buf option \<times> buf option \<Rightarrow> buf option \<times> buf option
      \<Rightarrow> bool \<times> buf option \<times> buf option" where
  "ssp_candidate secure st policy automatic latest =
     (if EFI_ERROR st then (False, automatic)
      else if policy = POLICY_LATEST then (False, latest)
      else if policy = POLICY_AUTOMATIC then (False, automatic)
      else if policy = POLICY_RESET then
        (if secure then (False, automatic) else (True, None, None))
      else (False, automatic))"

text \<open>\<^verbatim>\<open>set_ssp_uefi_variable\<close>: the versions and signers of the two levels are pairs. A write
  reads \<^verbatim>\<open>SSPVER_SIZE\<close> or \<^verbatim>\<open>SSPSIG_SIZE\<close> bytes of its source.\<close>

definition set_ssp_bytes ::
    "'w efi_rt \<Rightarrow> ucs2 \<Rightarrow> nat \<Rightarrow> buf option \<Rightarrow> 'w \<Rightarrow> (efi_status \<times> 'w) option" where
  "set_ssp_bytes rt name sz src w =
     (case src of
        None \<Rightarrow> None
      | Some b \<Rightarrow>
          (case rdn b 0 sz of
             None \<Rightarrow> None
           | Some d \<Rightarrow> set_variable rt name SECUREBOOT_EFI_NAMESPACE_GUID UEFI_VAR_NV_BS d w))"

definition set_ssp_uefi_variable ::
    "'w efi_rt \<Rightarrow> nat \<Rightarrow> buf option \<times> buf option \<Rightarrow> buf option \<times> buf option \<Rightarrow> sbat_globals \<Rightarrow> pool \<Rightarrow> 'w
      \<Rightarrow> (efi_status \<times> sbat_globals \<times> 'w \<times> pool) option" where
  "set_ssp_uefi_variable rt insecure automatic latest s p w =
     (case read_policy rt SSP_POLICY (clear_ssp_policy rt) (ssp_policy s) p w of
        None \<Rightarrow> None
      | Some (st, policy, w1, p1) \<Rightarrow>
          (let s1 = s\<lparr>ssp_policy := policy\<rparr>;
               (reset_ssp, ssp_ver, ssp_sig) =
                 ssp_candidate (secure_mode rt insecure w1) st policy automatic latest
           in
           if ssp_ver = None \<and> ssp_sig = None \<and> \<not> reset_ssp then Some (EFI_SUCCESS, s1, w1, p1)
           else case get_variable_attr rt SSPVER_VAR_NAME True SECUREBOOT_EFI_NAMESPACE_GUID p1 w1 of
             (st2, sspver, sspversize, attributes, p2) \<Rightarrow>
               (case (if EFI_ERROR st2 then Some (False, st2, w1)
                      else case preserve_ssp_uefi_variable sspver sspversize (the attributes) ssp_ver of
                        None \<Rightarrow> None
                      | Some keep \<Rightarrow>
                          if keep \<and> \<not> reset_ssp then Some (True, EFI_SUCCESS, w1)
                          else map_option (\<lambda>(r, w'). (False, r, w')) (clear_ssp_uefi_variables rt w1)) of
                  None \<Rightarrow> None
                | Some (keep, st3, w2) \<Rightarrow>
                    if keep then Some (EFI_SUCCESS, s1, w2, p2)
                    else if reset_ssp then Some (st3, s1, w2, p2)
                    else (case set_ssp_bytes rt SSPVER_VAR_NAME SSPVER_SIZE ssp_ver w2 of
                            None \<Rightarrow> None
                          | Some (st4, w3) \<Rightarrow>
                              if EFI_ERROR st4 then Some (st4, s1, w3, p2)
                              else map_option (\<lambda>(r, w'). (r, s1, w', p2))
                                     (set_ssp_bytes rt SSPSIG_VAR_NAME SSPSIG_SIZE ssp_sig w3)))))"

definition set_ssp_uefi_variable_internal ::
    "'w efi_rt \<Rightarrow> nat \<Rightarrow> sbat_globals \<Rightarrow> pool \<Rightarrow> 'w \<Rightarrow> (efi_status \<times> sbat_globals \<times> 'w \<times> pool) option" where
  "set_ssp_uefi_variable_internal rt insecure s p w =
     set_ssp_uefi_variable rt insecure (None, None)
       (Some SkuSiPolicyVersion, Some SkuSiPolicyUpdateSigners) s p w"

section \<open>The order of levels\<close>

lemma cstr_text: "0 \<notin> set s \<Longrightarrow> cstr (s @ 0 # z) 0 = Some s"
  by (rule cstr_append) (auto simp: nth_append)

lemma nth_field_here: "cstr b i = Some s \<Longrightarrow> nth_sbat_field_from b 0 limit 0 i = Some i"
  by (subst nth_sbat_field_from.simps) (cases s; auto simp: cstr_simps mem_simps)

lemma nth_field_next:
  "cstr b i = Some (f @ 0x2C # r) \<Longrightarrow> 0x2C \<notin> set f \<Longrightarrow> i + length f < limit \<Longrightarrow>
    nth_sbat_field_from b 0 limit (Suc n) i = nth_sbat_field_from b 0 limit n (i + length f + 1)"
proof (induction f arbitrary: i)
  case Nil
  then show ?case by (subst nth_sbat_field_from.simps) (simp add: cstr_simps mem_simps)
next
  case (Cons c f)
  then show ?case
    using Cons.IH [of "i + 1"] by (subst nth_sbat_field_from.simps) (simp add: cstr_simps mem_simps)
qed

text \<open>The second and third field of a level, and the strings that start there.\<close>

lemma sbat_fields:
  assumes "cstr b 0 = Some (f @ 0x2C # v @ 0x2C # dt)" and "0x2C \<notin> set f" and "0x2C \<notin> set v"
    and "length f + length v + 1 < limit"
  shows "nth_sbat_field b 0 limit 1 = Some (length f + 1)"
    and "nth_sbat_field b 0 limit 2 = Some (length f + length v + 2)"
    and "cstr b (length f + 1) = Some (v @ 0x2C # dt)"
    and "cstr b (length f + length v + 2) = Some dt"
proof -
  have tl: "cstr b i = Some (g @ 0x2C # r) \<Longrightarrow> cstr b (i + length g + 1) = Some r" for i g r
    using cstr_tail [of b i "g @ 0x2C # r" "length g + 1"] by (simp add: add_ac)
  show c1: "cstr b (length f + 1) = Some (v @ 0x2C # dt)" using tl [OF assms(1)] by simp
  show c2: "cstr b (length f + length v + 2) = Some dt" using tl [OF c1] by (simp add: add_ac)
  show "nth_sbat_field b 0 limit 1 = Some (length f + 1)"
    using nth_field_next [OF assms(1,2), of limit 0] assms(4) nth_field_here [OF c1]
    by (simp add: nth_sbat_field_def)
  show "nth_sbat_field b 0 limit 2 = Some (length f + length v + 2)"
    using nth_field_next [OF assms(1,2), of limit 1] nth_field_next [OF c1 assms(3), of limit 0]
      assms(4) nth_field_here [OF c2]
    by (simp add: nth_sbat_field_def numeral_2_eq_2 add_ac)
qed

lemma preserve_sbat_parts:
  assumes "check_sbat_var_attributes at" and "0 \<notin> set v" and "0x2C \<notin> set v" and "0 \<notin> set dt"
    and "length SBAT_VAR_ORIGINAL \<le> length (SBAT_VAR_SIG @ v @ 0x2C # dt)"
    and "0 \<notin> set f" and "0x2C \<notin> set f" and "0 \<notin> set v'" and "0x2C \<notin> set v'" and "0 \<notin> set dt'"
    and "length v < 2 ^ 31" and "length v' < 2 ^ 31"
  shows "preserve_sbat_uefi_variable (SBAT_VAR_SIG @ v @ 0x2C # dt @ [0, 0, 0])
      (length (SBAT_VAR_SIG @ v @ 0x2C # dt)) at (f @ 0x2C # v' @ 0x2C # dt' @ [0]) =
    Some (length v' < length v \<or> length v = length v' \<and> 0 < str_diff v v' \<or>
      0 \<le> str_diff (take 10 dt) (take 10 dt'))"
proof -
  let ?c = "SBAT_VAR_SIG @ v @ 0x2C # dt @ [0, 0, 0]" and ?n = "f @ 0x2C # v' @ 0x2C # dt' @ [0]"
  let ?g = "lit ''sbat''"
  have sig: "SBAT_VAR_SIG = ?g @ [0x2C]" "0x2C \<notin> set ?g" "0 \<notin> set SBAT_VAR_SIG" by code_simp+
  have c: "cstr ?c 0 = Some (SBAT_VAR_SIG @ v @ 0x2C # dt)"
    using cstr_text [of "SBAT_VAR_SIG @ v @ 0x2C # dt" "[0, 0]"] assms(2,4) sig(3) by simp
  have n: "cstr ?n 0 = Some (f @ 0x2C # v' @ 0x2C # dt')"
    using cstr_text [of "f @ 0x2C # v' @ 0x2C # dt'" "[]"] assms(6,8,10) by simp
  have s: "strncmp ?c 0 (SBAT_VAR_SIG @ [0]) 0 (length SBAT_VAR_SIG) = Some 0"
    using strncmp_prefix [OF c cstr_text [OF sig(3), of "[]"]] by auto
  have c': "cstr ?c 0 = Some (?g @ 0x2C # v @ 0x2C # dt)" using c sig(1) by simp
  note fc = sbat_fields [OF c' sig(2) assms(3), of "length (SBAT_VAR_SIG @ v @ 0x2C # dt)"]
  note fn = sbat_fields [OF n assms(7,9), of "length f + length v' + length dt' + 2 + 1"]
  have l: "strlen ?n 0 = Some (length f + length v' + length dt' + 2)"
    using n by (simp add: strlen_cstr add_ac)
  have sl: "length SBAT_VAR_SIG = length ?g + 1" by code_simp
  have ver: "length v = length v' \<Longrightarrow>
      strncmp ?c (length ?g + 1) ?n (length f + 1) (length v') = Some (str_diff v v')"
    using strncmp_cstr [OF fc(3) fn(3), of "length v'"] sl by simp
  have date: "strncmp ?c (length ?g + length v + 2) ?n (length f + length v' + 2) 10 =
      Some (str_diff (take 10 dt) (take 10 dt'))"
    using strncmp_cstr [OF fc(4) fn(4), of 10] sl by simp
  have ten: "length SBAT_VAR_ORIGINAL_DATE = 10" by code_simp
  have nn: "nat (int (length v') mod 2 ^ 64) = length v'" using assms(12) by (simp add: nat_mod_as_int)
  have ti: "to_int (int (length v)) = int (length v)" "to_int (int (length v')) = int (length v')"
    using assms(11,12) by (simp_all add: to_int_eq)
  show ?thesis
    using assms(1,5) s fc(1,2) fn(1,2) l ver date nn sl ti
    by (auto simp: preserve_sbat_uefi_variable_def ten Let_def simp del: strncmp.simps split: bool.split)
qed



section \<open>Levels as data\<close>

text \<open>The first line of a level: the name, the version, and the rest, which starts with the date.\<close>

definition level_parts :: "buf \<Rightarrow> (buf \<times> buf \<times> buf) option" where
  "level_parts t =
     (let f = takeWhile (\<lambda>c. c \<noteq> 0x2C) t; r = drop (length f + 1) t; v = takeWhile (\<lambda>c. c \<noteq> 0x2C) r
      in if length f < length t \<and> length v < length r then Some (f, v, drop (length v + 1) r) else None)"

text \<open>A stored level that the code takes into account: acceptable attributes, at least as long as the original
  level, with the name \<open>sbat\<close>, a version and a date.\<close>

definition level_valid :: "32 word \<Rightarrow> buf \<Rightarrow> bool" where
  "level_valid at d \<longleftrightarrow> check_sbat_var_attributes at \<and> 0 \<notin> set d \<and> length SBAT_VAR_ORIGINAL \<le> length d \<and>
     (case level_parts d of None \<Rightarrow> False | Some (f, v, dt) \<Rightarrow> f = lit ''sbat'')"

text \<open>A level \<open>t\<close> is newer than a level \<open>d\<close>: its version is not lower, and its date is later.\<close>

definition level_newer :: "buf \<Rightarrow> buf \<Rightarrow> bool" where
  "level_newer d t =
     (case (level_parts d, level_parts t) of
        (Some (f, v, dt), Some (f', v', dt')) \<Rightarrow>
          (length v < length v' \<or> length v = length v' \<and> str_diff v v' \<le> 0) \<and>
          str_diff (take 10 dt) (take 10 dt') < 0
      | _ \<Rightarrow> False)"

lemma level_partsD:
  assumes "level_parts t = Some (f, v, dt)"
  shows "t = f @ 0x2C # v @ 0x2C # dt" and "0x2C \<notin> set f" and "0x2C \<notin> set v"
proof -
  have split: "x = takeWhile (\<lambda>c. c \<noteq> 0x2C) x @ 0x2C # drop (length (takeWhile (\<lambda>c. c \<noteq> 0x2C) x) + 1) x"
    if "length (takeWhile (\<lambda>c. c \<noteq> 0x2C) x) < length x" for x :: buf
    using that by (induction x) auto
  let ?f = "takeWhile (\<lambda>c. c \<noteq> 0x2C) t"
  let ?r = "drop (length ?f + 1) t"
  have p: "f = ?f" "v = takeWhile (\<lambda>c. c \<noteq> 0x2C) ?r" "dt = drop (length v + 1) ?r" "length ?f < length t"
      "length v < length ?r"
    using assms by (auto simp: level_parts_def Let_def split: if_splits)
  show "t = f @ 0x2C # v @ 0x2C # dt" using split [of t] split [of ?r] p by simp
  show "0x2C \<notin> set f" "0x2C \<notin> set v" unfolding p(1,2) by (auto dest: set_takeWhileD)
qed

lemma preserve_newer:
  assumes "level_valid at d" and "level_parts t \<noteq> None" and "0 \<notin> set t"
    and "length d < 2 ^ 31" and "length t < 2 ^ 31"
  shows "preserve_sbat_uefi_variable (d @ [0, 0, 0]) (length d) at (t @ [0]) = Some (\<not> level_newer d t)"
proof -
  obtain v dt where d: "level_parts d = Some (lit ''sbat'', v, dt)"
    using assms(1) by (auto simp: level_valid_def split: option.splits)
  obtain f v' dt' where t: "level_parts t = Some (f, v', dt')" using assms(2) by auto
  note pd = level_partsD [OF d] and pt = level_partsD [OF t]
  have sig: "SBAT_VAR_SIG = lit ''sbat'' @ [0x2C]" by code_simp
  have eq: "d @ [0, 0, 0] = SBAT_VAR_SIG @ v @ 0x2C # dt @ [0, 0, 0]" "d = SBAT_VAR_SIG @ v @ 0x2C # dt"
      "t @ [0] = f @ 0x2C # v' @ 0x2C # dt' @ [0]"
    using pd(1) pt(1) sig by simp_all
  have z: "check_sbat_var_attributes at" "0 \<notin> set d" "length SBAT_VAR_ORIGINAL \<le> length d"
    using assms(1) by (auto simp: level_valid_def)
  have "preserve_sbat_uefi_variable (d @ [0, 0, 0]) (length d) at (t @ [0]) =
      Some (length v' < length v \<or> length v = length v' \<and> 0 < str_diff v v' \<or> 0 \<le> str_diff (take 10 dt) (take 10 dt'))"
    using z assms(3-5) pd pt unfolding eq(1,3) eq(2) [THEN arg_cong [where f = length]]
    by (intro preserve_sbat_parts) (auto simp: eq(2))
  then show ?thesis by (auto simp: level_newer_def d t)
qed

section \<open>The outcome of an update\<close>

abbreviation sbat_key :: "ucs2 \<times> efi_guid" where
  "sbat_key \<equiv> (SBAT_VAR_NAME, SHIM_LOCK_GUID)"

lemma parse_candidate:
  assumes "0 \<notin> set c" and "c \<noteq> []" and "length c < 2 ^ 32 - 1" and "pool_ok p"
  shows "\<exists>vars' p'. parse_sbat_var rt vars (Some (c @ [0])) 0 p w =
      Some (if rows_ok 2 (csv_spec 3 c) then EFI_SUCCESS else EFI_INVALID_PARAMETER, vars', p') \<and>
    pool_ok p' \<and> (rows_ok 2 (csv_spec 3 c) \<longrightarrow> vars_hold vars' (csv_spec 3 c))"
proof -
  have "csv_buf (c @ [0]) (length c)" using csv_buf_padded [of c 0] assms(3) by simp
  moreover have "text_at (c @ [0]) (length c) 0 c" using text_padded [OF assms(1), of 0] by simp
  moreover have "2 \<le> length c + 1" using assms(2) by (cases c) auto
  ultimately show ?thesis
    using parse_sbat_var_data_spec [of "c @ [0]" "length c + 1" c "\<lambda>k. p (Suc k)" vars]
      cstr_text [OF assms(1), of "[]"] AllocatePool_ok [OF assms(4)] pool_ok_Suc [OF assms(4)]
    by (auto simp: parse_sbat_var_def split: if_splits)
qed

text \<open>Shim's own section and a revocation list that does not revoke it.\<close>

definition own_accepted :: "buf list list \<Rightarrow> buf \<Rightarrow> bool" where
  "own_accepted vss t \<longleftrightarrow>
     vss = [] \<or> rows_ok 6 (csv_spec 6 t) \<and> \<not> list_ex (sbat_revoked vss) (csv_spec 6 t)"

lemma verify_own:
  assumes "vars_hold v vss" and "0 \<notin> set t" and "0 < length t + k" and "length t + k < 2 ^ 32 - 1"
    and "pool_ok p"
  shows "\<exists>st p'. verify_sbat_section v in_protocol (t @ replicate (Suc k) 0) (Some 0) (length t + k) p =
      Some (st, p') \<and> (\<not> EFI_ERROR st \<longleftrightarrow> own_accepted vss t) \<and> pool_ok p'"
proof (cases "snd v = []")
  case True
  then have "vss = []" using assms(1) by (simp add: vars_hold_def)
  with True assms(5) show ?thesis by (simp add: verify_sbat_section_def own_accepted_def)
next
  case False
  then have "vss \<noteq> []" using assms(1) by (auto simp: vars_hold_def)
  have "rdn (t @ replicate (Suc k) 0) 0 (length t + k) = Some (t @ replicate k 0)"
    by (simp add: rdn_def min_def del: replicate_Suc)
  from verify_sbat_section_text [OF assms(1) False assms(2) this assms(3-5), of in_protocol]
  obtain p' where "verify_sbat_section v in_protocol (t @ replicate (Suc k) 0) (Some 0) (length t + k) p =
      Some (if \<not> rows_ok 6 (csv_spec 6 t) then EFI_INVALID_PARAMETER
        else if list_ex (sbat_revoked vss) (csv_spec 6 t) then EFI_SECURITY_VIOLATION
        else EFI_SUCCESS, p')" "pool_ok p'"
    by blast
  then show ?thesis using \<open>vss \<noteq> []\<close> by (auto simp: own_accepted_def)
qed

lemma original_text:
  "0 \<notin> set SBAT_VAR_ORIGINAL" "SBAT_VAR_ORIGINAL \<noteq> []" "length SBAT_VAR_ORIGINAL < 4294967295"
  by code_simp+

lemma sbat_candidate_cases:
  assumes "sbat_candidate secure st policy (a @ [0]) (l @ [0]) = (reset, c)"
  shows "\<exists>t. c = t @ [0] \<and> (t \<in> {a, l} \<and> \<not> reset \<or> t = SBAT_VAR_ORIGINAL \<and> \<not> secure \<and> reset)"
  using assms by (auto simp: sbat_candidate_def Let_def split: if_splits)

lemma candidate_checked:
  assumes "pool_ok p" and "0 \<notin> set t" and "t \<noteq> []" and "length t < 2 ^ 32 - 1"
    and "0 \<notin> set ow" and "0 < length ow + k" and "length ow + k < 2 ^ 32 - 1"
    and "parse_sbat_var rt v (Some (t @ [0])) 0 p w = Some (st3, v', p3)"
  shows "pool_ok p3 \<and>
    (EFI_ERROR st3 \<or> (\<exists>st4 p4. verify_sbat_section v' in_protocol (ow @ replicate (Suc k) 0) (Some 0)
        (length ow + k) p3 = Some (st4, p4) \<and> (EFI_ERROR st4 \<or> own_accepted (csv_spec 3 t) ow)))"
proof -
  obtain vars' p' where "parse_sbat_var rt v (Some (t @ [0])) 0 p w =
      Some (if rows_ok 2 (csv_spec 3 t) then EFI_SUCCESS else EFI_INVALID_PARAMETER, vars', p')"
      and h: "pool_ok p'" "rows_ok 2 (csv_spec 3 t) \<longrightarrow> vars_hold vars' (csv_spec 3 t)"
    using parse_candidate [OF assms(2-4,1), of rt v w] by blast
  then have e: "v' = vars'" "p3 = p'" "EFI_ERROR st3 \<longleftrightarrow> \<not> rows_ok 2 (csv_spec 3 t)"
    using assms(8) by auto
  show ?thesis
  proof (cases "rows_ok 2 (csv_spec 3 t)")
    case True
    then show ?thesis
      using e h verify_own [OF _ assms(5-7) h(1), of v' "csv_spec 3 t" in_protocol] by auto
  next
    case False
    then show ?thesis using e h by simp
  qed
qed

context variable_services
begin

lemma get_byte:
  "inv w \<Longrightarrow> GetVariable rt n g 1 True w =
    (case vars w (n, g) of
       None \<Rightarrow> (EFI_NOT_FOUND, 1, None, [])
     | Some (a, d) \<Rightarrow> if length d \<le> 1 then (EFI_SUCCESS, length d, Some a, d)
                      else (EFI_BUFFER_TOO_SMALL, length d, Some a, []))"
  by (auto simp: get_none get_small get_data split: option.split)

lemma secure_mode_vars:
  assumes "inv w" and "inv w'" and "\<And>n. vars w' (n, GV_GUID) = vars w (n, GV_GUID)"
  shows "secure_mode rt i w' = secure_mode rt i w"
  using get_byte [OF assms(1)] get_byte [OF assms(2)] assms(3)
  by (simp add: secure_mode_def variable_is_secureboot_def variable_is_setupmode_def)

lemma read_policy_frame:
  assumes "inv w" and "read_policy rt name clear policy p w = Some (st, policy', w', p')"
    and "\<And>w. clear w = map_option snd (del_variable rt name SHIM_LOCK_GUID w)"
  shows "inv w' \<and> (\<forall>k. k \<noteq> (name, SHIM_LOCK_GUID) \<longrightarrow> vars w' k = vars w k)"
  using assms(2) set_inv [OF assms(1)] set_other [OF assms(1)] assms(1)
  by (auto simp: read_policy_def assms(3) del_variable_def set_variable_def
      split: if_splits prod.splits option.splits)

lemma read_policy_pool:
  assumes "inv w" and "read_policy rt name clear policy p w = Some (st, policy', w', p')" and "pool_ok p"
  shows "pool_ok p'"
proof (cases "vars w (name, SHIM_LOCK_GUID)")
  case None
  then show ?thesis
    using assms get_variable_attr_none [OF assms(1)]
    by (auto simp: read_policy_def split: if_splits)
next
  case (Some v)
  then show ?thesis
    using assms(2,3) get_variable_attr_some [OF assms(1) _ AllocatePool_ok [OF assms(3)]]
      pool_ok_Suc [OF assms(3)]
    by (cases v) (auto simp: read_policy_def split: if_splits option.splits)
qed

lemma write_level:
  assumes "inv w" and "write_sbat_level rt c p w = Some (st, w', p')" and "cstr c 0 = Some t" and "t \<noteq> []"
  shows "inv w' \<and> (\<forall>k. k \<noteq> sbat_key \<longrightarrow> vars w' k = vars w k) \<and>
    (vars w' sbat_key = vars w sbat_key \<and> EFI_ERROR st \<or> (\<exists>a. vars w' sbat_key = Some (a, t)))"
proof -
  obtain st1 where s: "SetVariable rt SBAT_VAR_NAME SHIM_LOCK_GUID UEFI_VAR_NV_BS t w = Some (st1, w')"
      and e: "EFI_ERROR st1 \<Longrightarrow> st = st1"
    using assms(2,3)
    by (auto simp: write_sbat_level_def set_variable_def split: option.splits prod.splits if_splits)
  have a: "UEFI_VAR_NV_BS AND EFI_VARIABLE_APPEND_WRITE = 0"
    by (simp add: UEFI_VAR_NV_BS_def attr_defs)
  show ?thesis
  proof (cases "EFI_ERROR st1")
    case True
    then show ?thesis
      using e set_inv [OF assms(1) s] set_err [OF assms(1) s] by simp
  next
    case False
    then show ?thesis
      using set_inv [OF assms(1) s] set_lookup [OF assms(1) s False a assms(4)] by blast
  qed
qed

lemma replace_level:
  assumes "inv w" and "pool_ok p" and "vars w sbat_key = Some (at, d)" and "at AND EFI_VARIABLE_APPEND_WRITE = 0"
    and t: "0 \<notin> set t" "t \<noteq> []" "length t < 2 ^ 32 - 1"
    and own: "0 \<notin> set ow" "0 < length ow + k" "length ow + k < 2 ^ 32 - 1"
    and r: "replace_sbat_level rt in_protocol (ow @ replicate (Suc k) 0) 0 at (t @ [0]) s p w =
      Some (st, s', w', p')"
  shows "inv w' \<and> (\<forall>k. k \<noteq> sbat_key \<longrightarrow> vars w' k = vars w k) \<and>
    (vars w' sbat_key = Some (at, d) \<or> own_accepted (csv_spec 3 t) ow \<and>
       (vars w' sbat_key = None \<and> EFI_ERROR st \<or> (\<exists>at'. vars w' sbat_key = Some (at', t))))"
proof -
  obtain st1 v' p1 where ps: "parse_sbat_var rt (sbat_var s) (Some (t @ [0])) 0 p w = Some (st1, v', p1)"
    using r by (auto simp: replace_sbat_level_def split: option.splits)
  note ck = candidate_checked [OF assms(2) t own ps, of in_protocol]
  show ?thesis
  proof (cases "w' = w")
    case True
    then show ?thesis using assms(1,3) by simp
  next
    case False
    with r ps ck obtain st2 p2 st3 w1 where ok: "own_accepted (csv_spec 3 t) ow"
        and s: "SetVariable rt SBAT_VAR_NAME SHIM_LOCK_GUID at [] w = Some (st3, w1)"
        and c: "EFI_ERROR st3 \<and> w' = w1 \<or>
          \<not> EFI_ERROR st3 \<and> write_sbat_level rt (t @ [0]) p2 w1 = Some (st, w', p')"
      by (auto simp: replace_sbat_level_def set_variable_def Let_def
          split: option.splits if_splits prod.splits)
    note i = set_inv [OF assms(1) s] and o = set_other [OF assms(1) s]
    show ?thesis
    proof (cases "EFI_ERROR st3")
      case True
      then show ?thesis using c i set_err [OF assms(1) s] assms(3) by simp
    next
      case False
      then have "vars w1 sbat_key = None" using delete_lookup [OF assms(1) s] assms(4) by simp
      then show ?thesis
        using False c write_level [OF i _ cstr_text [OF t(1), of "[]"] t(2)] o ok by auto
    qed
  qed
qed

text \<open>The level afterwards: unchanged, or replaced by a candidate that does not revoke shim
  itself and that the code found to be newer or a reset allowed outside secure mode.\<close>

lemma sbat_level_update:
  assumes "inv w" and "pool_ok p" and v: "vars w sbat_key = Some (at, d)"
    and "at AND EFI_VARIABLE_APPEND_WRITE = 0"
    and tx: "\<And>t. t \<in> {a, l} \<Longrightarrow> 0 \<notin> set t \<and> t \<noteq> [] \<and> length t < 2 ^ 32 - 1"
    and own: "0 \<notin> set ow" "0 < length ow + k" "length ow + k < 2 ^ 32 - 1"
    and r: "set_sbat_uefi_variable rt insecure in_protocol (ow @ replicate (Suc k) 0) 0 (a @ [0]) (l @ [0])
      s p w = Some (st, s', w', p')"
  shows "inv w' \<and> (\<forall>k. k \<noteq> sbat_key \<and> k \<noteq> (SBAT_POLICY, SHIM_LOCK_GUID) \<longrightarrow> vars w' k = vars w k) \<and>
    (vars w' sbat_key = Some (at, d) \<or>
     (\<exists>t. own_accepted (csv_spec 3 t) ow \<and>
        (t \<in> {a, l} \<and> preserve_sbat_uefi_variable (d @ [0, 0, 0]) (length d) at (t @ [0]) = Some False \<or>
         t = SBAT_VAR_ORIGINAL \<and> \<not> secure_mode rt insecure w) \<and>
        (vars w' sbat_key = None \<and> EFI_ERROR st \<or> (\<exists>at'. vars w' sbat_key = Some (at', t)))))"
proof -
  obtain st1 policy w1 p1 where rp: "read_policy rt SBAT_POLICY (clear_sbat_policy rt) (sbat_policy s) p w =
      Some (st1, policy, w1, p1)"
    using r by (auto simp: set_sbat_uefi_variable_def split: option.splits)
  have f1: "inv w1" "\<And>k. k \<noteq> (SBAT_POLICY, SHIM_LOCK_GUID) \<Longrightarrow> vars w1 k = vars w k"
    using read_policy_frame [OF assms(1) rp] by (auto simp: clear_sbat_policy_def)
  note po1 = read_policy_pool [OF assms(1) rp assms(2)]
  have sm: "secure_mode rt insecure w1 = secure_mode rt insecure w"
    using f1 by (intro secure_mode_vars [OF assms(1) f1(1)]) (auto simp: GV_GUID_def SHIM_LOCK_GUID_def)
  have v1: "vars w1 sbat_key = Some (at, d)"
    using f1(2) v by (simp add: SBAT_VAR_NAME_def SBAT_POLICY_def wlit_def)
  note ga = get_variable_attr_some [OF f1(1) v1 AllocatePool_ok [OF po1]]
  obtain reset c where c: "sbat_candidate (secure_mode rt insecure w1) st1 policy (a @ [0]) (l @ [0]) =
      (reset, c)" by fastforce
  obtain t where t: "c = t @ [0]"
      "t \<in> {a, l} \<and> \<not> reset \<or> t = SBAT_VAR_ORIGINAL \<and> \<not> secure_mode rt insecure w \<and> reset"
    using sbat_candidate_cases [OF c] sm by auto
  have tw: "0 \<notin> set t" "t \<noteq> []" "length t < 2 ^ 32 - 1"
    using t(2) tx by (auto simp: original_text original_text(2) [symmetric])
  show ?thesis
  proof (cases "w' = w1")
    case True
    then show ?thesis using f1 v1 by simp
  next
    case False
    then have k: "reset \<or> preserve_sbat_uefi_variable (d @ [0, 0, 0]) (length d) at c = Some False"
        and r2: "replace_sbat_level rt in_protocol (ow @ replicate (Suc k) 0) 0 at c
          (s\<lparr>sbat_policy := policy\<rparr>) (\<lambda>k. p1 (Suc k)) w1 = Some (st, s', w', p')"
      using r rp c ga
      by (auto simp: set_sbat_uefi_variable_def split: option.splits if_splits bool.splits)
    show ?thesis
      using replace_level [OF f1(1) pool_ok_Suc [OF po1] v1 assms(4) tw own r2 [unfolded t(1)]] f1(2) k t
      by auto
  qed
qed

end

section \<open>The SkuSiPolicy version\<close>

abbreviation sspver_key :: "ucs2 \<times> efi_guid" where
  "sspver_key \<equiv> (SSPVER_VAR_NAME, SECUREBOOT_EFI_NAMESPACE_GUID)"

lemma rd_le_prefix: "i + n \<le> length d \<Longrightarrow> rd_le n (d @ z) i = rd_le n d i"
  by (auto simp: rd_le_def rdn_def)

lemma ssp_ver_append: "length d = 8 \<Longrightarrow> ssp_ver_to_ull (d @ z) = ssp_ver_to_ull d"
  by (simp add: ssp_ver_to_ull_def rd16_def rd_le_prefix)

lemma ssp_candidate_secure:
  "\<exists>c. ssp_candidate True st policy automatic latest = (False, c) \<and> c \<in> {automatic, latest}"
  by (cases automatic; cases latest) (simp add: ssp_candidate_def)

lemma ssp_ver_total: "8 \<le> length d \<Longrightarrow> \<exists>v. ssp_ver_to_ull d = Some v"
  by (auto simp: ssp_ver_to_ull_def rd16_def rd_le_def rdn_def split: option.splits)

context variable_services
begin

lemma del_frame:
  assumes "inv w" and "del_variable rt n g w = Some (st, w')"
  shows "inv w'" and "k \<noteq> (n, g) \<Longrightarrow> vars w' k = vars w k"
    and "vars w' (n, g) = vars w (n, g) \<or> vars w' (n, g) = None"
proof -
  note s = assms(2) [unfolded del_variable_def set_variable_def]
  show "inv w'" by (rule set_inv [OF assms(1) s])
  show "k \<noteq> (n, g) \<Longrightarrow> vars w' k = vars w k" by (rule set_other [OF assms(1) s])
  show "vars w' (n, g) = vars w (n, g) \<or> vars w' (n, g) = None"
    using set_err [OF assms(1) s] delete_lookup [OF assms(1) s] by (cases "EFI_ERROR st") auto
qed

lemma clear_ssp_frame:
  assumes "inv w" and "clear_ssp_uefi_variables rt w = Some (st, w')"
  shows "inv w' \<and> (vars w' sspver_key = vars w sspver_key \<or> vars w' sspver_key = None)"
proof -
  obtain st1 w1 st2 where d: "del_variable rt SSPVER_VAR_NAME SECUREBOOT_EFI_NAMESPACE_GUID w = Some (st1, w1)"
      "del_variable rt SSPSIG_VAR_NAME SECUREBOOT_EFI_NAMESPACE_GUID w1 = Some (st2, w')"
    using assms(2) by (auto simp: clear_ssp_uefi_variables_def Let_def split: option.splits)
  have "sspver_key \<noteq> (SSPSIG_VAR_NAME, SECUREBOOT_EFI_NAMESPACE_GUID)"
    by (simp add: SSPVER_VAR_NAME_def SSPSIG_VAR_NAME_def wlit_def)
  then show ?thesis
    using del_frame [OF assms(1) d(1)] del_frame [OF del_frame(1) [OF assms(1) d(1)] d(2)] by auto
qed

lemma set_ssp_frame:
  assumes "inv w" and "set_ssp_bytes rt n sz (Some b) w = Some (st, w')" and "0 < sz" and "length b = sz"
  shows "inv w'" and "k \<noteq> (n, SECUREBOOT_EFI_NAMESPACE_GUID) \<Longrightarrow> vars w' k = vars w k"
    and "EFI_ERROR st \<and> vars w' = vars w \<or>
      (\<exists>a. vars w' (n, SECUREBOOT_EFI_NAMESPACE_GUID) = Some (a, b))"
proof -
  have s: "SetVariable rt n SECUREBOOT_EFI_NAMESPACE_GUID UEFI_VAR_NV_BS b w = Some (st, w')"
    using assms(2,4) by (simp add: set_ssp_bytes_def set_variable_def rdn_def)
  show "inv w'" by (rule set_inv [OF assms(1) s])
  show "k \<noteq> (n, SECUREBOOT_EFI_NAMESPACE_GUID) \<Longrightarrow> vars w' k = vars w k"
    by (rule set_other [OF assms(1) s])
  have a: "UEFI_VAR_NV_BS AND EFI_VARIABLE_APPEND_WRITE = 0"
    by (simp add: UEFI_VAR_NV_BS_def attr_defs)
  show "EFI_ERROR st \<and> vars w' = vars w \<or>
      (\<exists>a. vars w' (n, SECUREBOOT_EFI_NAMESPACE_GUID) = Some (a, b))"
    using set_err [OF assms(1) s] set_lookup(1) [OF assms(1) s _ a] assms(3,4) by (cases "EFI_ERROR st") auto
qed

text \<open>A write of both variables, after the version variable was cleared or not.\<close>

lemma write_ssp:
  assumes "inv w" and "length v = 8" and "length g = 131"
    and "set_ssp_bytes rt SSPVER_VAR_NAME SSPVER_SIZE (Some v) w = Some (st4, w3)"
    and "if EFI_ERROR st4 then st = st4 \<and> w' = w3
      else set_ssp_bytes rt SSPSIG_VAR_NAME SSPSIG_SIZE (Some g) w3 = Some (st, w')"
  shows "EFI_ERROR st \<and> vars w' sspver_key = vars w sspver_key \<or> (\<exists>a. vars w' sspver_key = Some (a, v))"
proof -
  note f = set_ssp_frame [OF assms(1,4)]
  have "sspver_key \<noteq> (SSPSIG_VAR_NAME, SECUREBOOT_EFI_NAMESPACE_GUID)"
    by (simp add: SSPVER_VAR_NAME_def SSPSIG_VAR_NAME_def wlit_def)
  then have "\<not> EFI_ERROR st4 \<Longrightarrow> vars w' sspver_key = vars w3 sspver_key"
    using assms(2,3,5) f set_ssp_frame(2) [of w3 SSPSIG_VAR_NAME SSPSIG_SIZE g st w' sspver_key]
    by (simp add: SSPVER_SIZE_def SSPSIG_SIZE_def)
  then show ?thesis
    using f(3) assms(2,5) by (auto simp: SSPVER_SIZE_def split: if_splits)
qed

lemma ssp_update:
  assumes "inv w" and "pool_ok p" and v: "vars w sspver_key = Some (at, d)" and "length d = 8"
    and "check_sbat_var_attributes at" and sec: "secure_mode rt insecure w"
    and lv: "\<And>c. c \<in> {automatic, latest} \<Longrightarrow>
      c = (None, None) \<or> (\<exists>v g. c = (Some v, Some g) \<and> length v = 8 \<and> length g = 131)"
    and r: "set_ssp_uefi_variable rt insecure automatic latest s p w = Some (st, s', w', p')"
  shows "vars w' sspver_key = Some (at, d) \<or> vars w' sspver_key = None \<and> EFI_ERROR st \<or>
    (\<exists>at' c. vars w' sspver_key = Some (at', c) \<and> Some c \<in> {fst automatic, fst latest} \<and>
      the (ssp_ver_to_ull d) < the (ssp_ver_to_ull c))"
proof -
  obtain st1 policy w1 p1 where rp: "read_policy rt SSP_POLICY (clear_ssp_policy rt) (ssp_policy s) p w =
      Some (st1, policy, w1, p1)"
    using r by (auto simp: set_ssp_uefi_variable_def split: option.splits)
  have f1: "inv w1" "\<And>k. k \<noteq> (SSP_POLICY, SHIM_LOCK_GUID) \<Longrightarrow> vars w1 k = vars w k"
    using read_policy_frame [OF assms(1) rp] by (auto simp: clear_ssp_policy_def)
  note po1 = read_policy_pool [OF assms(1) rp assms(2)]
  have sm: "secure_mode rt insecure w1"
    using f1 sec secure_mode_vars [OF assms(1) f1(1)] by (auto simp: GV_GUID_def SHIM_LOCK_GUID_def)
  have v1: "vars w1 sspver_key = Some (at, d)"
    using f1(2) v by (simp add: SECUREBOOT_EFI_NAMESPACE_GUID_def SHIM_LOCK_GUID_def)
  note ga = get_variable_attr_some [OF f1(1) v1 AllocatePool_ok [OF po1]]
  obtain c where c: "ssp_candidate (secure_mode rt insecure w1) st1 policy automatic latest = (False, c)"
      "c \<in> {automatic, latest}"
    using ssp_candidate_secure [of st1 policy automatic latest] sm by auto
  consider "c = (None, None)" | cv g where "c = (Some cv, Some g)" "length cv = 8" "length g = 131"
    using lv [OF c(2)] by auto
  then show ?thesis
  proof cases
    case 1
    then show ?thesis using r rp c v1 by (simp add: set_ssp_uefi_variable_def)
  next
    case 2
    obtain old new where on: "ssp_ver_to_ull d = Some old" "ssp_ver_to_ull cv = Some new"
      using ssp_ver_total [of d] ssp_ver_total [of cv] assms(4) 2(2) by auto
    then have pv: "preserve_ssp_uefi_variable (Some (d @ [0, 0, 0])) (length d) at (Some cv) = Some (\<not> old < new)"
      using assms(4,5) by (simp add: preserve_ssp_uefi_variable_def SSPVER_SIZE_def ssp_ver_append)
    show ?thesis
    proof (cases "old < new")
      case False
      then show ?thesis using r rp c ga pv 2(1) v1 by (simp add: set_ssp_uefi_variable_def)
    next
      case True
      then obtain st3 w2 st4 w3 where w: "clear_ssp_uefi_variables rt w1 = Some (st3, w2)"
          "set_ssp_bytes rt SSPVER_VAR_NAME SSPVER_SIZE (Some cv) w2 = Some (st4, w3)"
          "if EFI_ERROR st4 then st = st4 \<and> w' = w3
           else set_ssp_bytes rt SSPSIG_VAR_NAME SSPSIG_SIZE (Some g) w3 = Some (st, w')"
        using r rp c ga pv 2(1)
        by (auto simp: set_ssp_uefi_variable_def Let_def split: option.splits if_splits)
      note cl = clear_ssp_frame [OF f1(1) w(1)]
      have "Some cv \<in> {fst automatic, fst latest}" using c(2) 2(1) by auto
      then show ?thesis
        using write_ssp [OF _ 2(2,3) w(2,3)] cl v1 on True by auto
    qed
  qed
qed

end

text \<open>C8. Updating the level. If \<^verbatim>\<open>SbatLevel\<close> exists and allocations succeed, then after
  \<^verbatim>\<open>set_sbat_uefi_variable\<close> it is unchanged, or it was replaced by a level that does not revoke shim's own
  \<^verbatim>\<open>.sbat\<close> section and that is either the original level, when secure mode is off, or one of the two built-in
  levels. A built-in level only replaces a valid stored level if it is newer: its version is not lower and its
  date is later; a stored level that is not valid (other attributes, too short, not of the form
  \<open>sbat,version,date\<close>) is replaced in any case. Two further outcomes are allowed: the variable may be missing
  after an error, since it is deleted before it is written, and \<^verbatim>\<open>SbatPolicy\<close> may have been deleted; no other
  variable changes. The statement is about runs in which the byte that \<^verbatim>\<open>parse_sbat_var\<close> leaves
  uninitialised after the candidate is NUL.\<close>

theorem sbat_level_no_rollback:
  assumes "mock_inv w" and "pool_ok p" and "mock_vars w (SBAT_VAR_NAME, SHIM_LOCK_GUID) = Some (at, d)"
    and "at AND EFI_VARIABLE_APPEND_WRITE = 0" and "length d < 2 ^ 31"
    and "0 \<notin> set a \<and> length a < 2 ^ 31 \<and> level_parts a \<noteq> None"
    and "0 \<notin> set l \<and> length l < 2 ^ 31 \<and> level_parts l \<noteq> None"
    and "0 \<notin> set ow" and "0 < length ow + k" and "length ow + k < 2 ^ 32 - 1"
    and "set_sbat_uefi_variable (mock_rt gt) insecure in_protocol (ow @ replicate (Suc k) 0) 0
      (a @ [0]) (l @ [0]) s p w = Some (st, s', w', p')"
  shows "(\<forall>k. k \<noteq> (SBAT_VAR_NAME, SHIM_LOCK_GUID) \<and> k \<noteq> (SBAT_POLICY, SHIM_LOCK_GUID) \<longrightarrow>
      mock_vars w' k = mock_vars w k) \<and>
    (mock_vars w' (SBAT_VAR_NAME, SHIM_LOCK_GUID) = Some (at, d) \<or>
     (\<exists>t. own_accepted (csv_spec 3 t) ow \<and>
        (t \<in> {a, l} \<and> (level_valid at d \<longrightarrow> level_newer d t) \<or>
         t = SBAT_VAR_ORIGINAL \<and> \<not> secure_mode (mock_rt gt) insecure w) \<and>
        (mock_vars w' (SBAT_VAR_NAME, SHIM_LOCK_GUID) = None \<and> EFI_ERROR st \<or>
         (\<exists>at'. mock_vars w' (SBAT_VAR_NAME, SHIM_LOCK_GUID) = Some (at', t)))))"
proof -
  have tx: "t \<in> {a, l} \<Longrightarrow> 0 \<notin> set t \<and> t \<noteq> [] \<and> length t < 2 ^ 32 - 1" for t
    using assms(6,7) by (auto simp: level_parts_def)
  have new: "level_newer d t"
    if "t \<in> {a, l}" "level_valid at d" "preserve_sbat_uefi_variable (d @ [0, 0, 0]) (length d) at (t @ [0]) = Some False" for t
    using preserve_newer [OF that(2), of t] that(1,3) assms(5-7) by auto
  show ?thesis using mock.sbat_level_update [OF assms(1-4) tx assms(8-11)] new by simp blast
qed

definition sample_level :: buf where
  "sample_level = lit ''sbat,1,2024'' @ [0x0A] @ lit ''s,3''"

definition sample_own :: buf where
  "sample_own = lit ''s,4,a,b,c,d''"

definition sample_store :: mock_state where
  "sample_store = mock_store
     [(SBAT_VAR_NAME, SHIM_LOCK_GUID, UEFI_VAR_NV_BS, SBAT_VAR_ORIGINAL),
      (wlit ''SecureBoot'', GV_GUID, UEFI_VAR_NV_BS, [1])]"

definition sample_globals :: sbat_globals where
  "sample_globals = \<lparr>sbat_policy = POLICY_LATEST, ssp_policy = POLICY_LATEST, sbat_var = ([], [])\<rparr>"

lemma sbat_level_no_rollback_witness:
  "\<exists>st s' w' p' at'. set_sbat_uefi_variable mock_rt0 0 False (sample_own @ replicate (Suc 1) 0) 0
      (sample_level @ [0]) (sample_level @ [0]) sample_globals (\<lambda>_ _. True) sample_store =
      Some (st, s', w', p') \<and> own_accepted (csv_spec 3 sample_level) sample_own \<and>
    level_valid UEFI_VAR_NV_BS SBAT_VAR_ORIGINAL \<and> level_newer SBAT_VAR_ORIGINAL sample_level \<and>
    mock_vars w' (SBAT_VAR_NAME, SHIM_LOCK_GUID) = Some (at', sample_level)"
proof -
  have inv: "mock_inv sample_store" unfolding sample_store_def by (rule mock_store_inv) code_simp
  have v: "mock_vars sample_store (SBAT_VAR_NAME, SHIM_LOCK_GUID) = Some (UEFI_VAR_NV_BS, SBAT_VAR_ORIGINAL)"
    by code_simp
  have "case set_sbat_uefi_variable mock_rt0 0 False (sample_own @ replicate (Suc 1) 0) 0
      (sample_level @ [0]) (sample_level @ [0]) sample_globals (\<lambda>_ _. True) sample_store of
      None \<Rightarrow> False
    | Some (st, s', w', p') \<Rightarrow> st = EFI_SUCCESS \<and>
        mock_vars w' (SBAT_VAR_NAME, SHIM_LOCK_GUID) \<noteq> Some (UEFI_VAR_NV_BS, SBAT_VAR_ORIGINAL)" by code_simp
  then obtain s' w' p' where u: "set_sbat_uefi_variable mock_rt0 0 False (sample_own @ replicate (Suc 1) 0) 0
      (sample_level @ [0]) (sample_level @ [0]) sample_globals (\<lambda>_ _. True) sample_store =
      Some (EFI_SUCCESS, s', w', p')"
      "mock_vars w' (SBAT_VAR_NAME, SHIM_LOCK_GUID) \<noteq> Some (UEFI_VAR_NV_BS, SBAT_VAR_ORIGINAL)"
    by (auto split: option.splits)
  have t: "0 \<notin> set sample_level \<and> length sample_level < 2 ^ 31 \<and> level_parts sample_level \<noteq> None"
    by code_simp
  have own: "0 \<notin> set sample_own" "0 < length sample_own + 1" "length sample_own + 1 < 2 ^ 32 - 1"
    by code_simp+
  have sec: "secure_mode mock_rt0 0 sample_store" by code_simp
  have app: "UEFI_VAR_NV_BS AND EFI_VARIABLE_APPEND_WRITE = 0" by code_simp
  have len: "length SBAT_VAR_ORIGINAL < 2 ^ 31" by code_simp
  have valid: "level_valid UEFI_VAR_NV_BS SBAT_VAR_ORIGINAL" by code_simp
  show ?thesis
    using sbat_level_no_rollback [OF inv _ v app len t t own u(1)] u sec valid by (auto simp: pool_ok_def status_simps)
qed

text \<open>C26. The Windows policy version when allocations succeed: if \<^verbatim>\<open>SkuSiPolicyVersion\<close> holds eight bytes with
  acceptable attributes, then after \<^verbatim>\<open>set_ssp_uefi_variable\<close> in secure mode one of three things holds: it is
  unchanged; it was replaced by a strictly higher version of one of the two levels; it is missing and an
  error is returned, since it is deleted before it is written. No lower version is ever stored in it. When
  the variable cannot be read for lack of memory the code does not compare
  (see \<open>ssp_version_no_memory\<close> below).\<close>

theorem ssp_version_no_rollback:
  assumes "mock_inv w" and "pool_ok p"
    and "mock_vars w (SSPVER_VAR_NAME, SECUREBOOT_EFI_NAMESPACE_GUID) = Some (at, d)" and "length d = 8"
    and "check_sbat_var_attributes at" and "secure_mode (mock_rt gt) insecure w"
    and "\<And>c. c \<in> {automatic, latest} \<Longrightarrow>
      c = (None, None) \<or> (\<exists>v g. c = (Some v, Some g) \<and> length v = 8 \<and> length g = 131)"
    and "set_ssp_uefi_variable (mock_rt gt) insecure automatic latest s p w = Some (st, s', w', p')"
  shows "mock_vars w' (SSPVER_VAR_NAME, SECUREBOOT_EFI_NAMESPACE_GUID) = Some (at, d) \<or>
    mock_vars w' (SSPVER_VAR_NAME, SECUREBOOT_EFI_NAMESPACE_GUID) = None \<and> EFI_ERROR st \<or>
    (\<exists>at' c. mock_vars w' (SSPVER_VAR_NAME, SECUREBOOT_EFI_NAMESPACE_GUID) = Some (at', c) \<and>
      Some c \<in> {fst automatic, fst latest} \<and> the (ssp_ver_to_ull d) < the (ssp_ver_to_ull c))"
  by (rule mock.ssp_update [OF assms])

definition ssp_store :: mock_state where
  "ssp_store = mock_store
     [(SSPVER_VAR_NAME, SECUREBOOT_EFI_NAMESPACE_GUID, UEFI_VAR_NV_BS, [2, 0, 0, 0, 0, 0, 1, 0]),
      (wlit ''SecureBoot'', GV_GUID, UEFI_VAR_NV_BS, [1])]"

lemma ssp_version_no_rollback_witness:
  "\<exists>st s' w' p' at'. set_ssp_uefi_variable mock_rt0 0 (None, None)
      (Some SkuSiPolicyVersion, Some SkuSiPolicyUpdateSigners) sample_globals (\<lambda>_ _. True) ssp_store =
      Some (st, s', w', p') \<and>
    mock_vars w' (SSPVER_VAR_NAME, SECUREBOOT_EFI_NAMESPACE_GUID) = Some (at', SkuSiPolicyVersion)"
proof -
  have inv: "mock_inv ssp_store" unfolding ssp_store_def by (rule mock_store_inv) code_simp
  have v: "mock_vars ssp_store (SSPVER_VAR_NAME, SECUREBOOT_EFI_NAMESPACE_GUID) =
      Some (UEFI_VAR_NV_BS, [2, 0, 0, 0, 0, 0, 1, 0])" by code_simp
  have at: "check_sbat_var_attributes UEFI_VAR_NV_BS" by code_simp
  have sec: "secure_mode mock_rt0 0 ssp_store" by code_simp
  have len: "length SkuSiPolicyVersion = 8" "length SkuSiPolicyUpdateSigners = 131" by code_simp+
  have "case set_ssp_uefi_variable mock_rt0 0 (None, None)
      (Some SkuSiPolicyVersion, Some SkuSiPolicyUpdateSigners) sample_globals (\<lambda>_ _. True) ssp_store of
      None \<Rightarrow> False
    | Some (st, s', w', p') \<Rightarrow> st = EFI_SUCCESS \<and>
        mock_vars w' (SSPVER_VAR_NAME, SECUREBOOT_EFI_NAMESPACE_GUID) \<noteq>
          Some (UEFI_VAR_NV_BS, [2, 0, 0, 0, 0, 0, 1, 0])" by code_simp
  then obtain s' w' p' where u: "set_ssp_uefi_variable mock_rt0 0 (None, None)
      (Some SkuSiPolicyVersion, Some SkuSiPolicyUpdateSigners) sample_globals (\<lambda>_ _. True) ssp_store =
      Some (EFI_SUCCESS, s', w', p')"
      "mock_vars w' (SSPVER_VAR_NAME, SECUREBOOT_EFI_NAMESPACE_GUID) \<noteq>
        Some (UEFI_VAR_NV_BS, [2, 0, 0, 0, 0, 0, 1, 0])"
    by (auto split: option.splits)
  show ?thesis
    using ssp_version_no_rollback [OF inv _ v _ at sec _ u(1)] u len by (auto simp: pool_ok_def)
qed

section \<open>Defects\<close>

text \<open>Without memory the stored versions cannot be read. An error of \<^verbatim>\<open>get_variable_attr\<close> counts as a missing
  variable, and the candidate is written without a comparison: here over a higher policy version, and over a
  newer level (for the level a comment announces that it is set whenever it cannot be read).\<close>

definition high_store :: mock_state where
  "high_store = mock_store
     [(SSPVER_VAR_NAME, SECUREBOOT_EFI_NAMESPACE_GUID, UEFI_VAR_NV_BS, [0xFF, 0xFF, 0, 0, 0, 0, 0, 0]),
      (SBAT_VAR_NAME, SHIM_LOCK_GUID, UEFI_VAR_NV_BS, lit ''sbat,9,2099123100''),
      (wlit ''SecureBoot'', GV_GUID, UEFI_VAR_NV_BS, [1])]"

lemma ssp_version_no_memory:
  "(case set_ssp_uefi_variable mock_rt0 0 (None, None)
      (Some SkuSiPolicyVersion, Some SkuSiPolicyUpdateSigners) sample_globals (\<lambda>_ _. False) high_store of
      None \<Rightarrow> False
    | Some (st, s', w', p') \<Rightarrow> st = EFI_SUCCESS \<and>
        mock_vars w' (SSPVER_VAR_NAME, SECUREBOOT_EFI_NAMESPACE_GUID) = Some (UEFI_VAR_NV_BS, SkuSiPolicyVersion)) \<and>
    the (ssp_ver_to_ull SkuSiPolicyVersion) < the (ssp_ver_to_ull [0xFF, 0xFF, 0, 0, 0, 0, 0, 0])"
  by code_simp

lemma sbat_level_no_memory:
  "(case set_sbat_uefi_variable mock_rt0 0 False (sample_own @ replicate (Suc 1) 0) 0
      (sample_level @ [0]) (sample_level @ [0]) sample_globals (\<lambda>_ _. False) high_store of
      None \<Rightarrow> False
    | Some (st, s', w', p') \<Rightarrow>
        mock_vars w' (SBAT_VAR_NAME, SHIM_LOCK_GUID) = Some (UEFI_VAR_NV_BS, sample_level)) \<and>
    level_newer sample_level (lit ''sbat,9,2099123100'')"
  by code_simp

text \<open>The byte after a candidate is not initialised. When it happens to be a line feed and the
  candidate ends in two of them, the parser reads past the allocation.\<close>

lemma parse_candidate_junk:
  "parse_sbat_var rt v (Some (lit ''a,1'' @ [0x0A, 0x0A, 0])) 0x0A (\<lambda>_ _. True) w = None"
proof -
  have c: "cstr (lit ''a,1'' @ [0x0A, 0x0A, 0]) 0 = Some (lit ''a,1'' @ [0x0A, 0x0A])" by code_simp
  have "parse_csv_data ((lit ''a,1'' @ [0x0A, 0x0A]) @ [0x0A]) (Some 0) (Some 5) 3 (Some [])
      (\<lambda>_ _. True) = None" by code_simp
  moreover have "length (lit ''a,1'' @ [0x0A, 0x0A]) = 5" by code_simp
  ultimately show ?thesis
    by (simp add: parse_sbat_var_def c AllocatePool_def parse_sbat_var_data_def SBAT_VAR_COLUMNS_def)
qed

end
