(* ===== verification/Pe_Header.thy ===== *)
theory Pe_Header
  imports Shim_Base "HOL-Library.Monad_Syntax"
begin

text \<open>
  The headers of a PE image: the layouts of \<^verbatim>\<open>peimage.h\<close>, and \<^verbatim>\<open>ImageAddress\<close>, \<^verbatim>\<open>read_header\<close> and
  the functions they use of \<^verbatim>\<open>pe-relocate.c\<close>. An image is a buffer; a pointer into it is an
  offset from its start. A result \<open>Some (Inl st)\<close> is a return with the status \<open>st\<close>,
  \<open>Some (Inr x)\<close> success, and \<open>None\<close> an access outside the buffer.

  The lemmas show that \<^verbatim>\<open>read_header\<close> reads nothing outside any buffer of the given size, and
  what a successful result guarantees for the code that uses the header afterwards.
\<close>

named_theorems opt_le_intros \<open>computations that read a prefix\<close>

section \<open>Layouts (include/peimage.h)\<close>

text \<open>The addition wraps at 64 bits.\<close>

definition ALIGN_VALUE :: "nat \<Rightarrow> nat \<Rightarrow> nat" where
  "ALIGN_VALUE v a = add64 v (sub64 a v AND sub64 a 1)"

definition EFI_IMAGE_DOS_SIGNATURE :: nat where "EFI_IMAGE_DOS_SIGNATURE = 0x5A4D"
definition EFI_IMAGE_NT_SIGNATURE :: nat where "EFI_IMAGE_NT_SIGNATURE = 0x4550"
definition EFI_IMAGE_NT_OPTIONAL_HDR32_MAGIC :: nat where "EFI_IMAGE_NT_OPTIONAL_HDR32_MAGIC = 0x10b"
definition EFI_IMAGE_NT_OPTIONAL_HDR64_MAGIC :: nat where "EFI_IMAGE_NT_OPTIONAL_HDR64_MAGIC = 0x20b"
definition EFI_IMAGE_NUMBER_OF_DIRECTORY_ENTRIES :: nat where "EFI_IMAGE_NUMBER_OF_DIRECTORY_ENTRIES = 16"
definition EFI_IMAGE_SIZEOF_SECTION_HEADER :: nat where "EFI_IMAGE_SIZEOF_SECTION_HEADER = 40"
definition PAGE_SIZE :: nat where "PAGE_SIZE = 4096"

definition IMAGE_FILE_MACHINE_I386 :: nat where "IMAGE_FILE_MACHINE_I386 = 0x014c"
definition IMAGE_FILE_MACHINE_IA64 :: nat where "IMAGE_FILE_MACHINE_IA64 = 0x0200"
definition IMAGE_FILE_MACHINE_X64 :: nat where "IMAGE_FILE_MACHINE_X64 = 0x8664"
definition IMAGE_FILE_MACHINE_ARMTHUMB_MIXED :: nat where "IMAGE_FILE_MACHINE_ARMTHUMB_MIXED = 0x01c2"
definition IMAGE_FILE_MACHINE_ARM64 :: nat where "IMAGE_FILE_MACHINE_ARM64 = 0xaa64"
definition IMAGE_FILE_MACHINE_RISCV64 :: nat where "IMAGE_FILE_MACHINE_RISCV64 = 0x5064"

definition EFI_IMAGE_FILE_RELOCS_STRIPPED :: nat where "EFI_IMAGE_FILE_RELOCS_STRIPPED = 1"
definition EFI_IMAGE_DLLCHARACTERISTICS_NX_COMPAT :: nat where
  "EFI_IMAGE_DLLCHARACTERISTICS_NX_COMPAT = 0x0100"
definition MOK_POLICY_REQUIRE_NX :: nat where "MOK_POLICY_REQUIRE_NX = 1"

text \<open>\<^verbatim>\<open>EFI_IMAGE_DOS_HEADER\<close> is 64 bytes.\<close>

definition e_magic :: "buf \<Rightarrow> nat option" where "e_magic d = rd16 d 0"
definition e_lfanew :: "buf \<Rightarrow> nat option" where "e_lfanew d = rd32 d 60"

text \<open>The fields of \<^verbatim>\<open>EFI_IMAGE_OPTIONAL_HEADER_UNION\<close> at \<open>pe\<close>: the signature, the file header at
  4 and the optional header at 24. \<^verbatim>\<open>Te.Signature\<close> is the first two bytes.\<close>

definition Te_Signature :: "buf \<Rightarrow> nat \<Rightarrow> nat option" where "Te_Signature d pe = rd16 d pe"

definition FileHeader_Machine :: "buf \<Rightarrow> nat \<Rightarrow> nat option" where
  "FileHeader_Machine d pe = rd16 d (pe + 4)"
definition FileHeader_NumberOfSections :: "buf \<Rightarrow> nat \<Rightarrow> nat option" where
  "FileHeader_NumberOfSections d pe = rd16 d (pe + 6)"
definition FileHeader_SizeOfOptionalHeader :: "buf \<Rightarrow> nat \<Rightarrow> nat option" where
  "FileHeader_SizeOfOptionalHeader d pe = rd16 d (pe + 20)"
definition FileHeader_Characteristics :: "buf \<Rightarrow> nat \<Rightarrow> nat option" where
  "FileHeader_Characteristics d pe = rd16 d (pe + 22)"

text \<open>The optional header: \<^verbatim>\<open>Pe32\<close> and \<^verbatim>\<open>Pe32Plus\<close> differ in \<^verbatim>\<open>ImageBase\<close> and after
  \<^verbatim>\<open>DllCharacteristics\<close>.\<close>

definition Opt_Magic :: "buf \<Rightarrow> nat \<Rightarrow> nat option" where "Opt_Magic d pe = rd16 d (pe + 24)"
definition Opt_AddressOfEntryPoint :: "buf \<Rightarrow> nat \<Rightarrow> nat option" where
  "Opt_AddressOfEntryPoint d pe = rd32 d (pe + 40)"
definition Opt_ImageBase :: "bool \<Rightarrow> buf \<Rightarrow> nat \<Rightarrow> nat option" where
  "Opt_ImageBase pe64 d pe = (if pe64 then rd64 d (pe + 48) else rd32 d (pe + 52))"
definition Opt_SectionAlignment :: "buf \<Rightarrow> nat \<Rightarrow> nat option" where
  "Opt_SectionAlignment d pe = rd32 d (pe + 56)"
definition Opt_FileAlignment :: "buf \<Rightarrow> nat \<Rightarrow> nat option" where
  "Opt_FileAlignment d pe = rd32 d (pe + 60)"
definition Opt_SizeOfImage :: "buf \<Rightarrow> nat \<Rightarrow> nat option" where
  "Opt_SizeOfImage d pe = rd32 d (pe + 80)"
definition Opt_SizeOfHeaders :: "buf \<Rightarrow> nat \<Rightarrow> nat option" where
  "Opt_SizeOfHeaders d pe = rd32 d (pe + 84)"
definition Opt_DllCharacteristics :: "buf \<Rightarrow> nat \<Rightarrow> nat option" where
  "Opt_DllCharacteristics d pe = rd16 d (pe + 94)"
definition Opt_NumberOfRvaAndSizes :: "bool \<Rightarrow> buf \<Rightarrow> nat \<Rightarrow> nat option" where
  "Opt_NumberOfRvaAndSizes pe64 d pe = rd32 d (pe + (if pe64 then 132 else 116))"

text \<open>The offset of a data directory, and its two fields.\<close>

definition DataDirectory :: "bool \<Rightarrow> nat \<Rightarrow> nat \<Rightarrow> nat" where
  "DataDirectory pe64 pe k = pe + (if pe64 then 136 else 120) + 8 * k"
definition Dir_VirtualAddress :: "buf \<Rightarrow> nat \<Rightarrow> nat option" where "Dir_VirtualAddress d a = rd32 d a"
definition Dir_Size :: "buf \<Rightarrow> nat \<Rightarrow> nat option" where "Dir_Size d a = rd32 d (a + 4)"

lemmas pe_fields = e_magic_def e_lfanew_def Te_Signature_def FileHeader_Machine_def
  FileHeader_NumberOfSections_def FileHeader_SizeOfOptionalHeader_def FileHeader_Characteristics_def
  Opt_Magic_def Opt_AddressOfEntryPoint_def Opt_ImageBase_def Opt_SectionAlignment_def
  Opt_FileAlignment_def Opt_SizeOfImage_def Opt_SizeOfHeaders_def Opt_DllCharacteristics_def
  Opt_NumberOfRvaAndSizes_def Dir_VirtualAddress_def Dir_Size_def

text \<open>\<^verbatim>\<open>PE_COFF_LOADER_IMAGE_CONTEXT\<close>, without the two fields that are never used.\<close>

record pe_context =
  ImageAddr :: nat
  ImageSize :: nat
  EntryPoint :: nat
  SizeOfHeaders :: nat
  NumberOfSections :: nat
  SectionAlignment :: nat
  FirstSection :: "nat option"
  RelocDir :: nat
  SecDir :: nat
  NumberOfRvaAndSizes :: nat
  DllCharacteristics :: nat
  PEHdr :: nat

section \<open>Addresses in an image\<close>

text \<open>\<^verbatim>\<open>ImageAddress\<close> on absolute addresses. An image that lies in the address space does not
  reach the overflow check, so that the code's uses are \<^verbatim>\<open>image_offset\<close>.\<close>

definition ImageAddress :: "nat \<Rightarrow> nat \<Rightarrow> nat \<Rightarrow> nat option" where
  "ImageAddress img sz address = (if address \<ge> sz then None else checked_add img address)"

definition image_offset :: "nat \<Rightarrow> nat \<Rightarrow> nat option" where
  "image_offset sz address = (if address \<ge> sz then None else Some address)"

lemma ImageAddress_offset:
  "img + sz \<le> 2 ^ 64 \<Longrightarrow> ImageAddress img sz a = map_option ((+) img) (image_offset sz a)"
  by (simp add: ImageAddress_def image_offset_def checked_add_def)

section \<open>Supported images\<close>

datatype arch = X86_64 | AARCH64 | ARM | I386 | IA64 | RISCV64

text \<open>What the build and the globals contribute: the architecture, the option
  \<^verbatim>\<open>ALLOW_32BIT_KERNEL_ON_X64\<close>, \<^verbatim>\<open>in_protocol\<close> and \<^verbatim>\<open>mok_policy\<close>.\<close>

record pe_env =
  pe_arch :: arch
  kernel32_on_x64 :: bool
  in_protocol :: bool
  mok_policy :: nat

definition allow_64_bit :: "pe_env \<Rightarrow> bool" where
  "allow_64_bit e =
     (case pe_arch e of X86_64 \<Rightarrow> True | AARCH64 \<Rightarrow> True | I386 \<Rightarrow> in_protocol e | RISCV64 \<Rightarrow> True
      | _ \<Rightarrow> False)"

definition allow_32_bit :: "pe_env \<Rightarrow> bool" where
  "allow_32_bit e =
     (case pe_arch e of X86_64 \<Rightarrow> kernel32_on_x64 e \<and> in_protocol e | I386 \<Rightarrow> True | AARCH64 \<Rightarrow> False
      | RISCV64 \<Rightarrow> False | _ \<Rightarrow> True)"

definition machine_type :: "pe_env \<Rightarrow> nat" where
  "machine_type e =
     (case pe_arch e of X86_64 \<Rightarrow> IMAGE_FILE_MACHINE_X64 | AARCH64 \<Rightarrow> IMAGE_FILE_MACHINE_ARM64
      | ARM \<Rightarrow> IMAGE_FILE_MACHINE_ARMTHUMB_MIXED | I386 \<Rightarrow> IMAGE_FILE_MACHINE_I386
      | IA64 \<Rightarrow> IMAGE_FILE_MACHINE_IA64 | RISCV64 \<Rightarrow> IMAGE_FILE_MACHINE_RISCV64)"

definition image_is_64_bit :: "buf \<Rightarrow> nat \<Rightarrow> bool option" where
  "image_is_64_bit d pe = do {
     magic \<leftarrow> Opt_Magic d pe;
     Some (magic = EFI_IMAGE_NT_OPTIONAL_HDR64_MAGIC)
   }"

definition image_is_loadable :: "pe_env \<Rightarrow> buf \<Rightarrow> nat \<Rightarrow> bool option" where
  "image_is_loadable e d pe = do {
     machine \<leftarrow> FileHeader_Machine d pe;
     magic \<leftarrow> Opt_Magic d pe;
     pe64 \<leftarrow> image_is_64_bit d pe;
     Some (if machine \<noteq> machine_type e \<and>
              \<not> (machine_type e = IMAGE_FILE_MACHINE_I386 \<and> machine = IMAGE_FILE_MACHINE_X64 \<and>
                 allow_64_bit e) then False
           else if magic \<noteq> EFI_IMAGE_NT_OPTIONAL_HDR64_MAGIC \<and>
                   magic \<noteq> EFI_IMAGE_NT_OPTIONAL_HDR32_MAGIC then False
           else if pe64 then allow_64_bit e
           else allow_32_bit e)
   }"

section \<open>read\_header\<close>

text \<open>The first checks: the DOS header, the room for the PE header, and the machine. The result is
  the offset of the PE header.\<close>

definition read_header_start :: "pe_env \<Rightarrow> buf \<Rightarrow> nat \<Rightarrow> (efi_status + nat) option" where
  "read_header_start e d datasize =
     (if datasize < 64 then Some (Inl EFI_UNSUPPORTED)
      else do {
        magic \<leftarrow> e_magic d;
        lfanew \<leftarrow> e_lfanew d;
        let dos = magic = EFI_IMAGE_DOS_SIGNATURE;
            pe = (if dos then lfanew else 0)
        in if dos \<and> (lfanew < 64 \<or> lfanew > datasize - 4) then Some (Inl EFI_UNSUPPORTED)
           else if datasize - pe < 248 then Some (Inl EFI_UNSUPPORTED)
           else do {
             pe64 \<leftarrow> image_is_64_bit d pe;
             if pe64 \<and> datasize - pe < 264 then Some (Inl EFI_UNSUPPORTED)
             else do {
               ok \<leftarrow> image_is_loadable e d pe;
               Some (if ok then Inr pe else Inl EFI_UNSUPPORTED)
             }
           }
      })"

text \<open>The checks that the alignment is even and that the data directories and the section headers
  fit; each of them fails with \<^verbatim>\<open>EFI_UNSUPPORTED\<close>. The offset of the section headers is computed
  from \<^verbatim>\<open>e_lfanew\<close>, whether there is a DOS header or not.\<close>

definition header_layout_ok :: "bool \<Rightarrow> nat \<Rightarrow> nat \<Rightarrow> nat \<Rightarrow> nat \<Rightarrow> nat \<Rightarrow> nat \<Rightarrow> nat \<Rightarrow> nat \<Rightarrow> bool" where
  "header_layout_ok pe64 datasize nrva hdrs img falign nsec opthdr lfanew =
     (let OptHeaderSize = (if pe64 then 240 else 224);
          HeaderWithoutDataDir = OptHeaderSize - 8 * EFI_IMAGE_NUMBER_OF_DIRECTORY_ENTRIES;
          SectionHeaderOffset = lfanew + 4 + 20 + opthdr
      in falign mod 2 = 0 \<and>
         \<not> EFI_IMAGE_NUMBER_OF_DIRECTORY_ENTRIES < nrva \<and>
         HeaderWithoutDataDir \<le> opthdr \<and> opthdr - HeaderWithoutDataDir = nrva * 8 \<and>
         SectionHeaderOffset \<le> img \<and>
         \<not> (img - SectionHeaderOffset) div EFI_IMAGE_SIZEOF_SECTION_HEADER \<le> nsec \<and>
         SectionHeaderOffset \<le> hdrs \<and>
         \<not> (hdrs - SectionHeaderOffset) div EFI_IMAGE_SIZEOF_SECTION_HEADER < nsec \<and>
         \<not> nsec * 40 + SectionHeaderOffset > datasize)"

text \<open>The default alignments.\<close>

definition section_alignment :: "nat \<Rightarrow> nat \<Rightarrow> nat" where
  "section_alignment salign falign =
     (let falign = (if falign = 0 then 0x200 else falign);
          salign = (if salign = 0 then PAGE_SIZE else salign)
      in if salign < falign then falign else salign)"

text \<open>The result is \<^verbatim>\<open>NumberOfRvaAndSizes\<close>, \<^verbatim>\<open>SizeOfHeaders\<close>, \<^verbatim>\<open>ImageSize\<close>, \<^verbatim>\<open>SectionAlignment\<close> and
  \<^verbatim>\<open>NumberOfSections\<close>.\<close>

definition read_header_layout ::
    "bool \<Rightarrow> buf \<Rightarrow> nat \<Rightarrow> nat \<Rightarrow> (efi_status + nat \<times> nat \<times> nat \<times> nat \<times> nat) option" where
  "read_header_layout pe64 d datasize pe = do {
     nrva \<leftarrow> Opt_NumberOfRvaAndSizes pe64 d pe;
     hdrs \<leftarrow> Opt_SizeOfHeaders d pe;
     img \<leftarrow> Opt_SizeOfImage d pe;
     salign \<leftarrow> Opt_SectionAlignment d pe;
     falign \<leftarrow> Opt_FileAlignment d pe;
     nsec \<leftarrow> FileHeader_NumberOfSections d pe;
     opthdr \<leftarrow> FileHeader_SizeOfOptionalHeader d pe;
     lfanew \<leftarrow> e_lfanew d;
     Some (if header_layout_ok pe64 datasize nrva hdrs img falign nsec opthdr lfanew then
             Inr (nrva, hdrs, img, section_alignment salign falign, nsec)
           else Inl EFI_UNSUPPORTED)
   }"

definition read_header :: "pe_env \<Rightarrow> buf \<Rightarrow> nat \<Rightarrow> bool \<Rightarrow> (efi_status + pe_context) option" where
  "read_header e d datasize check_secdir = do {
     start \<leftarrow> read_header_start e d datasize;
     case start of
       Inl st \<Rightarrow> Some (Inl st)
     | Inr pe \<Rightarrow> do {
         pe64 \<leftarrow> image_is_64_bit d pe;
         layout \<leftarrow> read_header_layout pe64 d datasize pe;
         case layout of
           Inl st \<Rightarrow> Some (Inl st)
         | Inr (nrva, hdrs, img, salign, nsec) \<Rightarrow>
             if pe + 264 > datasize then Some (Inl EFI_UNSUPPORTED)
             else do {
               sig \<leftarrow> Te_Signature d pe;
               chars \<leftarrow> FileHeader_Characteristics d pe;
               base \<leftarrow> Opt_ImageBase pe64 d pe;
               entry \<leftarrow> Opt_AddressOfEntryPoint d pe;
               dll \<leftarrow> Opt_DllCharacteristics d pe;
               opthdr \<leftarrow> FileHeader_SizeOfOptionalHeader d pe;
               let secdir = DataDirectory pe64 pe 4;
                   first = pe + opthdr + 4 + 20
               in if sig \<noteq> EFI_IMAGE_NT_SIGNATURE then Some (Inl EFI_UNSUPPORTED)
                  else if chars AND EFI_IMAGE_FILE_RELOCS_STRIPPED \<noteq> 0 then Some (Inl EFI_UNSUPPORTED)
                  else if mok_policy e AND MOK_POLICY_REQUIRE_NX \<noteq> 0 \<and>
                          dll AND EFI_IMAGE_DLLCHARACTERISTICS_NX_COMPAT = 0 then
                    Some (Inl EFI_UNSUPPORTED)
                  else if first > datasize then Some (Inl EFI_UNSUPPORTED)
                  else if img < hdrs then Some (Inl EFI_UNSUPPORTED)
                  else if secdir > datasize - 8 then Some (Inl EFI_UNSUPPORTED)
                  else do {
                    va \<leftarrow> Dir_VirtualAddress d secdir;
                    sz \<leftarrow> Dir_Size d secdir;
                    Some (if check_secdir \<and> (va > datasize \<or> va = datasize \<and> sz > 0) then
                            Inl EFI_INVALID_PARAMETER
                          else Inr \<lparr>ImageAddr = base, ImageSize = img, EntryPoint = entry,
                            SizeOfHeaders = hdrs, NumberOfSections = nsec, SectionAlignment = salign,
                            FirstSection = Some first, RelocDir = DataDirectory pe64 pe 5,
                            SecDir = secdir, NumberOfRvaAndSizes = nrva, DllCharacteristics = dll,
                            PEHdr = pe\<rparr>)
                  }
             }
       }
   }"

section \<open>Bounds\<close>

lemma rd_le_at [mem_simps]: "i + n \<le> length b \<Longrightarrow> rd_le n b i = Some (le_val (take n (drop i b)))"
  by (simp add: rd_le_def mem_simps)

lemmas pe_reads = pe_fields rd16_def rd32_def rd64_def

lemma bind_Some_iff: "(do { x \<leftarrow> m; f x }) = Some y \<longleftrightarrow> (\<exists>x. m = Some x \<and> f x = Some y)"
  by (cases m) auto

lemma read_header_start_total:
  assumes "datasize \<le> length d"
  shows "\<exists>r. read_header_start e d datasize = Some r \<and>
    (\<forall>pe. r = Inr pe \<longrightarrow> pe + 248 \<le> datasize \<and>
      (\<exists>pe64. image_is_64_bit d pe = Some pe64 \<and> (pe64 \<longrightarrow> pe + 264 \<le> datasize)) \<and>
      (e_magic d = Some EFI_IMAGE_DOS_SIGNATURE \<longrightarrow> e_lfanew d = Some pe))"
proof (cases "datasize < 64")
  case True
  then show ?thesis by (simp add: read_header_start_def)
next
  case False
  then obtain m l where ml: "e_magic d = Some m" "e_lfanew d = Some l"
    using assms by (simp add: pe_reads mem_simps)
  define pe where "pe = (if m = EFI_IMAGE_DOS_SIGNATURE then l else 0)"
  show ?thesis
  proof (cases "m = EFI_IMAGE_DOS_SIGNATURE \<and> (l < 64 \<or> l > datasize - 4) \<or> datasize - pe < 248")
    case True
    then show ?thesis using False ml by (auto simp: read_header_start_def Let_def pe_def)
  next
    case room: False
    then have pe: "pe + 248 \<le> datasize" by auto
    then obtain g where "Opt_Magic d pe = Some g" "FileHeader_Machine d pe \<noteq> None"
      using assms by (simp add: pe_reads mem_simps)
    then have "\<exists>b. image_is_64_bit d pe = Some b" "\<exists>b. image_is_loadable e d pe = Some b"
      by (auto simp: image_is_64_bit_def image_is_loadable_def)
    then show ?thesis
      using False room ml pe
      by (cases "m = EFI_IMAGE_DOS_SIGNATURE") (auto simp: read_header_start_def Let_def pe_def)
  qed
qed

lemma read_header_layout_total:
  assumes "datasize \<le> length d" and "pe + 248 \<le> datasize" and "64 \<le> datasize"
    and "pe64 \<Longrightarrow> pe + 264 \<le> datasize"
  shows "\<exists>r. read_header_layout pe64 d datasize pe = Some r"
  using assms by (auto simp: read_header_layout_def pe_reads mem_simps Let_def)

text \<open>What \<^verbatim>\<open>read_header\<close> has checked when it succeeds.\<close>

definition context_ok :: "buf \<Rightarrow> nat \<Rightarrow> pe_context \<Rightarrow> bool" where
  "context_ok d datasize c \<longleftrightarrow>
     PEHdr c + 264 \<le> datasize \<and> SecDir c + 8 \<le> datasize \<and> RelocDir c + 8 \<le> datasize \<and>
     PEHdr c + 92 \<le> SecDir c \<and> SecDir c + 8 = RelocDir c \<and>
     SizeOfHeaders c \<le> ImageSize c \<and> ImageSize c < 2 ^ 32 \<and> NumberOfSections c < 2 ^ 16 \<and>
     NumberOfRvaAndSizes c \<le> 16 \<and> 0 < SectionAlignment c \<and> SectionAlignment c < 2 ^ 32 \<and>
     EntryPoint c < 2 ^ 32 \<and> ImageAddr c < 2 ^ 64 \<and>
     FileHeader_NumberOfSections d (PEHdr c) = Some (NumberOfSections c) \<and>
     (\<exists>first. FirstSection c = Some first \<and> PEHdr c + 24 \<le> first \<and> first \<le> datasize \<and>
        (e_magic d = Some EFI_IMAGE_DOS_SIGNATURE \<longrightarrow>
           first + 40 * NumberOfSections c \<le> datasize \<and>
           first + 40 * NumberOfSections c \<le> SizeOfHeaders c)) \<and>
     (e_magic d = Some EFI_IMAGE_DOS_SIGNATURE \<longrightarrow> e_lfanew d = Some (PEHdr c))"

lemma header_layout_okD:
  assumes "header_layout_ok pe64 datasize nrva hdrs img falign nsec opthdr lfanew"
  shows "nrva \<le> 16" "96 \<le> opthdr" "lfanew + 24 + opthdr + 40 * nsec \<le> datasize"
    "lfanew + 24 + opthdr + 40 * nsec \<le> hdrs"
proof -
  note ok = assms [unfolded header_layout_ok_def Let_def EFI_IMAGE_NUMBER_OF_DIRECTORY_ENTRIES_def
      EFI_IMAGE_SIZEOF_SECTION_HEADER_def]
  show "nrva \<le> 16" and "lfanew + 24 + opthdr + 40 * nsec \<le> datasize"
    using ok by linarith+
  show "96 \<le> opthdr" using ok by (auto split: if_splits)
  have "nsec * 40 \<le> (hdrs - (lfanew + 4 + 20 + opthdr)) div 40 * 40"
    using ok by (intro mult_le_mono1) linarith
  also have "\<dots> \<le> hdrs - (lfanew + 4 + 20 + opthdr)" by (rule div_times_less_eq_dividend)
  finally show "lfanew + 24 + opthdr + 40 * nsec \<le> hdrs" using ok by linarith
qed

lemma section_alignment_bounds:
  "salign < 2 ^ 32 \<Longrightarrow> falign < 2 ^ 32 \<Longrightarrow>
    0 < section_alignment salign falign \<and> section_alignment salign falign < 2 ^ 32"
  by (auto simp: section_alignment_def Let_def PAGE_SIZE_def)

lemma read_header_layout_ok:
  assumes "read_header_layout pe64 d datasize pe = Some (Inr (nrva, hdrs, img, salign, nsec))"
  shows "nrva \<le> 16 \<and> hdrs < 2 ^ 32 \<and> img < 2 ^ 32 \<and> 0 < salign \<and> salign < 2 ^ 32 \<and> nsec < 2 ^ 16 \<and>
    FileHeader_NumberOfSections d pe = Some nsec \<and>
    (\<exists>opthdr lfanew. FileHeader_SizeOfOptionalHeader d pe = Some opthdr \<and> e_lfanew d = Some lfanew \<and>
      96 \<le> opthdr \<and> lfanew + 24 + opthdr + 40 * nsec \<le> hdrs \<and> lfanew + 24 + opthdr + 40 * nsec \<le> datasize)"
proof -
  from assms obtain nrva' hdrs' img' salign0 falign nsec' opthdr lfanew where f:
      "Opt_SizeOfHeaders d pe = Some hdrs'" "Opt_SizeOfImage d pe = Some img'"
      "Opt_SectionAlignment d pe = Some salign0" "Opt_FileAlignment d pe = Some falign"
      "FileHeader_NumberOfSections d pe = Some nsec'"
      "FileHeader_SizeOfOptionalHeader d pe = Some opthdr" "e_lfanew d = Some lfanew"
    and r: "(if header_layout_ok pe64 datasize nrva' hdrs' img' falign nsec' opthdr lfanew then
        Inr (nrva', hdrs', img', section_alignment salign0 falign, nsec') else Inl EFI_UNSUPPORTED) =
      (Inr (nrva, hdrs, img, salign, nsec) :: efi_status + _)"
    unfolding read_header_layout_def bind_Some_iff option.inject by (elim exE conjE)
  then have e: "hdrs' = hdrs" "img' = img" "nsec' = nsec" "salign = section_alignment salign0 falign"
      and n: "header_layout_ok pe64 datasize nrva hdrs img falign nsec opthdr lfanew"
    by (simp_all split: if_splits)
  have b: "hdrs < 2 ^ 32" "img < 2 ^ 32" "salign0 < 2 ^ 32" "falign < 2 ^ 32" "nsec < 2 ^ 16"
    using f e by (auto simp: pe_fields dest: rd16_bound rd32_bound)
  show ?thesis
    using f(5,6,7) e section_alignment_bounds [OF b(3,4)] b header_layout_okD [OF n] by auto
qed

lemma read_header_spec:
  assumes "datasize \<le> length d"
  shows "\<exists>r. read_header e d datasize check = Some r \<and>
    (\<forall>c. r = Inr c \<longrightarrow> context_ok d datasize c \<and>
      (check \<longrightarrow> (\<exists>va sz. Dir_VirtualAddress d (SecDir c) = Some va \<and> Dir_Size d (SecDir c) = Some sz \<and>
        va \<le> datasize \<and> (va = datasize \<longrightarrow> sz = 0))))"
proof -
  obtain r where r: "read_header_start e d datasize = Some r"
      "\<forall>pe. r = Inr pe \<longrightarrow> pe + 248 \<le> datasize \<and>
        (\<exists>pe64. image_is_64_bit d pe = Some pe64 \<and> (pe64 \<longrightarrow> pe + 264 \<le> datasize)) \<and>
        (e_magic d = Some EFI_IMAGE_DOS_SIGNATURE \<longrightarrow> e_lfanew d = Some pe)"
    using read_header_start_total [OF assms] by blast
  show ?thesis
  proof (cases r)
    case (Inl st)
    then show ?thesis using r by (simp add: read_header_def)
  next
    case (Inr pe)
    then obtain pe64 where pe: "pe + 248 \<le> datasize" "image_is_64_bit d pe = Some pe64"
        "pe64 \<longrightarrow> pe + 264 \<le> datasize" "e_magic d = Some EFI_IMAGE_DOS_SIGNATURE \<longrightarrow> e_lfanew d = Some pe"
      using r(2) by blast
    obtain lay where lay: "read_header_layout pe64 d datasize pe = Some lay"
      using read_header_layout_total [OF assms pe(1)] pe(1,3) by auto
    show ?thesis
    proof (cases lay)
      case (Inl st)
      then show ?thesis using r pe lay Inr by (simp add: read_header_def)
    next
      case lr: (Inr t)
      obtain nrva hdrs img salign nsec where t: "t = (nrva, hdrs, img, salign, nsec)" by (cases t)
      note ok = read_header_layout_ok [OF lay [unfolded lr t]]
      show ?thesis
      proof (cases "pe + 264 > datasize")
        case True
        then show ?thesis using r pe lay Inr lr t by (simp add: read_header_def)
      next
        case False
        then obtain sig chars base entry dll where f: "Te_Signature d pe = Some sig"
            "FileHeader_Characteristics d pe = Some chars" "Opt_ImageBase pe64 d pe = Some base"
            "Opt_AddressOfEntryPoint d pe = Some entry" "Opt_DllCharacteristics d pe = Some dll"
          using assms by (cases pe64) (simp_all add: pe_reads mem_simps)
        have b: "base < 2 ^ 64" "entry < 2 ^ 32"
          using f by (auto simp: pe_fields split: if_splits dest: rd32_bound rd64_bound)
        have dirs: "DataDirectory pe64 pe 4 + 8 = DataDirectory pe64 pe 5"
            "DataDirectory pe64 pe 5 + 8 \<le> datasize" "pe + 92 \<le> DataDirectory pe64 pe 4"
          using False by (auto simp: DataDirectory_def)
        then obtain va sz where dv: "Dir_VirtualAddress d (DataDirectory pe64 pe 4) = Some va"
            "Dir_Size d (DataDirectory pe64 pe 4) = Some sz"
          using assms by (simp add: pe_reads mem_simps)
        show ?thesis
          using r pe lay Inr lr t False f b dirs dv ok
          by (auto simp: read_header_def Let_def context_ok_def)
      qed
    qed
  qed
qed

section \<open>Reading a prefix\<close>

text \<open>What is read inside a prefix of a buffer is read in the whole buffer: \<open>opt_le\<close> is equality where the
  left side is defined.\<close>

definition opt_le :: "'a option \<Rightarrow> 'a option \<Rightarrow> bool" where
  "opt_le a b \<longleftrightarrow> a = None \<or> a = b"

lemma opt_le_refl [opt_le_intros]: "opt_le a a"
  by (simp add: opt_le_def)

lemma opt_le_bind [opt_le_intros]:
  "opt_le m m' \<Longrightarrow> (\<And>x. opt_le (f x) (f' x)) \<Longrightarrow> opt_le (do { x \<leftarrow> m; f x }) (do { x \<leftarrow> m'; f' x })"
  by (cases m) (auto simp: opt_le_def, metis)

lemma opt_le_if [opt_le_intros]:
  "opt_le a a' \<Longrightarrow> opt_le b b' \<Longrightarrow> opt_le (if P then a else b) (if P then a' else b')"
  by simp

lemma opt_le_sum [opt_le_intros]:
  "(\<And>x. opt_le (f x) (f' x)) \<Longrightarrow> (\<And>y. opt_le (g y) (g' y)) \<Longrightarrow>
    opt_le (case s of Inl x \<Rightarrow> f x | Inr y \<Rightarrow> g y) (case s of Inl x \<Rightarrow> f' x | Inr y \<Rightarrow> g' y)"
  by (cases s) auto

lemma opt_le_prod [opt_le_intros]:
  "(\<And>x y. opt_le (f x y) (f' x y)) \<Longrightarrow>
    opt_le (case p of (x, y) \<Rightarrow> f x y) (case p of (x, y) \<Rightarrow> f' x y)"
  by (cases p) auto

lemma opt_le_let [opt_le_intros]:
  "(\<And>x. opt_le (f x) (f' x)) \<Longrightarrow> opt_le (let x = a in f x) (let x = a in f' x)"
  by simp

lemma opt_le_SomeD: "opt_le a b \<Longrightarrow> a = Some x \<Longrightarrow> b = Some x"
  by (auto simp: opt_le_def)

lemma opt_le_rd_le [opt_le_intros]: "opt_le (rd_le n (take m d) i) (rd_le n d i)"
  by (auto simp: opt_le_def rd_le_def rdn_def drop_take min_def)

lemmas opt_le_reads [opt_le_intros] =
  opt_le_rd_le [of 2, folded rd16_def] opt_le_rd_le [of 4, folded rd32_def]
  opt_le_rd_le [of 8, folded rd64_def]

lemma opt_le_is_64_bit [opt_le_intros]:
  "opt_le (image_is_64_bit (take m d) pe) (image_is_64_bit d pe)"
  unfolding image_is_64_bit_def pe_fields by (intro opt_le_intros)

lemma opt_le_is_loadable [opt_le_intros]:
  "opt_le (image_is_loadable e (take m d) pe) (image_is_loadable e d pe)"
  unfolding image_is_loadable_def pe_fields by (intro opt_le_intros)

lemma opt_le_header_start [opt_le_intros]:
  "opt_le (read_header_start e (take m d) datasize) (read_header_start e d datasize)"
  unfolding read_header_start_def pe_fields by (intro opt_le_intros)

lemma opt_le_header_layout [opt_le_intros]:
  "opt_le (read_header_layout pe64 (take m d) datasize pe) (read_header_layout pe64 d datasize pe)"
  unfolding read_header_layout_def pe_fields by (intro opt_le_intros)

lemma opt_le_read_header:
  "opt_le (read_header e (take m d) datasize check) (read_header e d datasize check)"
  unfolding read_header_def pe_fields by (intro opt_le_intros)

section \<open>A sample image\<close>

lemma case_SomeInrD:
  "(case x of None \<Rightarrow> False | Some (Inl a) \<Rightarrow> False | Some (Inr b) \<Rightarrow> P b) \<Longrightarrow> \<exists>b. x = Some (Inr b) \<and> P b"
  by (auto split: option.splits sum.splits)

text \<open>An x86_64 image with a DOS header, one section and the given data directories.\<close>

definition sample_header ::
    "nat \<Rightarrow> nat \<Rightarrow> nat \<Rightarrow> nat \<Rightarrow> nat \<times> nat \<Rightarrow> nat \<times> nat \<Rightarrow> buf" where
  "sample_header nsec entry img hdrs secdir reloc =
     le_bytes 2 EFI_IMAGE_DOS_SIGNATURE @ replicate 58 0 @ le_bytes 4 64 @
     le_bytes 2 EFI_IMAGE_NT_SIGNATURE @ replicate 2 0 @ le_bytes 2 IMAGE_FILE_MACHINE_X64 @ le_bytes 2 nsec @ replicate 12 0 @
     le_bytes 2 240 @ le_bytes 2 0 @
     le_bytes 2 EFI_IMAGE_NT_OPTIONAL_HDR64_MAGIC @ replicate 14 0 @ le_bytes 4 entry @ replicate 4 0 @
     le_bytes 8 0x10000 @ le_bytes 4 8 @ le_bytes 4 8 @ replicate 16 0 @ le_bytes 4 img @
     le_bytes 4 hdrs @ le_bytes 4 0 @ le_bytes 2 10 @ le_bytes 2 EFI_IMAGE_DLLCHARACTERISTICS_NX_COMPAT @
     replicate 32 0 @ le_bytes 4 0 @ le_bytes 4 16 @ replicate 32 0 @
     le_bytes 4 (fst secdir) @ le_bytes 4 (snd secdir) @ le_bytes 4 (fst reloc) @ le_bytes 4 (snd reloc) @
     replicate 80 0"

definition sample_section :: "string \<Rightarrow> nat \<Rightarrow> nat \<Rightarrow> nat \<Rightarrow> nat \<Rightarrow> nat \<Rightarrow> buf" where
  "sample_section name vsize va rawsize raw chars =
     lit name @ replicate (8 - length name) 0 @ le_bytes 4 vsize @ le_bytes 4 va @ le_bytes 4 rawsize @
     le_bytes 4 raw @ replicate 12 0 @ le_bytes 4 chars"

definition sample_pe :: buf where
  "sample_pe =
     sample_header 1 400 408 368 (376, 0) (0, 0) @
     sample_section ''.text'' 8 400 8 368 0x60000020 @ [1, 2, 3, 4, 5, 6, 7, 8]"

definition sample_env :: pe_env where
  "sample_env = \<lparr>pe_arch = X86_64, kernel32_on_x64 = False, in_protocol = False,
     mok_policy = MOK_POLICY_REQUIRE_NX\<rparr>"

text \<open>Reading from the concatenation of the fields.\<close>

lemma rd_le_app1: "i + n \<le> length xs \<Longrightarrow> rd_le n (xs @ ys) i = rd_le n xs i"
  by (simp add: rd_le_def rdn_def)

lemma rd_le_app2: "length xs \<le> i \<Longrightarrow> rd_le n (xs @ ys) i = rd_le n ys (i - length xs)"
  by (auto simp: rd_le_def rdn_def)

lemma rd_le_le_bytes: "v < 256 ^ n \<Longrightarrow> rd_le n (le_bytes n v) 0 = Some v"
  by (simp add: rd_le_def rdn_def le_val_le_bytes)

lemma length_lit [simp]: "length (lit s) = length s"
  by (simp add: lit_def)

lemmas rd_le_app = rd_le_app1 rd_le_app2 rd_le_le_bytes rd16_def rd32_def rd64_def

lemmas pe_constants = EFI_IMAGE_DOS_SIGNATURE_def EFI_IMAGE_NT_SIGNATURE_def IMAGE_FILE_MACHINE_X64_def
  EFI_IMAGE_NT_OPTIONAL_HDR64_MAGIC_def EFI_IMAGE_NT_OPTIONAL_HDR32_MAGIC_def
  EFI_IMAGE_DLLCHARACTERISTICS_NX_COMPAT_def EFI_IMAGE_NUMBER_OF_DIRECTORY_ENTRIES_def
  EFI_IMAGE_SIZEOF_SECTION_HEADER_def PAGE_SIZE_def EFI_IMAGE_FILE_RELOCS_STRIPPED_def
  MOK_POLICY_REQUIRE_NX_def

lemma sample_header_reads:
  assumes "nsec < 2 ^ 16" and "entry < 2 ^ 32" and "img < 2 ^ 32" and "hdrs < 2 ^ 32"
    and "fst secdir < 2 ^ 32" and "snd secdir < 2 ^ 32"
  shows "e_magic (sample_header nsec entry img hdrs secdir reloc @ rest) = Some EFI_IMAGE_DOS_SIGNATURE"
    "e_lfanew (sample_header nsec entry img hdrs secdir reloc @ rest) = Some 64"
    "Te_Signature (sample_header nsec entry img hdrs secdir reloc @ rest) 64 = Some EFI_IMAGE_NT_SIGNATURE"
    "FileHeader_Machine (sample_header nsec entry img hdrs secdir reloc @ rest) 64 = Some IMAGE_FILE_MACHINE_X64"
    "FileHeader_NumberOfSections (sample_header nsec entry img hdrs secdir reloc @ rest) 64 = Some nsec"
    "FileHeader_SizeOfOptionalHeader (sample_header nsec entry img hdrs secdir reloc @ rest) 64 = Some 240"
    "FileHeader_Characteristics (sample_header nsec entry img hdrs secdir reloc @ rest) 64 = Some 0"
    "Opt_Magic (sample_header nsec entry img hdrs secdir reloc @ rest) 64 = Some EFI_IMAGE_NT_OPTIONAL_HDR64_MAGIC"
    "Opt_AddressOfEntryPoint (sample_header nsec entry img hdrs secdir reloc @ rest) 64 = Some entry"
    "Opt_ImageBase True (sample_header nsec entry img hdrs secdir reloc @ rest) 64 = Some 0x10000"
    "Opt_SectionAlignment (sample_header nsec entry img hdrs secdir reloc @ rest) 64 = Some 8"
    "Opt_FileAlignment (sample_header nsec entry img hdrs secdir reloc @ rest) 64 = Some 8"
    "Opt_SizeOfImage (sample_header nsec entry img hdrs secdir reloc @ rest) 64 = Some img"
    "Opt_SizeOfHeaders (sample_header nsec entry img hdrs secdir reloc @ rest) 64 = Some hdrs"
    "Opt_DllCharacteristics (sample_header nsec entry img hdrs secdir reloc @ rest) 64 =
      Some EFI_IMAGE_DLLCHARACTERISTICS_NX_COMPAT"
    "Opt_NumberOfRvaAndSizes True (sample_header nsec entry img hdrs secdir reloc @ rest) 64 = Some 16"
    "Dir_VirtualAddress (sample_header nsec entry img hdrs secdir reloc @ rest) 232 = Some (fst secdir)"
    "Dir_Size (sample_header nsec entry img hdrs secdir reloc @ rest) 232 = Some (snd secdir)"
  using assms
  by (simp_all add: pe_fields sample_header_def rd_le_app pe_constants del: replicate.simps)

lemma length_sample_header [simp]: "length (sample_header nsec entry img hdrs secdir reloc) = 328"
  by (simp add: sample_header_def)

lemma length_sample_section [simp]:
  "length name \<le> 8 \<Longrightarrow> length (sample_section name vsize va rawsize raw chars) = 40"
  by (simp add: sample_section_def)

lemma read_header_sample:
  assumes "nsec < 2 ^ 16" and "entry < 2 ^ 32" and "img < 2 ^ 32" and "hdrs < 2 ^ 32"
    and "fst secdir < 2 ^ 32" and "snd secdir < 2 ^ 32"
    and "328 + 40 * nsec \<le> hdrs" and "hdrs \<le> datasize" and "368 + 40 * nsec \<le> img" and "hdrs \<le> img"
    and "fst secdir < datasize \<or> fst secdir = datasize \<and> snd secdir = 0"
  shows "read_header sample_env (sample_header nsec entry img hdrs secdir reloc @ rest) datasize True =
    Some (Inr \<lparr>ImageAddr = 0x10000, ImageSize = img, EntryPoint = entry, SizeOfHeaders = hdrs,
      NumberOfSections = nsec, SectionAlignment = 8, FirstSection = Some 328, RelocDir = 240,
      SecDir = 232, NumberOfRvaAndSizes = 16, DllCharacteristics = EFI_IMAGE_DLLCHARACTERISTICS_NX_COMPAT,
      PEHdr = 64\<rparr>)"
proof -
  let ?d = "sample_header nsec entry img hdrs secdir reloc @ rest"
  note reads = sample_header_reads [OF assms(1-6)]
  have p64: "image_is_64_bit ?d 64 = Some True" by (simp add: image_is_64_bit_def reads)
  have "image_is_loadable sample_env ?d 64 = Some True"
    by (simp add: image_is_loadable_def p64 reads sample_env_def machine_type_def allow_64_bit_def)
  then have start: "read_header_start sample_env ?d datasize = Some (Inr 64)"
    using assms by (auto simp: read_header_start_def reads p64 pe_constants)
  have "nsec * 40 div 40 \<le> (hdrs - 328) div 40" "Suc nsec * 40 div 40 \<le> (img - 328) div 40"
    using assms by (intro div_le_mono; simp)+
  then have "header_layout_ok True datasize 16 hdrs img 8 nsec 240 64"
    using assms by (simp add: header_layout_ok_def pe_constants)
  then have lay: "read_header_layout True ?d datasize 64 = Some (Inr (16, hdrs, img, 8, nsec))"
    by (simp add: read_header_layout_def reads section_alignment_def)
  have dir: "DataDirectory True 64 4 = 232" "DataDirectory True 64 5 = 240"
    by (simp_all add: DataDirectory_def)
  have env: "mok_policy sample_env = 1" by (simp add: sample_env_def pe_constants)
  show ?thesis
    using assms by (auto simp add: read_header_def start p64 lay reads dir env pe_constants)
qed

text \<open>C11. On any file of any contents, \<^verbatim>\<open>read_header\<close> accesses only the first \<^verbatim>\<open>datasize\<close> bytes and
  returns. When it succeeds, the PE header, the security and the relocation directory entry lie in the
  file, \<^verbatim>\<open>SizeOfHeaders\<close> is at most \<^verbatim>\<open>ImageSize\<close>, the sizes and the entry point are below \<open>2 ^ 32\<close>, the alignment is
  not zero, and, if the file starts with a DOS header, every section header lies in the file and in the headers.
  With \<^verbatim>\<open>check_secdir\<close> the certificate table starts inside the file, or at its end and is empty. The code
  compares neither the entry point with the image nor \<^verbatim>\<open>SizeOfHeaders\<close> with the file, and a file without a DOS
  header is accepted whose section headers may lie behind its end.\<close>

theorem read_header_safe:
  assumes "datasize \<le> length d"
  shows "\<exists>r. read_header e (take datasize d) datasize check = Some r \<and>
    read_header e d datasize check = Some r \<and>
    (\<forall>c. r = Inr c \<longrightarrow> context_ok d datasize c \<and>
      (check \<longrightarrow> (\<exists>va sz. Dir_VirtualAddress d (SecDir c) = Some va \<and> Dir_Size d (SecDir c) = Some sz \<and>
        va \<le> datasize \<and> (va = datasize \<longrightarrow> sz = 0))))"
proof -
  have "length (take datasize d) = datasize" using assms by simp
  then obtain r where r: "read_header e (take datasize d) datasize check = Some r"
    using read_header_spec [of datasize "take datasize d" e check] by auto
  show ?thesis
    using r opt_le_SomeD [OF opt_le_read_header r] read_header_spec [OF assms, of e check] by auto
qed

theorem read_header_safe_witness:
  "length sample_pe = 376 \<and>
    (\<exists>c. read_header sample_env sample_pe 376 True = Some (Inr c) \<and> context_ok sample_pe 376 c)"
proof -
  have "length sample_pe = 376" by (simp add: sample_pe_def)
  moreover have "\<exists>c. read_header sample_env sample_pe 376 True = Some (Inr c)"
    unfolding sample_pe_def by (rule exI, rule read_header_sample) simp_all
  ultimately show ?thesis
    using read_header_safe [of 376 sample_pe sample_env True] by auto
qed

end
