(* ===== verification/Pe_Relocate.thy ===== *)
theory Pe_Relocate
  imports Pe_Header
begin

text \<open>
  Sections and base relocations: \<^verbatim>\<open>relocate_coff\<close>, \<^verbatim>\<open>get_section_vma\<close> and \<^verbatim>\<open>get_section_vma_by_name\<close>
  of \<^verbatim>\<open>pe-relocate.c\<close>. The file is the buffer \<open>orig\<close>; the loaded image is a second buffer at the
  address \<open>base\<close>.

  The lemmas show that the two nested loops of \<^verbatim>\<open>relocate_coff\<close> end, and that they apply the
  fixups that the relocation table lists, in order, to the loaded image.
\<close>

section \<open>Section headers\<close>

record section_header =
  sh_Name :: buf
  sh_VirtualSize :: nat
  sh_VirtualAddress :: nat
  sh_SizeOfRawData :: nat
  sh_PointerToRawData :: nat
  sh_PointerToRelocations :: nat
  sh_NumberOfRelocations :: nat
  sh_Characteristics :: nat

definition read_section :: "buf \<Rightarrow> nat \<Rightarrow> section_header option" where
  "read_section d s = do {
     name \<leftarrow> rdn d s 8;
     vsize \<leftarrow> rd32 d (s + 8);
     va \<leftarrow> rd32 d (s + 12);
     rawsize \<leftarrow> rd32 d (s + 16);
     raw \<leftarrow> rd32 d (s + 20);
     relocs \<leftarrow> rd32 d (s + 24);
     nrelocs \<leftarrow> rd16 d (s + 32);
     chars \<leftarrow> rd32 d (s + 36);
     Some \<lparr>sh_Name = name, sh_VirtualSize = vsize, sh_VirtualAddress = va, sh_SizeOfRawData = rawsize,
       sh_PointerToRawData = raw, sh_PointerToRelocations = relocs, sh_NumberOfRelocations = nrelocs,
       sh_Characteristics = chars\<rparr>
   }"

definition EFI_IMAGE_SCN_CNT_CODE :: nat where "EFI_IMAGE_SCN_CNT_CODE = 0x00000020"
definition EFI_IMAGE_SCN_CNT_INITIALIZED_DATA :: nat where
  "EFI_IMAGE_SCN_CNT_INITIALIZED_DATA = 0x00000040"
definition EFI_IMAGE_SCN_CNT_UNINITIALIZED_DATA :: nat where
  "EFI_IMAGE_SCN_CNT_UNINITIALIZED_DATA = 0x00000080"
definition EFI_IMAGE_SCN_MEM_DISCARDABLE :: nat where "EFI_IMAGE_SCN_MEM_DISCARDABLE = 0x02000000"
definition EFI_IMAGE_SCN_MEM_EXECUTE :: nat where "EFI_IMAGE_SCN_MEM_EXECUTE = 0x20000000"
definition EFI_IMAGE_SCN_MEM_READ :: nat where "EFI_IMAGE_SCN_MEM_READ = 0x40000000"
definition EFI_IMAGE_SCN_MEM_WRITE :: nat where "EFI_IMAGE_SCN_MEM_WRITE = 0x80000000"

definition has_flag :: "section_header \<Rightarrow> nat \<Rightarrow> bool" where
  "has_flag sec flag \<longleftrightarrow> sh_Characteristics sec AND flag \<noteq> 0"

text \<open>The addresses of the first and of the last byte of a section in the image; the second sum is
  computed in 32 bits. The comparison of two pointers, one of which may be NULL.\<close>

definition section_base :: "nat \<Rightarrow> section_header \<Rightarrow> nat option" where
  "section_base img sec = image_offset img (sh_VirtualAddress sec)"

definition section_end :: "nat \<Rightarrow> section_header \<Rightarrow> nat option" where
  "section_end img sec =
     image_offset img (sub32 (add32 (sh_VirtualAddress sec) (sh_VirtualSize sec)) 1)"

fun ptr_less :: "nat option \<Rightarrow> nat option \<Rightarrow> bool" where
  "ptr_less None None = False"
| "ptr_less None (Some b) = True"
| "ptr_less (Some a) None = False"
| "ptr_less (Some a) (Some b) = (a < b)"

text \<open>\<^verbatim>\<open>get_section_vma\<close>: the base, the end (the code stores their difference) and the section.\<close>

definition get_section_vma ::
    "nat \<Rightarrow> buf \<Rightarrow> pe_context \<Rightarrow> (efi_status + nat option \<times> nat option \<times> section_header) option" where
  "get_section_vma n d c =
     (if n \<ge> NumberOfSections c then Some (Inl EFI_NOT_FOUND)
      else case FirstSection c of
        None \<Rightarrow> Some (Inl EFI_UNSUPPORTED)
      | Some first \<Rightarrow> do {
          sec \<leftarrow> read_section d (first + 40 * n);
          let base = section_base (ImageSize c) sec;
              end' = section_end (ImageSize c) sec
          in Some
            (if \<not> has_flag sec EFI_IMAGE_SCN_MEM_DISCARDABLE \<and> (base = None \<or> end' = None) then
               Inl EFI_UNSUPPORTED
             else if \<not> has_flag sec EFI_IMAGE_SCN_CNT_UNINITIALIZED_DATA \<and>
                     (sh_VirtualAddress sec < SizeOfHeaders c \<or> sh_PointerToRawData sec < SizeOfHeaders c) then
               Inl EFI_UNSUPPORTED
             else if ptr_less end' base then Inl EFI_UNSUPPORTED
             else Inr (base, end', sec))
        })"

text \<open>\<^verbatim>\<open>get_section_vma_by_name\<close>: a section that \<^verbatim>\<open>get_section_vma\<close> refuses is passed over.\<close>

function get_section_by_name_from ::
    "buf \<Rightarrow> buf \<Rightarrow> pe_context \<Rightarrow> nat \<Rightarrow> (efi_status + nat option \<times> nat option \<times> section_header) option" where
  "get_section_by_name_from namebuf d c i =
     (if \<not> i < NumberOfSections c then Some (Inl EFI_NOT_FOUND)
      else case get_section_vma i d c of
        None \<Rightarrow> None
      | Some (Inl st) \<Rightarrow> get_section_by_name_from namebuf d c (i + 1)
      | Some (Inr (base, end', sec)) \<Rightarrow>
          if sh_Name sec = namebuf then Some (Inr (base, end', sec))
          else get_section_by_name_from namebuf d c (i + 1))"
  by pat_completeness auto
termination
  by (relation "measure (\<lambda>(namebuf, d, c, i). NumberOfSections c - i)") auto

declare get_section_by_name_from.simps [simp del]

definition get_section_vma_by_name ::
    "buf \<Rightarrow> buf \<Rightarrow> nat \<Rightarrow> pe_context
      \<Rightarrow> (efi_status + nat option \<times> nat option \<times> section_header) option" where
  "get_section_vma_by_name name d bufsz c =
     (if name = [] \<or> bufsz < length name then Some (Inl EFI_INVALID_PARAMETER)
      else if length name > 8 then Some (Inl EFI_UNSUPPORTED)
      else get_section_by_name_from (name @ replicate (8 - length name) 0) d c 0)"

section \<open>Relocations\<close>

definition EFI_IMAGE_REL_BASED_ABSOLUTE :: nat where "EFI_IMAGE_REL_BASED_ABSOLUTE = 0"
definition EFI_IMAGE_REL_BASED_HIGH :: nat where "EFI_IMAGE_REL_BASED_HIGH = 1"
definition EFI_IMAGE_REL_BASED_LOW :: nat where "EFI_IMAGE_REL_BASED_LOW = 2"
definition EFI_IMAGE_REL_BASED_HIGHLOW :: nat where "EFI_IMAGE_REL_BASED_HIGHLOW = 3"
definition EFI_IMAGE_REL_BASED_DIR64 :: nat where "EFI_IMAGE_REL_BASED_DIR64 = 10"

text \<open>One fixup: \<open>None\<close> is an access outside the image, \<open>Some None\<close> an unknown type.\<close>

definition add_le :: "nat \<Rightarrow> buf \<Rightarrow> nat \<Rightarrow> nat \<Rightarrow> buf option" where
  "add_le n mem a v = do { x \<leftarrow> rd_le n mem a; wrn mem a (le_bytes n (x + v)) }"

definition reloc_fixup :: "nat \<Rightarrow> nat \<Rightarrow> nat \<Rightarrow> buf \<Rightarrow> buf option option" where
  "reloc_fixup adjust kind fixup mem =
     (if kind = EFI_IMAGE_REL_BASED_ABSOLUTE then Some (Some mem)
      else if kind = EFI_IMAGE_REL_BASED_HIGH then
        map_option Some (add_le 2 mem fixup (adjust mod 2 ^ 32 div 2 ^ 16))
      else if kind = EFI_IMAGE_REL_BASED_LOW then map_option Some (add_le 2 mem fixup (adjust mod 2 ^ 16))
      else if kind = EFI_IMAGE_REL_BASED_HIGHLOW then
        map_option Some (add_le 4 mem fixup (adjust mod 2 ^ 32))
      else if kind = EFI_IMAGE_REL_BASED_DIR64 then map_option Some (add_le 8 mem fixup adjust)
      else Some None)"

text \<open>The entries of a block, from \<open>r\<close> up to \<open>r_end\<close>. The result is the status and the image.\<close>

function reloc_entries ::
    "nat \<Rightarrow> buf \<Rightarrow> nat \<Rightarrow> nat \<Rightarrow> nat \<Rightarrow> buf \<Rightarrow> (efi_status \<times> buf) option" where
  "reloc_entries adjust orig fixup_base r_end r mem =
     (if \<not> r < r_end then Some (EFI_SUCCESS, mem)
      else case rd16 orig r of
        None \<Rightarrow> None
      | Some v \<Rightarrow>
          (case reloc_fixup adjust (v div 2 ^ 12) (fixup_base + v mod 2 ^ 12) mem of
             None \<Rightarrow> None
           | Some None \<Rightarrow> Some (EFI_UNSUPPORTED, mem)
           | Some (Some mem') \<Rightarrow> reloc_entries adjust orig fixup_base r_end (r + 2) mem'))"
  by pat_completeness auto
termination
  by (relation "measure (\<lambda>(adjust, orig, fixup_base, r_end, r, mem). r_end - r)") auto

declare reloc_entries.simps [simp del]

text \<open>The blocks. \<open>img\<close> is the value of the \<^verbatim>\<open>int\<close> variable \<^verbatim>\<open>size\<close>; the bound it gives to
  \<^verbatim>\<open>ImageAddress\<close> is its conversion to \<^verbatim>\<open>uint64_t\<close>.\<close>

definition reloc_bound :: "int \<Rightarrow> nat" where
  "reloc_bound img = nat (img mod 2 ^ 64)"

function reloc_blocks ::
    "nat \<Rightarrow> buf \<Rightarrow> int \<Rightarrow> nat \<Rightarrow> nat \<Rightarrow> nat \<Rightarrow> buf \<Rightarrow> (efi_status \<times> buf) option" where
  "reloc_blocks adjust orig img dirsize rb_end rb mem =
     (if \<not> rb < rb_end then Some (EFI_SUCCESS, mem)
      else case rd32 orig (rb + 4) of
        None \<Rightarrow> None
      | Some block \<Rightarrow>
          if block = 0 then Some (EFI_UNSUPPORTED, mem)
          else if block > dirsize then Some (EFI_UNSUPPORTED, mem)
          else if int (rb + block) > img then Some (EFI_UNSUPPORTED, mem)
          else (case rd32 orig rb of
            None \<Rightarrow> None
          | Some va \<Rightarrow>
              (case image_offset (reloc_bound img) va of
                 None \<Rightarrow> Some (EFI_UNSUPPORTED, mem)
               | Some fixup_base \<Rightarrow>
                   (case reloc_entries adjust orig fixup_base (rb + block) (rb + 8) mem of
                      None \<Rightarrow> None
                    | Some (st, mem') \<Rightarrow>
                        if EFI_ERROR st then Some (st, mem')
                        else reloc_blocks adjust orig img dirsize rb_end (rb + block) mem'))))"
  by pat_completeness auto
termination
  by (relation "measure (\<lambda>(adjust, orig, img, dirsize, rb_end, rb, mem). rb_end - rb)") auto

declare reloc_blocks.simps [simp del]

text \<open>\<^verbatim>\<open>relocate_coff\<close>: \<open>base\<close> is the address of the loaded image \<open>mem\<close>. \<^verbatim>\<open>ImageSize\<close> is converted to
  \<^verbatim>\<open>int\<close>.\<close>

definition relocate_coff ::
    "pe_context \<Rightarrow> section_header \<Rightarrow> buf \<Rightarrow> nat \<Rightarrow> buf \<Rightarrow> (efi_status \<times> buf) option" where
  "relocate_coff c sec orig base mem = do {
     dirsize \<leftarrow> Dir_Size orig (RelocDir c);
     let img = (int (ImageSize c) + 2 ^ 31) mod 2 ^ 32 - 2 ^ 31;
         rb = image_offset (reloc_bound img) (sh_PointerToRawData sec);
         rb_end = image_offset (reloc_bound img) (sub32 (add32 (sh_PointerToRawData sec) dirsize) 1);
         adjust = sub64 base (ImageAddr c)
     in case (rb, rb_end) of
          (None, None) \<Rightarrow> Some (EFI_SUCCESS, mem)
        | (Some r, Some r_end) \<Rightarrow>
            if adjust = 0 then Some (EFI_SUCCESS, mem)
            else reloc_blocks adjust orig img dirsize r_end r mem
        | _ \<Rightarrow> Some (EFI_UNSUPPORTED, mem)
   }"

section \<open>What the relocations do\<close>

text \<open>The width of the field that a relocation changes and the amount it adds.\<close>

definition reloc_width :: "nat \<Rightarrow> nat" where
  "reloc_width kind =
     (if kind = EFI_IMAGE_REL_BASED_ABSOLUTE then 0
      else if kind = EFI_IMAGE_REL_BASED_HIGHLOW then 4
      else if kind = EFI_IMAGE_REL_BASED_DIR64 then 8 else 2)"

definition reloc_delta :: "nat \<Rightarrow> nat \<Rightarrow> nat" where
  "reloc_delta adjust kind =
     (if kind = EFI_IMAGE_REL_BASED_HIGH then adjust div 2 ^ 16 else adjust)"

definition reloc_known :: "nat \<Rightarrow> bool" where
  "reloc_known kind \<longleftrightarrow> kind \<in> {EFI_IMAGE_REL_BASED_ABSOLUTE, EFI_IMAGE_REL_BASED_HIGH,
     EFI_IMAGE_REL_BASED_LOW, EFI_IMAGE_REL_BASED_HIGHLOW, EFI_IMAGE_REL_BASED_DIR64}"

lemmas reloc_kinds = EFI_IMAGE_REL_BASED_ABSOLUTE_def EFI_IMAGE_REL_BASED_HIGH_def
  EFI_IMAGE_REL_BASED_LOW_def EFI_IMAGE_REL_BASED_HIGHLOW_def EFI_IMAGE_REL_BASED_DIR64_def

lemma le_bytes_mod: "le_bytes n (v mod 256 ^ n) = le_bytes n v"
proof (induction n arbitrary: v)
  case 0
  then show ?case by simp
next
  case (Suc n)
  have "v mod 256 ^ Suc n div 256 = (v div 256) mod 256 ^ n"
    by (simp add: mod_mult2_eq div_add1_eq)
  moreover have "v mod 256 ^ Suc n mod 256 = v mod 256" by (simp add: mod_mod_cancel)
  ultimately show ?case using Suc.IH [of "v div 256"] by simp
qed

lemma le_bytes_cong: "x mod 256 ^ n = y mod 256 ^ n \<Longrightarrow> le_bytes n x = le_bytes n y"
  by (metis le_bytes_mod)

lemma add_le_in:
  "a + n \<le> length mem \<Longrightarrow>
    add_le n mem a v = Some (put mem a (le_bytes n (le_val (take n (drop a mem)) + v)))"
  by (simp add: add_le_def mem_simps)

lemma reloc_fixup_in:
  assumes "reloc_known kind" and "t + reloc_width kind \<le> length mem"
  shows "reloc_fixup adjust kind t mem =
    Some (Some (put mem t (le_bytes (reloc_width kind)
      (le_val (take (reloc_width kind) (drop t mem)) + reloc_delta adjust kind))))"
proof -
  have h: "adjust mod 2 ^ 32 div 2 ^ 16 = adjust div 2 ^ 16 mod 2 ^ 16"
    using mod_mult2_eq [of adjust "2 ^ 16" "2 ^ 16"] by simp
  have e: "le_bytes 2 (x + adjust mod 2 ^ 32 div 2 ^ 16) = le_bytes 2 (x + adjust div 2 ^ 16)"
      "le_bytes 2 (x + adjust mod 2 ^ 16) = le_bytes 2 (x + adjust)"
      "le_bytes 4 (x + adjust mod 2 ^ 32) = le_bytes 4 (x + adjust)" for x
    unfolding h by (rule le_bytes_cong; simp add: mod_simps)+
  show ?thesis
    using assms
    by (auto simp: reloc_fixup_def reloc_known_def reloc_width_def reloc_delta_def reloc_kinds add_le_in
        e [simplified] put_def)
qed

text \<open>A relocation table, block by block: the page and its entries of a type and an offset; its bytes in
  the file, and the fields of the image that it names.\<close>

type_synonym reloc_table = "(nat \<times> (nat \<times> nat) list) list"

definition enc_entry :: "nat \<times> nat \<Rightarrow> buf" where
  "enc_entry e = le_bytes 2 (fst e * 2 ^ 12 + snd e)"

definition enc_block :: "nat \<times> (nat \<times> nat) list \<Rightarrow> buf" where
  "enc_block b = le_bytes 4 (fst b) @ le_bytes 4 (8 + 2 * length (snd b)) @ concat (map enc_entry (snd b))"

definition block_fixups :: "nat \<times> (nat \<times> nat) list \<Rightarrow> (nat \<times> nat) list" where
  "block_fixups b = map (\<lambda>(kind, off). (kind, fst b + off)) (snd b)"

definition table_fixups :: "reloc_table \<Rightarrow> (nat \<times> nat) list" where
  "table_fixups tab = concat (map block_fixups tab)"

definition apply_fixup :: "nat \<Rightarrow> nat \<times> nat \<Rightarrow> buf \<Rightarrow> buf" where
  "apply_fixup adjust f mem = put mem (snd f) (le_bytes (reloc_width (fst f))
     (le_val (take (reloc_width (fst f)) (drop (snd f) mem)) + reloc_delta adjust (fst f)))"

definition fixup_in :: "nat \<Rightarrow> nat \<times> nat \<Rightarrow> bool" where
  "fixup_in n f \<longleftrightarrow> reloc_known (fst f) \<and> snd f + reloc_width (fst f) \<le> n"

definition entry_ok :: "nat \<times> nat \<Rightarrow> bool" where
  "entry_ok e \<longleftrightarrow> reloc_known (fst e) \<and> snd e < 2 ^ 12"

lemma length_enc_entry [simp]: "length (enc_entry e) = 2"
  by (simp add: enc_entry_def)

lemma length_enc_entries [simp]: "length (concat (map enc_entry es)) = 2 * length es"
  by (induction es) auto

lemma length_enc_block [simp]: "length (enc_block b) = 8 + 2 * length (snd b)"
  by (simp add: enc_block_def)

lemma length_apply_fixup [simp]:
  "fixup_in (length mem) f \<Longrightarrow> length (apply_fixup adjust f mem) = length mem"
  by (simp add: apply_fixup_def fixup_in_def)

lemma enc_entry_val:
  assumes "entry_ok e"
  shows "le_val (enc_entry e) div 2 ^ 12 = fst e" and "le_val (enc_entry e) mod 2 ^ 12 = snd e"
proof -
  have "fst e \<le> 15" using assms by (auto simp: entry_ok_def reloc_known_def reloc_kinds)
  then have "fst e * 2 ^ 12 + snd e < 256 ^ 2" using assms by (simp add: entry_ok_def)
  then have "le_val (enc_entry e) = fst e * 2 ^ 12 + snd e"
    by (simp add: enc_entry_def le_val_le_bytes)
  then show "le_val (enc_entry e) div 2 ^ 12 = fst e" "le_val (enc_entry e) mod 2 ^ 12 = snd e"
    using assms by (simp_all add: entry_ok_def)
qed

text \<open>The bytes that a buffer holds at an offset.\<close>

definition holds_at :: "buf \<Rightarrow> nat \<Rightarrow> buf \<Rightarrow> bool" where
  "holds_at b i s \<longleftrightarrow> i + length s \<le> length b \<and> take (length s) (drop i b) = s"

lemma holds_at_append:
  "holds_at b i (s @ t) \<longleftrightarrow> holds_at b i s \<and> holds_at b (i + length s) t"
proof
  assume "holds_at b i (s @ t)"
  then have l: "i + length s + length t \<le> length b" and e: "take (length s + length t) (drop i b) = s @ t"
    by (simp_all add: holds_at_def)
  have "take (length s) (take (length s + length t) (drop i b)) = s"
    and "drop (length s) (take (length s + length t) (drop i b)) = t"
    unfolding e by simp_all
  then show "holds_at b i s \<and> holds_at b (i + length s) t"
    using l by (simp add: holds_at_def min_def take_drop ac_simps split: if_splits)
next
  assume "holds_at b i s \<and> holds_at b (i + length s) t"
  then show "holds_at b i (s @ t)"
    by (simp add: holds_at_def take_add add.commute add.left_commute)
qed

lemma rd_le_holds: "holds_at b i s \<Longrightarrow> length s = n \<Longrightarrow> rd_le n b i = Some (le_val s)"
  by (auto simp: holds_at_def mem_simps)

lemma rd32_holds: "holds_at b i (le_bytes 4 v) \<Longrightarrow> v < 2 ^ 32 \<Longrightarrow> rd32 b i = Some v"
  by (simp add: rd32_def rd_le_holds le_val_le_bytes)

lemma reloc_entries_ok:
  assumes "holds_at orig r (concat (map enc_entry es))" and "list_all entry_ok es"
    and "list_all (fixup_in (length mem)) (map (\<lambda>(kind, off). (kind, base + off)) es)"
  shows "reloc_entries adjust orig base (r + 2 * length es) r mem =
    Some (EFI_SUCCESS, fold (apply_fixup adjust) (map (\<lambda>(kind, off). (kind, base + off)) es) mem)"
  using assms
proof (induction es arbitrary: r mem)
  case Nil
  then show ?case by (subst reloc_entries.simps) simp
next
  case (Cons e es)
  obtain kind off where e: "e = (kind, off)" by fastforce
  let ?mem = "apply_fixup adjust (kind, base + off) mem"
  have h: "holds_at orig r (enc_entry e)" "holds_at orig (r + 2) (concat (map enc_entry es))"
    using Cons.prems(1) by (simp_all add: holds_at_append)
  have f: "fixup_in (length mem) (kind, base + off)" using Cons.prems(3) by (simp add: e)
  have "rd16 orig r = Some (le_val (enc_entry e))"
    using rd_le_holds [OF h(1)] by (simp add: rd16_def)
  moreover have "reloc_fixup adjust kind (base + off) mem = Some (Some ?mem)"
    using reloc_fixup_in f by (simp add: fixup_in_def apply_fixup_def)
  moreover have "reloc_entries adjust orig base (r + 2 + 2 * length es) (r + 2) ?mem =
    Some (EFI_SUCCESS, fold (apply_fixup adjust) (map (\<lambda>(kind, off). (kind, base + off)) es) ?mem)"
    using Cons.prems f by (intro Cons.IH h(2)) simp_all
  ultimately show ?case
    using Cons.prems(2) enc_entry_val [of e] by (subst reloc_entries.simps) (simp add: e)
qed

definition block_ok :: "nat \<Rightarrow> nat \<Rightarrow> nat \<times> (nat \<times> nat) list \<Rightarrow> bool" where
  "block_ok img n b \<longleftrightarrow> fst b < img \<and> list_all entry_ok (snd b) \<and> list_all (fixup_in n) (block_fixups b)"

definition enc_table :: "reloc_table \<Rightarrow> buf" where
  "enc_table tab = concat (map enc_block tab)"

lemma length_fold_apply:
  "list_all (fixup_in (length mem)) fs \<Longrightarrow> length (fold (apply_fixup adjust) fs mem) = length mem"
  by (induction fs arbitrary: mem) auto

lemma reloc_blocks_ok:
  assumes "holds_at orig rb (enc_table tab)" and "list_all (block_ok img (length mem)) tab"
    and "length (enc_table tab) \<le> dirsize" and "dirsize < 2 ^ 32"
    and "rb + length (enc_table tab) \<le> img" and "img < 2 ^ 31"
  shows "reloc_blocks adjust orig (int img) dirsize (rb + length (enc_table tab) - 1) rb mem =
    Some (EFI_SUCCESS, fold (apply_fixup adjust) (table_fixups tab) mem)"
  using assms
proof (induction tab arbitrary: rb mem)
  case Nil
  have "\<not> rb < rb - 1" by simp
  then show ?case by (subst reloc_blocks.simps) (simp add: enc_table_def table_fixups_def)
next
  case (Cons b tab)
  let ?m = "8 + 2 * length (snd b)"
  let ?mem = "fold (apply_fixup adjust) (block_fixups b) mem"
  have len: "length (enc_table (b # tab)) = ?m + length (enc_table tab)" by (simp add: enc_table_def)
  have ok: "block_ok img (length mem) b" and m: "?m < 2 ^ 32" and va: "fst b < img"
    using Cons.prems len by (auto simp: block_ok_def)
  have h: "holds_at orig rb (le_bytes 4 (fst b))" "holds_at orig (rb + 4) (le_bytes 4 ?m)"
      "holds_at orig (rb + 8) (concat (map enc_entry (snd b)))" "holds_at orig (rb + ?m) (enc_table tab)"
    using Cons.prems(1) by (simp_all add: enc_table_def enc_block_def holds_at_append add.assoc)
  have "rd32 orig rb = Some (fst b)" using va Cons.prems(6) by (intro rd32_holds h) simp
  moreover have "rd32 orig (rb + 4) = Some ?m" using m by (intro rd32_holds h)
  moreover have "image_offset (reloc_bound (int img)) (fst b) = Some (fst b)"
    using va Cons.prems(6) by (simp add: image_offset_def reloc_bound_def)
  moreover have "reloc_entries adjust orig (fst b) (rb + 8 + 2 * length (snd b)) (rb + 8) mem
      = Some (EFI_SUCCESS, ?mem)"
    using ok h(3) reloc_entries_ok by (simp add: block_ok_def block_fixups_def)
  moreover have "length ?mem = length mem"
    using ok by (intro length_fold_apply) (simp add: block_ok_def)
  then have "reloc_blocks adjust orig (int img) dirsize (rb + ?m + length (enc_table tab) - 1) (rb + ?m) ?mem =
    Some (EFI_SUCCESS, fold (apply_fixup adjust) (table_fixups tab) ?mem)"
    using Cons.prems len by (intro Cons.IH h(4)) simp_all
  ultimately show ?case
    using Cons.prems len
    by (subst reloc_blocks.simps) (simp add: add.assoc table_fixups_def status_simps)
qed

text \<open>Fixups of disjoint fields: each field changes by its own amount, and nothing else changes.\<close>

definition fixup_field :: "buf \<Rightarrow> nat \<times> nat \<Rightarrow> buf" where
  "fixup_field mem f = take (reloc_width (fst f)) (drop (snd f) mem)"

definition in_field :: "nat \<Rightarrow> nat \<times> nat \<Rightarrow> bool" where
  "in_field i f \<longleftrightarrow> snd f \<le> i \<and> i < snd f + reloc_width (fst f)"

definition fields_apart :: "nat \<times> nat \<Rightarrow> nat \<times> nat \<Rightarrow> bool" where
  "fields_apart f g \<longleftrightarrow> snd f + reloc_width (fst f) \<le> snd g \<or> snd g + reloc_width (fst g) \<le> snd f"

lemma apply_fixup_nth:
  "fixup_in (length mem) f \<Longrightarrow> i < length mem \<Longrightarrow> \<not> in_field i f \<Longrightarrow>
    apply_fixup adjust f mem ! i = mem ! i"
  by (auto simp: fixup_in_def apply_fixup_def nth_put in_field_def)

lemma fixup_field_apply:
  "fixup_in (length mem) f \<Longrightarrow> fixup_field (apply_fixup adjust f mem) f =
    le_bytes (reloc_width (fst f)) (le_val (fixup_field mem f) + reloc_delta adjust (fst f))"
  by (simp add: fixup_in_def apply_fixup_def fixup_field_def put_def)

lemma fixup_field_cong:
  assumes "length m' = length m" and "fixup_in (length m) f"
    and "\<And>i. i < length m \<Longrightarrow> in_field i f \<Longrightarrow> m' ! i = m ! i"
  shows "fixup_field m' f = fixup_field m f"
  using assms by (intro nth_equalityI) (auto simp: fixup_field_def fixup_in_def in_field_def)

lemma fields_apart_outside: "fields_apart f g \<Longrightarrow> in_field i g \<Longrightarrow> \<not> in_field i f"
  by (auto simp: fields_apart_def in_field_def)

lemma fold_apply_outside:
  assumes "list_all (fixup_in (length mem)) fs" and "i < length mem" and "list_all (Not \<circ> in_field i) fs"
  shows "fold (apply_fixup adjust) fs mem ! i = mem ! i"
  using assms by (induction fs arbitrary: mem) (simp_all add: apply_fixup_nth)

lemma fold_apply_field:
  assumes "list_all (fixup_in (length mem)) fs" and "sorted_wrt fields_apart fs" and "f \<in> set fs"
  shows "fixup_field (fold (apply_fixup adjust) fs mem) f =
    le_bytes (reloc_width (fst f)) (le_val (fixup_field mem f) + reloc_delta adjust (fst f))"
  using assms
proof (induction fs arbitrary: mem)
  case Nil
  then show ?case by simp
next
  case (Cons g fs)
  let ?mem = "apply_fixup adjust g mem"
  have g: "fixup_in (length mem) g" and fs: "list_all (fixup_in (length mem)) fs"
    and ap: "\<And>h. h \<in> set fs \<Longrightarrow> fields_apart g h"
    using Cons.prems by auto
  show ?case
  proof (cases "f \<in> set fs")
    case True
    then have "fixup_in (length mem) f" and "fields_apart g f"
      using fs ap by (auto simp: list_all_iff)
    then have "fixup_field ?mem f = fixup_field mem f"
      using g by (intro fixup_field_cong) (auto dest: fields_apart_outside simp: apply_fixup_nth)
    then show ?thesis using Cons.IH [of ?mem] Cons.prems g True by simp
  next
    case False
    then have f: "f = g" using Cons.prems(3) by simp
    have "list_all (Not \<circ> in_field i) fs" if "in_field i g" for i
      using ap that fields_apart_outside by (fastforce simp: list_all_iff)
    then have "fixup_field (fold (apply_fixup adjust) fs ?mem) g = fixup_field ?mem g"
      using fs g by (intro fixup_field_cong) (auto simp: length_fold_apply fold_apply_outside)
    then show ?thesis using fixup_field_apply [OF g] f by simp
  qed
qed

lemma le_bytes_le_val: "length xs = n \<Longrightarrow> le_bytes n (le_val xs) = xs"
proof (induction xs arbitrary: n)
  case Nil
  then show ?case by simp
next
  case (Cons x xs)
  have "unat x < 256" using unsigned_less [of x] by simp
  then show ?case using Cons by (auto simp: word_of_nat_eq_iff)
qed

lemma put_self: "i + n \<le> length b \<Longrightarrow> put b i (take n (drop i b)) = b"
  by (simp add: put_def min_def) (metis add.commute append_take_drop_id drop_drop)

lemma reloc_delta_0 [simp]: "reloc_delta 0 kind = 0"
  by (simp add: reloc_delta_def)

lemma apply_fixup_0:
  assumes "fixup_in (length mem) f"
  shows "apply_fixup 0 f mem = mem"
proof -
  have "le_bytes (reloc_width (fst f)) (le_val (take (reloc_width (fst f)) (drop (snd f) mem))) =
      take (reloc_width (fst f)) (drop (snd f) mem)"
    using assms by (intro le_bytes_le_val) (auto simp: fixup_in_def min_def)
  then show ?thesis using assms by (simp add: apply_fixup_def fixup_in_def put_self)
qed

lemma fold_apply_0: "list_all (fixup_in (length mem)) fs \<Longrightarrow> fold (apply_fixup 0) fs mem = mem"
  by (induction fs) (simp_all add: apply_fixup_0)

text \<open>A relocation table of an image: it lies in the file and in the image, its blocks name pages of the
  image, its entries are of known types, and the fields lie in the image and do not overlap.\<close>

definition table_ok :: "pe_context \<Rightarrow> section_header \<Rightarrow> buf \<Rightarrow> nat \<Rightarrow> reloc_table \<Rightarrow> bool" where
  "table_ok c sec orig n tab \<longleftrightarrow>
     tab \<noteq> [] \<and> holds_at orig (sh_PointerToRawData sec) (enc_table tab) \<and>
     Dir_Size orig (RelocDir c) = Some (length (enc_table tab)) \<and>
     sh_PointerToRawData sec + length (enc_table tab) \<le> ImageSize c \<and> ImageSize c < 2 ^ 31 \<and>
     list_all (block_ok (ImageSize c) n) tab \<and> sorted_wrt fields_apart (table_fixups tab)"

lemma table_fixups_in:
  "list_all (block_ok img n) tab \<Longrightarrow> list_all (fixup_in n) (table_fixups tab)"
  by (induction tab) (auto simp: table_fixups_def block_ok_def)

lemma relocate_coff_table:
  assumes "table_ok c sec orig (length mem) tab"
  shows "relocate_coff c sec orig base mem =
    Some (EFI_SUCCESS, fold (apply_fixup (sub64 base (ImageAddr c))) (table_fixups tab) mem)"
proof -
  let ?p = "sh_PointerToRawData sec" and ?n = "length (enc_table tab)" and ?img = "ImageSize c"
  have ok: "holds_at orig ?p (enc_table tab)" "Dir_Size orig (RelocDir c) = Some ?n"
      "?p + ?n \<le> ?img" "?img < 2 ^ 31" "list_all (block_ok ?img (length mem)) tab" and n: "8 \<le> ?n"
    using assms by (cases tab; auto simp: table_ok_def enc_table_def)+
  have i: "(int ?img + 2 ^ 31) mod 2 ^ 32 - 2 ^ 31 = int ?img" using ok(4) by simp
  have b: "reloc_bound (int ?img) = ?img" using ok(4) by (simp add: reloc_bound_def)
  have "sub32 (add32 ?p ?n) 1 = ?p + ?n - 1"
    using ok n by (simp add: add32_def sub32_le)
  moreover have "reloc_blocks adjust orig (int ?img) ?n (?p + ?n - 1) ?p mem =
      Some (EFI_SUCCESS, fold (apply_fixup adjust) (table_fixups tab) mem)" for adjust
    using ok by (intro reloc_blocks_ok) simp_all
  ultimately show ?thesis
    using ok n i b fold_apply_0 [OF table_fixups_in [OF ok(5)]]
    by (auto simp: relocate_coff_def image_offset_def Let_def)
qed

section \<open>Sections\<close>

lemma read_section_in: "s + 40 \<le> length d \<Longrightarrow> \<exists>sec. read_section d s = Some sec"
  by (simp add: read_section_def rd16_def rd32_def mem_simps)

lemma get_section_vma_total:
  assumes "context_ok d datasize c" and "datasize \<le> length d" and "e_magic d = Some EFI_IMAGE_DOS_SIGNATURE"
  shows "get_section_vma n d c \<noteq> None"
proof (cases "n < NumberOfSections c")
  case True
  obtain first where f: "FirstSection c = Some first" "first + 40 * NumberOfSections c \<le> datasize"
    using assms by (auto simp: context_ok_def)
  have "40 * n + 40 \<le> 40 * NumberOfSections c" using True by simp
  then obtain sec where "read_section d (first + 40 * n) = Some sec"
    using f assms(2) read_section_in [of "first + 40 * n" d] by auto
  then show ?thesis using True f by (simp add: get_section_vma_def Let_def)
qed (simp add: get_section_vma_def)

lemma get_section_by_name_from_total:
  assumes "\<And>n. get_section_vma n d c \<noteq> None"
  shows "get_section_by_name_from name d c i \<noteq> None"
  using assms
proof (induction name d c i rule: get_section_by_name_from.induct)
  case (1 name d c i)
  then show ?case
    by (subst get_section_by_name_from.simps) (auto split: option.splits sum.splits, metis option.distinct(1))
qed

text \<open>A section that \<^verbatim>\<open>get_section_vma\<close> accepts and that is not discardable lies in the image, although
  the code computes the address of its last byte with 32-bit arithmetic.\<close>

definition section_in :: "pe_context \<Rightarrow> section_header \<Rightarrow> bool" where
  "section_in c sec \<longleftrightarrow> 0 < sh_VirtualSize sec \<and> sh_VirtualAddress sec + sh_VirtualSize sec \<le> ImageSize c \<and>
     (has_flag sec EFI_IMAGE_SCN_CNT_UNINITIALIZED_DATA \<or>
      SizeOfHeaders c \<le> sh_VirtualAddress sec \<and> SizeOfHeaders c \<le> sh_PointerToRawData sec)"

lemma section_end_base:
  assumes "va < 2 ^ 32" and "vs < 2 ^ 32" and "img < 2 ^ 32" and "va < img"
    and "sub32 (add32 va vs) 1 < img" and "va \<le> sub32 (add32 va vs) 1"
  shows "0 < vs \<and> va + vs \<le> img \<and> sub32 (add32 va vs) 1 = va + vs - 1"
proof (cases "vs = 0")
  case True
  then show ?thesis
    using assms by (cases "va = 0") (auto simp: add32_def sub32_le, simp add: sub32_def)
next
  case vs: False
  show ?thesis
  proof (cases "va + vs < 2 ^ 32")
    case True
    then show ?thesis using assms vs by (auto simp: add32_def sub32_le)
  next
    case False
    then have m: "add32 va vs = va + vs - 2 ^ 32" using assms(1,2) by (simp add: add32_def le_mod_geq)
    show ?thesis
    proof (cases "va + vs = 2 ^ 32")
      case True
      then show ?thesis using assms vs m by (auto simp: sub32_def)
    next
      case ne: False
      then have "sub32 (add32 va vs) 1 = va + vs - 2 ^ 32 - 1"
        unfolding m using False assms by (intro sub32_le) auto
      then show ?thesis using assms False ne by simp
    qed
  qed
qed

lemma get_section_vma_in:
  assumes "get_section_vma n d c = Some (Inr (base, end', sec))" and "ImageSize c < 2 ^ 32"
    and "\<not> has_flag sec EFI_IMAGE_SCN_MEM_DISCARDABLE"
  shows "section_in c sec \<and> base = Some (sh_VirtualAddress sec) \<and>
    end' = Some (sh_VirtualAddress sec + sh_VirtualSize sec - 1)"
proof -
  from assms(1) obtain first where r: "read_section d (first + 40 * n) = Some sec"
    by (auto simp: get_section_vma_def bind_Some_iff Let_def split: if_splits option.splits)
  from assms(1,3) have s: "base = section_base (ImageSize c) sec" "end' = section_end (ImageSize c) sec"
      "\<not> ptr_less end' base" "base \<noteq> None" "end' \<noteq> None"
      "has_flag sec EFI_IMAGE_SCN_CNT_UNINITIALIZED_DATA \<or>
        SizeOfHeaders c \<le> sh_VirtualAddress sec \<and> SizeOfHeaders c \<le> sh_PointerToRawData sec"
    by (auto simp: get_section_vma_def bind_Some_iff Let_def split: if_splits option.splits)
  have "sh_VirtualAddress sec < 2 ^ 32" "sh_VirtualSize sec < 2 ^ 32"
    using r by (auto simp: read_section_def bind_Some_iff dest!: rd32_bound)
  then show ?thesis
    using s assms(2) section_end_base [of "sh_VirtualAddress sec" "sh_VirtualSize sec" "ImageSize c"]
    by (auto simp: section_base_def section_end_def image_offset_def section_in_def split: if_splits)
qed

lemma get_section_by_name_from_found:
  assumes "get_section_by_name_from name d c i = Some (Inr (base, end', sec))"
  shows "sh_Name sec = name \<and> (\<exists>n < NumberOfSections c. get_section_vma n d c = Some (Inr (base, end', sec)))"
  using assms
proof (induction "NumberOfSections c - i" arbitrary: i rule: less_induct)
  case less
  have "i < NumberOfSections c \<Longrightarrow> get_section_by_name_from name d c (Suc i) = Some (Inr (base, end', sec)) \<Longrightarrow>
      ?case"
    by (intro less.hyps) auto
  with less.prems show ?case
    by (subst (asm) get_section_by_name_from.simps)
      (auto split: if_splits option.splits sum.splits prod.splits)
qed

text \<open>The headers of the sample sections.\<close>

definition sample_section_header :: "string \<Rightarrow> nat \<Rightarrow> nat \<Rightarrow> nat \<Rightarrow> nat \<Rightarrow> nat \<Rightarrow> section_header" where
  "sample_section_header name vsize va rawsize raw chars =
     \<lparr>sh_Name = lit name @ replicate (8 - length name) 0, sh_VirtualSize = vsize, sh_VirtualAddress = va,
      sh_SizeOfRawData = rawsize, sh_PointerToRawData = raw, sh_PointerToRelocations = 0,
      sh_NumberOfRelocations = 0, sh_Characteristics = chars\<rparr>"

lemma rd_le_zeros: "i + n \<le> m \<Longrightarrow> rd_le n (replicate m 0) i = Some 0"
proof -
  have "le_val (replicate k 0) = 0" for k by (induction k) auto
  then show "i + n \<le> m \<Longrightarrow> rd_le n (replicate m 0) i = Some 0"
    by (simp add: rd_le_def rdn_def min_def)
qed

lemma read_section_sample:
  assumes "length pre = i" and "length name \<le> 8" and "vsize < 2 ^ 32" and "va < 2 ^ 32"
    and "rawsize < 2 ^ 32" and "raw < 2 ^ 32" and "chars < 2 ^ 32"
  shows "read_section (pre @ sample_section name vsize va rawsize raw chars @ rest) i =
    Some (sample_section_header name vsize va rawsize raw chars)"
proof -
  have n: "rdn (pre @ sample_section name vsize va rawsize raw chars @ rest) i 8 =
      Some (lit name @ replicate (8 - length name) 0)"
    using assms(1,2) by (simp add: rdn_def sample_section_def)
  show ?thesis
    unfolding read_section_def n
    using assms by (simp add: sample_section_def sample_section_header_def rd_le_app rd_le_zeros
        del: replicate.simps)
qed

text \<open>C27. On a file that \<^verbatim>\<open>read_header\<close> accepts and that starts with a DOS header, \<^verbatim>\<open>get_section_vma\<close> and
  \<^verbatim>\<open>get_section_vma_by_name\<close> read only the file and return. A section that the second function returns has
  the name asked for; unless it is discardable, its address range is not empty, does not wrap around and
  lies in the image, the returned base and end are its first and last byte, and an initialised section lies
  after the headers both in memory and in the file.\<close>

theorem get_section_vma_by_name_bounds:
  assumes "datasize \<le> length d" and "e_magic d = Some EFI_IMAGE_DOS_SIGNATURE"
    and "read_header e d datasize check = Some (Inr c)"
  shows "get_section_vma n d c \<noteq> None \<and>
    (\<exists>r. get_section_vma_by_name name d bufsz c = Some r \<and>
      (\<forall>base end' sec. r = Inr (base, end', sec) \<longrightarrow>
        sh_Name sec = name @ replicate (8 - length name) 0 \<and>
        (\<not> has_flag sec EFI_IMAGE_SCN_MEM_DISCARDABLE \<longrightarrow>
          section_in c sec \<and> base = Some (sh_VirtualAddress sec) \<and>
          end' = Some (sh_VirtualAddress sec + sh_VirtualSize sec - 1))))"
proof -
  have c: "context_ok d datasize c" using read_header_spec [OF assms(1), of e check] assms(3) by auto
  then have img: "ImageSize c < 2 ^ 32" by (simp add: context_ok_def)
  note total = get_section_vma_total [OF c assms(1,2)]
  let ?name = "name @ replicate (8 - length name) 0"
  obtain r where r: "get_section_by_name_from ?name d c 0 = Some r"
    using get_section_by_name_from_total [OF total] by blast
  have "sh_Name sec = ?name \<and> (\<not> has_flag sec EFI_IMAGE_SCN_MEM_DISCARDABLE \<longrightarrow>
      section_in c sec \<and> base = Some (sh_VirtualAddress sec) \<and>
      end' = Some (sh_VirtualAddress sec + sh_VirtualSize sec - 1))"
    if "r = Inr (base, end', sec)" for base end' sec
    using get_section_by_name_from_found [OF r [unfolded that]] get_section_vma_in [OF _ img] by blast
  then show ?thesis using total r by (auto simp: get_section_vma_by_name_def)
qed

text \<open>The sample image and its only section.\<close>

definition sample_pe_context :: pe_context where
  "sample_pe_context = \<lparr>ImageAddr = 0x10000, ImageSize = 408, EntryPoint = 400, SizeOfHeaders = 368,
    NumberOfSections = 1, SectionAlignment = 8, FirstSection = Some 328, RelocDir = 240, SecDir = 232,
    NumberOfRvaAndSizes = 16, DllCharacteristics = EFI_IMAGE_DLLCHARACTERISTICS_NX_COMPAT, PEHdr = 64\<rparr>"

definition sample_text :: section_header where
  "sample_text = sample_section_header ''.text'' 8 400 8 368 0x60000020"

lemma sample_text_fields:
  "sh_Name sample_text = lit ''.text'' @ replicate 3 0" "sh_VirtualAddress sample_text = 400"
  "sh_VirtualSize sample_text = 8" "sh_PointerToRawData sample_text = 368" "sh_SizeOfRawData sample_text = 8"
  by (simp_all add: sample_text_def sample_section_header_def)

lemma sample_text_section:
  assumes "d = sample_header 1 400 408 368 secdir reloc @
      sample_section ''.text'' 8 400 8 368 0x60000020 @ rest"
  shows "get_section_vma 0 d sample_pe_context = Some (Inr (Some 400, Some 407, sample_text))"
proof -
  have s: "read_section d 328 = Some sample_text"
    unfolding sample_text_def assms by (rule read_section_sample) simp_all
  have f: "\<not> has_flag sample_text EFI_IMAGE_SCN_CNT_UNINITIALIZED_DATA" by code_simp
  have v: "section_base 408 sample_text = Some 400" "section_end 408 sample_text = Some 407"
    by (simp_all add: section_base_def section_end_def image_offset_def add32_def sub32_def sample_text_fields)
  show ?thesis
    using f s v by (simp add: get_section_vma_def sample_pe_context_def sample_text_fields)
qed

theorem get_section_vma_by_name_bounds_witness:
  "e_magic sample_pe = Some EFI_IMAGE_DOS_SIGNATURE \<and>
    (\<exists>c base end' sec. read_header sample_env sample_pe 376 True = Some (Inr c) \<and>
      get_section_vma_by_name (lit ''.text'') sample_pe 376 c = Some (Inr (base, end', sec)) \<and>
      section_in c sec \<and> base = Some 400 \<and> end' = Some 407)"
proof -
  have m: "376 \<le> length sample_pe" "e_magic sample_pe = Some EFI_IMAGE_DOS_SIGNATURE"
    by (simp_all add: sample_pe_def sample_header_reads)
  have c: "read_header sample_env sample_pe 376 True = Some (Inr sample_pe_context)"
    unfolding sample_pe_def sample_pe_context_def by (rule read_header_sample) simp_all
  have f: "\<not> has_flag sample_text EFI_IMAGE_SCN_MEM_DISCARDABLE" by code_simp
  have g: "get_section_vma_by_name (lit ''.text'') sample_pe 376 sample_pe_context =
      Some (Inr (Some 400, Some 407, sample_text))"
    using sample_text_section [OF sample_pe_def]
    by (simp add: get_section_vma_by_name_def get_section_by_name_from.simps [of _ _ _ 0]
        sample_text_fields lit_def)  (simp add: sample_pe_context_def)
  show ?thesis
    using m c g f get_section_vma_by_name_bounds [OF m c, of 0 "lit ''.text''" 376] by auto
qed

text \<open>C12. \<^verbatim>\<open>relocate_coff\<close> on a well-formed relocation table, whatever the address that the image is loaded
  at: it succeeds, every field that the table names is increased by the difference between the load
  address and the preferred address (for a \<^verbatim>\<open>HIGH\<close> relocation by its upper half), modulo the width of
  the field, and no other byte of the image changes.\<close>

theorem relocate_coff_spec:
  assumes "table_ok c sec orig (length mem) tab"
  shows "\<exists>mem'. relocate_coff c sec orig base mem = Some (EFI_SUCCESS, mem') \<and> length mem' = length mem \<and>
    (\<forall>f. List.member (table_fixups tab) f \<longrightarrow> fixup_field mem' f = le_bytes (reloc_width (fst f))
      (le_val (fixup_field mem f) + reloc_delta (sub64 base (ImageAddr c)) (fst f))) \<and>
    (\<forall>i < length mem. list_all (\<lambda>f. \<not> in_field i f) (table_fixups tab) \<longrightarrow> mem' ! i = mem ! i)"
proof -
  have fs: "list_all (fixup_in (length mem)) (table_fixups tab)" "sorted_wrt fields_apart (table_fixups tab)"
    using assms table_fixups_in by (auto simp: table_ok_def)
  then show ?thesis
    using relocate_coff_table [OF assms, of base] fold_apply_field [OF fs] fold_apply_outside [OF fs(1)]
      length_fold_apply [OF fs(1)]
    by (auto simp: comp_def)
qed

definition sample_table :: reloc_table where
  "sample_table = [(4, [(10, 0), (3, 8)]), (20, [(2, 0), (1, 2), (0, 0)])]"

definition sample_context :: pe_context where
  "sample_context = \<lparr>ImageAddr = 0x10000, ImageSize = 64, EntryPoint = 0, SizeOfHeaders = 0,
     NumberOfSections = 1, SectionAlignment = 8, FirstSection = Some 0, RelocDir = 0, SecDir = 0,
     NumberOfRvaAndSizes = 16, DllCharacteristics = 0, PEHdr = 0\<rparr>"

definition sample_reloc_section :: section_header where
  "sample_reloc_section = \<lparr>sh_Name = lit ''.reloc'' @ [0, 0], sh_VirtualSize = 26, sh_VirtualAddress = 0,
     sh_SizeOfRawData = 26, sh_PointerToRawData = 8, sh_PointerToRelocations = 0,
     sh_NumberOfRelocations = 0, sh_Characteristics = 0\<rparr>"

definition sample_file :: buf where
  "sample_file = le_bytes 4 0 @ le_bytes 4 (length (enc_table sample_table)) @ enc_table sample_table"

theorem relocate_coff_spec_witness:
  "table_ok sample_context sample_reloc_section sample_file 32 sample_table \<and>
    (\<exists>mem'. relocate_coff sample_context sample_reloc_section sample_file 0x7fff0000 (replicate 32 1) =
        Some (EFI_SUCCESS, mem') \<and>
      fixup_field mem' (3, 12) = le_bytes 4 (0x01010101 + 0x7ffe0000) \<and> mem' ! 0 = 1)"
proof -
  have t: "table_ok sample_context sample_reloc_section sample_file (length (replicate 32 1 :: buf)) sample_table"
    by code_simp
  have f: "List.member (table_fixups sample_table) (3, 12)"
      "list_all (\<lambda>f. \<not> in_field 0 f) (table_fixups sample_table)"
      "le_val (fixup_field (replicate 32 1) (3, 12)) = 0x01010101"
      "reloc_delta (sub64 0x7fff0000 (ImageAddr sample_context)) 3 = 0x7ffe0000" "reloc_width 3 = 4"
    by code_simp+
  show ?thesis
    using relocate_coff_spec [OF t, of "0x7fff0000"] f t by (force simp del: replicate_Suc)
qed

text \<open>A fixup is not compared with the size of the image: only the page of its block is. An entry may
  write past the end of an image of \<^verbatim>\<open>ImageSize\<close> bytes.\<close>

lemma relocate_coff_overrun:
  "relocate_coff (sample_context\<lparr>ImageSize := 32\<rparr>) sample_reloc_section
     (le_bytes 4 0 @ le_bytes 4 10 @ enc_table [(31, [(10, 0)])]) 0x7fff0000 (replicate 32 1) = None"
  by code_simp

end
