(* ===== verification/Pe_Hash.thy ===== *)
theory Pe_Hash
  imports Pe_Relocate "HOL-Library.Multiset"
begin

text \<open>
  The Authenticode digests of an image: \<^verbatim>\<open>generate_hash\<close> of \<^verbatim>\<open>pe.c\<close>. The hash functions of
  \<^verbatim>\<open>BaseCryptLib\<close> are a parameter: an algorithm is its initial context, its update and its final step,
  each of which may fail.

  The lemmas show that no file makes \<^verbatim>\<open>generate_hash\<close> read outside its buffer, that its insertion loop
  is a stable sort, and that on an image whose sections follow each other the digests are taken over every
  byte of the file except the checksum, the security directory entry and the certificate table.
\<close>

section \<open>Hash functions\<close>

record 'h hash_alg =
  h_size :: nat
  h_init :: "'h option"
  h_update :: "'h \<Rightarrow> buf \<Rightarrow> 'h option"
  h_final :: "'h \<Rightarrow> buf option"

text \<open>The two algorithms that the code runs side by side, and a pair of contexts.\<close>

type_synonym ('h, 'g) digests = "'h hash_alg \<times> 'g hash_alg"

definition digest_init :: "('h, 'g) digests \<Rightarrow> ('h \<times> 'g) option" where
  "digest_init cr = do { x \<leftarrow> h_init (fst cr); y \<leftarrow> h_init (snd cr); Some (x, y) }"

definition digest_update :: "('h, 'g) digests \<Rightarrow> 'h \<times> 'g \<Rightarrow> buf \<Rightarrow> ('h \<times> 'g) option" where
  "digest_update cr ctx s =
     do { x \<leftarrow> h_update (fst cr) (fst ctx) s; y \<leftarrow> h_update (snd cr) (snd ctx) s; Some (x, y) }"

definition digest_final :: "('h, 'g) digests \<Rightarrow> 'h \<times> 'g \<Rightarrow> (buf \<times> buf) option" where
  "digest_final cr ctx =
     do { x \<leftarrow> h_final (fst cr) (fst ctx); y \<leftarrow> h_final (snd cr) (snd ctx); Some (x, y) }"

text \<open>A step that may end the function with a status.\<close>

definition bindE :: "(efi_status + 'a) option \<Rightarrow> ('a \<Rightarrow> (efi_status + 'b) option) \<Rightarrow> (efi_status + 'b) option" where
  "bindE m f = (case m of None \<Rightarrow> None | Some (Inl st) \<Rightarrow> Some (Inl st) | Some (Inr x) \<Rightarrow> f x)"

definition or_resources :: "'a option \<Rightarrow> (efi_status + 'a) option" where
  "or_resources r = Some (case r of None \<Rightarrow> Inl EFI_OUT_OF_RESOURCES | Some x \<Rightarrow> Inr x)"

text \<open>\<^verbatim>\<open>check_size\<close> and the two updates: the bytes from \<open>base\<close> on.\<close>

definition hash_range ::
    "('h, 'g) digests \<Rightarrow> buf \<Rightarrow> nat \<Rightarrow> nat \<Rightarrow> nat \<Rightarrow> 'h \<times> 'g \<Rightarrow> (efi_status + 'h \<times> 'g) option" where
  "hash_range cr d datasize base hashsize ctx =
     (if base > datasize then Some (Inl EFI_INVALID_PARAMETER)
      else if base + hashsize > datasize then Some (Inl EFI_INVALID_PARAMETER)
      else do { s \<leftarrow> rdn d base hashsize; or_resources (digest_update cr ctx s) })"

section \<open>generate\_hash\<close>

text \<open>The three parts of the headers. \<^verbatim>\<open>CheckSum\<close> is at 88 from the PE header.\<close>

definition hash_headers ::
    "('h, 'g) digests \<Rightarrow> buf \<Rightarrow> nat \<Rightarrow> pe_context \<Rightarrow> (efi_status + 'h \<times> 'g) option" where
  "hash_headers cr d datasize c =
     bindE (or_resources (digest_init cr)) (\<lambda>ctx.
     bindE (hash_range cr d datasize 0 (PEHdr c + 88) ctx) (\<lambda>ctx.
     bindE (hash_range cr d datasize (PEHdr c + 92) (sub32 (SecDir c) (PEHdr c + 92)) ctx) (\<lambda>ctx.
       let hashsize = sub32 (SizeOfHeaders c) (SecDir c + 8)
       in if hashsize > datasize then Some (Inl EFI_INVALID_PARAMETER)
          else hash_range cr d datasize (SecDir c + 8) hashsize ctx)))"

text \<open>The section table, when the context has none.\<close>

definition hash_first_section ::
    "buf \<Rightarrow> nat \<Rightarrow> nat \<Rightarrow> pe_context \<Rightarrow> (efi_status + pe_context) option" where
  "hash_first_section d datasize PEHdr_offset c =
     (if NumberOfSections c = 0 \<or> FirstSection c = None then do {
        nsections \<leftarrow> FileHeader_NumberOfSections d (PEHdr c);
        opthdrsz \<leftarrow> FileHeader_SizeOfOptionalHeader d (PEHdr c);
        let addr = PEHdr_offset + 4 + 20 + opthdrsz
        in case image_offset datasize addr of
             None \<Rightarrow> Some (Inl EFI_INVALID_PARAMETER)
           | Some section0 \<Rightarrow>
               (case image_offset datasize (sub64 (add64 addr (40 * nsections)) 40) of
                  None \<Rightarrow> Some (Inl EFI_INVALID_PARAMETER)
                | Some sectionN \<Rightarrow> Some (Inr (c\<lparr>NumberOfSections := nsections, FirstSection := Some section0\<rparr>)))
      } else Some (Inr c))"

text \<open>The insertion of a section header: entries with a higher file pointer move up, from the last one
  on. The table is kept with its last entry first.\<close>

fun insert_section :: "section_header \<Rightarrow> section_header list \<Rightarrow> section_header list" where
  "insert_section sec [] = [sec]"
| "insert_section sec (x # xs) =
     (if sh_PointerToRawData sec < sh_PointerToRawData x then x # insert_section sec xs
      else sec # x # xs)"

text \<open>The validation and the sorting of the sections. \<^verbatim>\<open>EFI_NOT_FOUND\<close> leaves the loop and stays the
  status.\<close>

function sort_sections ::
    "buf \<Rightarrow> nat \<Rightarrow> pe_context \<Rightarrow> nat \<Rightarrow> nat \<Rightarrow> nat \<Rightarrow> section_header list
      \<Rightarrow> (efi_status + efi_status \<times> section_header list) option" where
  "sort_sections d datasize c hashed i summed table =
     (if \<not> i < NumberOfSections c then Some (Inr (EFI_SUCCESS, table))
      else case get_section_vma i d c of
        None \<Rightarrow> None
      | Some (Inl st) \<Rightarrow> if st = EFI_NOT_FOUND then Some (Inr (st, table)) else Some (Inl st)
      | Some (Inr (base, end', sec)) \<Rightarrow>
          if sh_SizeOfRawData sec > sub32 (sub32 datasize hashed) summed then Some (Inl EFI_INVALID_PARAMETER)
          else sort_sections d datasize c hashed (i + 1) (add32 summed (sh_SizeOfRawData sec))
                 (insert_section sec table))"
  by pat_completeness auto
termination
  by (relation "measure (\<lambda>(d, datasize, c, hashed, i, summed, table). NumberOfSections c - i)") auto

declare sort_sections.simps [simp del]

fun hash_sections ::
    "('h, 'g) digests \<Rightarrow> buf \<Rightarrow> nat \<Rightarrow> section_header list \<Rightarrow> nat \<Rightarrow> 'h \<times> 'g
      \<Rightarrow> (efi_status + nat \<times> 'h \<times> 'g) option" where
  "hash_sections cr d datasize [] hashed ctx = Some (Inr (hashed, ctx))"
| "hash_sections cr d datasize (sec # secs) hashed ctx =
     (if sh_SizeOfRawData sec = 0 then hash_sections cr d datasize secs hashed ctx
      else case image_offset datasize (sh_PointerToRawData sec) of
        None \<Rightarrow> Some (Inl EFI_INVALID_PARAMETER)
      | Some hashbase \<Rightarrow>
          if sh_SizeOfRawData sec > sub32 datasize (sh_PointerToRawData sec) then
            Some (Inl EFI_INVALID_PARAMETER)
          else bindE (hash_range cr d datasize hashbase (sh_SizeOfRawData sec) ctx)
            (\<lambda>ctx. hash_sections cr d datasize secs (add32 hashed (sh_SizeOfRawData sec)) ctx))"

text \<open>The data up to the certificate table.\<close>

definition hash_to_secdir ::
    "('h, 'g) digests \<Rightarrow> buf \<Rightarrow> nat \<Rightarrow> pe_context \<Rightarrow> nat \<Rightarrow> 'h \<times> 'g
      \<Rightarrow> (efi_status + nat \<times> 'h \<times> 'g) option" where
  "hash_to_secdir cr d datasize c hashed ctx = do {
     va \<leftarrow> Dir_VirtualAddress d (SecDir c);
     sz \<leftarrow> Dir_Size d (SecDir c);
     if datasize > hashed \<and> sz \<noteq> 0 then
       let hashsize = sub32 (sub32 datasize sz) hashed
       in if sub32 datasize hashed < sz \<or> add32 hashed hashsize \<noteq> va then Some (Inl EFI_INVALID_PARAMETER)
          else bindE (hash_range cr d datasize hashed hashsize ctx)
            (\<lambda>ctx. Some (Inr (add32 hashed hashsize, ctx)))
     else Some (Inr (hashed, ctx))
   }"

text \<open>The remaining data, padded with zeros to a multiple of 8.\<close>

definition hash_rest ::
    "('h, 'g) digests \<Rightarrow> buf \<Rightarrow> nat \<Rightarrow> pe_context \<Rightarrow> nat \<Rightarrow> 'h \<times> 'g \<Rightarrow> (efi_status + 'h \<times> 'g) option" where
  "hash_rest cr d datasize c hashed ctx = do {
     sz \<leftarrow> Dir_Size d (SecDir c);
     if datasize > add32 hashed sz then
       bindE (hash_range cr d datasize hashed (sub32 datasize hashed) ctx) (\<lambda>ctx.
         let hashed = add32 hashed (sub32 datasize hashed);
             pad = sub32 (add32 hashed (sub32 8 hashed AND 7)) hashed
         in if pad \<noteq> 0 then do { s \<leftarrow> rdn (replicate 8 0) 0 pad; or_resources (digest_update cr ctx s) }
            else Some (Inr ctx))
     else Some (Inr ctx)
   }"

definition hash_contents ::
    "('h, 'g) digests \<Rightarrow> buf \<Rightarrow> nat \<Rightarrow> pe_context \<Rightarrow> 'h \<times> 'g \<Rightarrow> (efi_status + buf \<times> buf) option" where
  "hash_contents cr d datasize c ctx =
     bindE (sort_sections d datasize c (SizeOfHeaders c) 0 0 []) (\<lambda>(st, table).
     bindE (hash_sections cr d datasize (rev table) (SizeOfHeaders c) ctx) (\<lambda>(hashed, ctx).
     bindE (hash_to_secdir cr d datasize c hashed ctx) (\<lambda>(hashed, ctx).
     bindE (hash_rest cr d datasize c hashed ctx) (\<lambda>ctx.
     bindE (or_resources (digest_final cr ctx)) (\<lambda>digests.
       Some (if EFI_ERROR st then Inl st else Inr digests))))))"

text \<open>\<^verbatim>\<open>generate_hash\<close>: on success the context, in which the section table may have been filled in, and
  the two digests.\<close>

definition generate_hash ::
    "('h, 'g) digests \<Rightarrow> pool \<Rightarrow> buf \<Rightarrow> nat \<Rightarrow> pe_context
      \<Rightarrow> ((efi_status + pe_context \<times> buf \<times> buf) \<times> pool) option" where
  "generate_hash cr p d datasize c =
     (if datasize \<le> 64 then Some (Inl EFI_INVALID_PARAMETER, p)
      else do {
        magic \<leftarrow> e_magic d;
        PEHdr_offset \<leftarrow> e_lfanew d;
        if magic \<noteq> EFI_IMAGE_DOS_SIGNATURE then Some (Inl EFI_INVALID_PARAMETER, p)
        else
          let (sha256ctx, p1) = AllocatePool p (h_size (fst cr));
              (sha1ctx, p2) = AllocatePool p1 (h_size (snd cr))
          in if \<not> sha256ctx \<or> \<not> sha1ctx then Some (Inl EFI_OUT_OF_RESOURCES, p2)
             else do {
               headers \<leftarrow> hash_headers cr d datasize c;
               case headers of
                 Inl st \<Rightarrow> Some (Inl st, p2)
               | Inr ctx \<Rightarrow> do {
                   first \<leftarrow> hash_first_section d datasize PEHdr_offset c;
                   case first of
                     Inl st \<Rightarrow> Some (Inl st, p2)
                   | Inr c' \<Rightarrow>
                       let (SectionHeader, p3) = AllocatePool p2 (40 * NumberOfSections c')
                       in if \<not> SectionHeader then Some (Inl EFI_OUT_OF_RESOURCES, p3)
                          else do {
                            r \<leftarrow> hash_contents cr d datasize c' ctx;
                            Some (map_sum id (Pair c') r, p3)
                          }
                 }
             }
      })"

section \<open>Returning\<close>

text \<open>A computation that is defined: it makes no access outside its buffers. The rules follow the
  structure of the program.\<close>

definition returns :: "'a option \<Rightarrow> bool" where
  "returns m \<longleftrightarrow> m \<noteq> None"

named_theorems returns_intros \<open>computations that are defined\<close>

lemma returns_Some [returns_intros]: "returns (Some x)"
  by (simp add: returns_def)

lemma returns_if [returns_intros]: "(P \<Longrightarrow> returns a) \<Longrightarrow> (\<not> P \<Longrightarrow> returns b) \<Longrightarrow> returns (if P then a else b)"
  by simp

lemma returns_bind [returns_intros]:
  "returns m \<Longrightarrow> (\<And>x. m = Some x \<Longrightarrow> returns (f x)) \<Longrightarrow> returns (do { x \<leftarrow> m; f x })"
  by (cases m) (auto simp: returns_def)

lemma returns_bindE [returns_intros]:
  "returns m \<Longrightarrow> (\<And>x. m = Some (Inr x) \<Longrightarrow> returns (f x)) \<Longrightarrow> returns (bindE m f)"
  by (auto simp: bindE_def returns_def split: option.splits sum.splits)

lemma returns_prod [returns_intros]:
  "(\<And>x y. p = (x, y) \<Longrightarrow> returns (f x y)) \<Longrightarrow> returns (case p of (x, y) \<Rightarrow> f x y)"
  by (cases p) auto

lemma returns_sum [returns_intros]:
  "(\<And>x. s = Inl x \<Longrightarrow> returns (f x)) \<Longrightarrow> (\<And>y. s = Inr y \<Longrightarrow> returns (g y)) \<Longrightarrow>
    returns (case s of Inl x \<Rightarrow> f x | Inr y \<Rightarrow> g y)"
  by (cases s) auto

lemma returns_option [returns_intros]:
  "(m = None \<Longrightarrow> returns a) \<Longrightarrow> (\<And>x. m = Some x \<Longrightarrow> returns (f x)) \<Longrightarrow>
    returns (case m of None \<Rightarrow> a | Some x \<Rightarrow> f x)"
  by (cases m) auto

lemma returns_or_resources [returns_intros]: "returns (or_resources r)"
  by (simp add: or_resources_def returns_def)

lemma returns_rdn [returns_intros]: "i + n \<le> length b \<Longrightarrow> returns (rdn b i n)"
  by (simp add: returns_def mem_simps)

lemma returns_rd_le [returns_intros]: "i + n \<le> length b \<Longrightarrow> returns (rd_le n b i)"
  by (simp add: returns_def mem_simps)

lemma returns_obtain: "returns m \<Longrightarrow> (\<And>x. m = Some x \<Longrightarrow> P) \<Longrightarrow> P"
  by (auto simp: returns_def)

lemma hash_range_returns [returns_intros]:
  "datasize \<le> length d \<Longrightarrow> returns (hash_range cr d datasize base n ctx)"
  unfolding hash_range_def by (intro returns_intros) auto

lemma hash_headers_returns: "datasize \<le> length d \<Longrightarrow> returns (hash_headers cr d datasize c)"
  unfolding hash_headers_def Let_def by (intro returns_intros)

lemma sort_sections_returns:
  assumes "\<And>n. get_section_vma n d c \<noteq> None"
  shows "returns (sort_sections d datasize c hashed i summed table)"
  using assms
proof (induction d datasize c hashed i summed table rule: sort_sections.induct)
  case (1 d datasize c hashed i summed table)
  obtain r where r: "get_section_vma i d c = Some r" using "1.prems" [of i] by blast
  show ?case
    unfolding sort_sections.simps [of d datasize c hashed i] r option.case
    by (intro returns_intros) (use 1 r in auto)
qed

lemma hash_sections_returns:
  "datasize \<le> length d \<Longrightarrow> returns (hash_sections cr d datasize secs hashed ctx)"
  by (induction secs arbitrary: hashed ctx) (auto intro!: returns_intros)

lemma hash_to_secdir_returns:
  "datasize \<le> length d \<Longrightarrow> SecDir c + 8 \<le> length d \<Longrightarrow> returns (hash_to_secdir cr d datasize c hashed ctx)"
  unfolding hash_to_secdir_def Let_def pe_reads by (intro returns_intros) auto

lemma and_7: "(x :: nat) AND 7 = x mod 8"
  using take_bit_eq_mask [of 3 x] by (simp add: take_bit_eq_mod mask_eq_exp_minus_1)

lemma sub32_add32:
  assumes "h < 2 ^ 32" and "x < 2 ^ 32"
  shows "sub32 (add32 h x) h = x"
proof (cases "h + x < 2 ^ 32")
  case True
  then show ?thesis by (simp add: add32_def sub32_le)
next
  case False
  then have "add32 h x = h + x - 2 ^ 32" using assms by (simp add: add32_def le_mod_geq)
  then show ?thesis using False assms by (simp add: sub32_def)
qed

lemma pad_mod: "h < 2 ^ 32 \<Longrightarrow> sub32 (add32 h (sub32 8 h AND 7)) h = sub32 8 h mod 8"
  unfolding and_7 by (rule sub32_add32) (auto intro: order.strict_trans [of _ 8])

lemma hash_rest_returns:
  assumes "datasize \<le> length d" and "SecDir c + 8 \<le> length d"
  shows "returns (hash_rest cr d datasize c hashed ctx)"
proof -
  let ?h = "add32 hashed (sub32 datasize hashed)"
  have "sub32 (add32 ?h (sub32 8 ?h AND 7)) ?h < 8"
    by (subst pad_mod) (simp_all add: add32_def)
  then show ?thesis
    unfolding hash_rest_def Let_def pe_reads using assms
    by (intro returns_intros) (simp_all del: replicate.simps)
qed

lemma hash_first_section_returns:
  "PEHdr c + 24 \<le> length d \<Longrightarrow> returns (hash_first_section d datasize off c)"
  unfolding hash_first_section_def Let_def pe_reads by (intro returns_intros) auto

lemma hash_first_section_ok:
  assumes "hash_first_section d datasize off c = Some (Inr c')"
    and "FileHeader_NumberOfSections d (PEHdr c) = Some (NumberOfSections c)" and "FirstSection c \<noteq> None"
  shows "SecDir c' = SecDir c \<and> SizeOfHeaders c' = SizeOfHeaders c \<and>
    (c' = c \<or> NumberOfSections c = 0 \<and> NumberOfSections c' = 0)"
  using assms
  by (auto simp: hash_first_section_def bind_Some_iff Let_def split: if_splits option.splits)

lemma hash_contents_returns:
  assumes "datasize \<le> length d" and "SecDir c + 8 \<le> length d" and "\<And>n. get_section_vma n d c \<noteq> None"
  shows "returns (hash_contents cr d datasize c ctx)"
  unfolding hash_contents_def
  by (intro returns_intros sort_sections_returns hash_sections_returns hash_to_secdir_returns
      hash_rest_returns assms)

lemma generate_hash_returns:
  assumes "context_ok d datasize c" and "datasize \<le> length d"
  shows "returns (generate_hash cr p d datasize c)"
proof (cases "datasize \<le> 64 \<or> e_magic d \<noteq> Some EFI_IMAGE_DOS_SIGNATURE")
  case True
  have "returns (e_magic d)" "returns (e_lfanew d)" if "\<not> datasize \<le> 64"
    using that assms(2) unfolding pe_reads by (auto intro!: returns_intros)
  then show ?thesis
    using True unfolding generate_hash_def
    by (auto simp: bind_eq_None_conv returns_def)
next
  case False
  then obtain off where off: "e_lfanew d = Some off" and dos: "e_magic d = Some EFI_IMAGE_DOS_SIGNATURE"
    using assms(1) by (auto simp: context_ok_def)
  have c: "PEHdr c + 24 \<le> length d" "SecDir c + 8 \<le> length d" "FirstSection c \<noteq> None"
      "FileHeader_NumberOfSections d (PEHdr c) = Some (NumberOfSections c)"
    using assms by (auto simp: context_ok_def)
  have vma: "get_section_vma n d c' \<noteq> None" "SecDir c' = SecDir c"
    if "hash_first_section d datasize off c = Some (Inr c')" for c' n
    using hash_first_section_ok [OF that c(4,3)] get_section_vma_total [OF assms dos, of n]
    by (cases "c' = c"; simp add: get_section_vma_def)+
  show ?thesis
    using False c vma assms(2) off dos unfolding generate_hash_def Let_def
    by (auto intro!: returns_intros hash_headers_returns hash_first_section_returns hash_contents_returns)
qed

section \<open>The section table\<close>

text \<open>The insertion loop sorts by the file pointer and keeps sections with equal pointers in file order.\<close>

lemma mset_insert_section: "mset (insert_section sec xs) = add_mset sec (mset xs)"
  by (induction xs) auto

lemma filter_insert_section:
  "filter (\<lambda>x. k = sh_PointerToRawData x) (insert_section sec xs) =
    (if k = sh_PointerToRawData sec then [sec] else []) @ filter (\<lambda>x. k = sh_PointerToRawData x) xs"
  by (induction xs) auto

lemma sorted_insert_section:
  "sorted_wrt (\<ge>) (map sh_PointerToRawData xs) \<Longrightarrow>
    sorted_wrt (\<ge>) (map sh_PointerToRawData (insert_section sec xs))"
proof (induction xs)
  case (Cons x xs)
  have "set (insert_section sec xs) = insert sec (set xs)"
    using mset_insert_section [of sec xs] by (metis set_mset_add_mset_insert set_mset_mset)
  then show ?case using Cons by fastforce
qed simp

lemma fold_insert_section:
  "rev (fold insert_section secs []) = sort_key sh_PointerToRawData secs"
proof (rule properties_for_sort_key [symmetric])
  have "mset (fold insert_section secs xs) = mset secs + mset xs" for xs
    by (induction secs arbitrary: xs) (simp_all add: mset_insert_section)
  then show "mset (rev (fold insert_section secs [])) = mset secs" by simp
  have "filter (\<lambda>x. k = sh_PointerToRawData x) (fold insert_section secs xs) =
      rev (filter (\<lambda>x. k = sh_PointerToRawData x) secs) @ filter (\<lambda>x. k = sh_PointerToRawData x) xs" for k xs
    by (induction secs arbitrary: xs) (simp_all add: filter_insert_section)
  then show "filter (\<lambda>x. sh_PointerToRawData k = sh_PointerToRawData x) (rev (fold insert_section secs [])) =
      filter (\<lambda>x. sh_PointerToRawData k = sh_PointerToRawData x) secs" for k
    by (simp add: rev_filter [symmetric])
  have "sorted_wrt (\<ge>) (map sh_PointerToRawData xs) \<Longrightarrow>
      sorted_wrt (\<ge>) (map sh_PointerToRawData (fold insert_section secs xs))" for xs
    by (induction secs arbitrary: xs) (simp_all add: sorted_insert_section)
  then have "sorted_wrt (\<ge>) (map sh_PointerToRawData (fold insert_section secs []))" by simp
  then show "sorted (map sh_PointerToRawData (rev (fold insert_section secs [])))"
    by (simp add: rev_map [symmetric] sorted_wrt_rev)
qed

section \<open>The bytes that are hashed\<close>

definition span :: "buf \<Rightarrow> nat \<Rightarrow> nat \<Rightarrow> buf" where
  "span d a b = take (b - a) (drop a d)"

lemma span_append:
  assumes "a \<le> b" and "b \<le> c"
  shows "span d a b @ span d b c = span d a c"
proof -
  have "c - a = (b - a) + (c - b)" using assms by simp
  then show ?thesis unfolding span_def using assms(1) by (simp only: take_add drop_drop) simp
qed

lemma span_end: "span d a (length d) = drop a d"
  by (simp add: span_def)

lemma span_append_assoc: "a \<le> b \<Longrightarrow> b \<le> c \<Longrightarrow> span d a b @ span d b c @ xs = span d a c @ xs"
  by (metis append_assoc span_append)

text \<open>A sequence of updates; the steps of the function are sequences of updates on images that pass its
  checks.\<close>

fun digest_updates :: "('h, 'g) digests \<Rightarrow> 'h \<times> 'g \<Rightarrow> buf list \<Rightarrow> ('h \<times> 'g) option" where
  "digest_updates cr ctx [] = Some ctx"
| "digest_updates cr ctx (s # ss) = do { ctx' \<leftarrow> digest_update cr ctx s; digest_updates cr ctx' ss }"

definition digest_of :: "('h, 'g) digests \<Rightarrow> buf list \<Rightarrow> efi_status + buf \<times> buf" where
  "digest_of cr ss =
     (case (do { ctx \<leftarrow> digest_init cr; ctx' \<leftarrow> digest_updates cr ctx ss; digest_final cr ctx' }) of
        None \<Rightarrow> Inl EFI_OUT_OF_RESOURCES | Some r \<Rightarrow> Inr r)"

lemma bindE_Inr [simp]: "bindE (Some (Inr x)) f = f x"
  by (simp add: bindE_def)

lemma bindE_assoc: "bindE (bindE m f) g = bindE m (\<lambda>x. bindE (f x) g)"
  by (auto simp: bindE_def split: option.splits sum.splits)

lemma bindE_or_resources:
  "bindE (or_resources m) (\<lambda>x. bindE (or_resources (f x)) g) = bindE (or_resources (do { x \<leftarrow> m; f x })) g"
  by (cases m) (auto simp: bindE_def or_resources_def)

lemma or_resources_bind:
  "bindE (or_resources m) (\<lambda>x. or_resources (f x)) = or_resources (do { x \<leftarrow> m; f x })"
  by (cases m) (auto simp: bindE_def or_resources_def)

lemma bindE_return: "bindE m (\<lambda>x. Some (Inr x)) = m"
  by (auto simp: bindE_def split: option.splits sum.splits)

lemma digest_updates_append:
  "digest_updates cr ctx (ss @ ts) = do { ctx' \<leftarrow> digest_updates cr ctx ss; digest_updates cr ctx' ts }"
  by (induction ss arbitrary: ctx) (auto simp: bind_assoc)

lemma bindE_updates:
  "bindE (or_resources (digest_updates cr ctx ss)) (\<lambda>ctx. bindE (or_resources (digest_updates cr ctx ts)) g) =
    bindE (or_resources (digest_updates cr ctx (ss @ ts))) g"
  by (simp add: bindE_or_resources digest_updates_append)

lemma hash_range_updates:
  "base + n \<le> datasize \<Longrightarrow> datasize \<le> length d \<Longrightarrow>
    hash_range cr d datasize base n ctx = or_resources (digest_updates cr ctx [span d base (base + n)])"
  by (simp add: hash_range_def mem_simps span_def)

text \<open>Sections that follow each other in the file.\<close>

fun tiled :: "nat \<Rightarrow> section_header list \<Rightarrow> nat \<Rightarrow> bool" where
  "tiled a [] b \<longleftrightarrow> a = b"
| "tiled a (sec # secs) b \<longleftrightarrow>
     (if sh_SizeOfRawData sec = 0 then tiled a secs b
      else sh_PointerToRawData sec = a \<and> tiled (a + sh_SizeOfRawData sec) secs b)"

lemma tiled_le: "tiled a secs b \<Longrightarrow> a \<le> b"
  by (induction a secs b rule: tiled.induct) (auto split: if_splits)

lemma tiled_sum: "tiled a secs b \<Longrightarrow> sum_list (map sh_SizeOfRawData secs) = b - a"
proof (induction a secs b rule: tiled.induct)
  case (2 a sec secs b)
  then show ?case using tiled_le by (fastforce split: if_splits)
qed simp

lemma hash_sections_tiled:
  assumes "tiled a secs b" and "b \<le> datasize" and "datasize \<le> length d" and "datasize < 2 ^ 32"
  shows "\<exists>ss. concat ss = span d a b \<and>
    hash_sections cr d datasize secs a =
      (\<lambda>ctx. bindE (or_resources (digest_updates cr ctx ss)) (\<lambda>ctx. Some (Inr (b, ctx))))"
  using assms(1,2)
proof (induction a secs b rule: tiled.induct)
  case (1 a b)
  then show ?case
    by (intro exI [of _ "[]"] conjI ext) (simp_all add: span_def or_resources_def)
next
  case (2 a sec secs b)
  show ?case
  proof (cases "sh_SizeOfRawData sec = 0")
    case True
    then have "hash_sections cr d datasize (sec # secs) a = hash_sections cr d datasize secs a"
      by (intro ext) simp
    then show ?thesis using 2 True by simp
  next
    case False
    let ?n = "a + sh_SizeOfRawData sec"
    have t: "sh_PointerToRawData sec = a" "tiled ?n secs b" using "2.prems" False by auto
    have le: "?n \<le> b" using tiled_le [OF t(2)] .
    obtain ss where ss: "concat ss = span d ?n b"
        "hash_sections cr d datasize secs ?n =
          (\<lambda>ctx. bindE (or_resources (digest_updates cr ctx ss)) (\<lambda>ctx. Some (Inr (b, ctx))))"
      using "2.IH"(2) [OF False t(2) "2.prems"(2)] by blast
    have "add32 a (sh_SizeOfRawData sec) = ?n" "\<not> sub32 datasize a < sh_SizeOfRawData sec"
      using le "2.prems"(2) assms(4) by (auto simp: add32_def sub32_le)
    then have "hash_sections cr d datasize (sec # secs) a ctx =
        bindE (or_resources (digest_updates cr ctx (span d a ?n # ss))) (\<lambda>ctx. Some (Inr (b, ctx)))" for ctx
      using False t(1) le "2.prems"(2) assms(3) bindE_updates [of cr ctx "[span d a ?n]" ss]
      by (simp add: image_offset_def hash_range_updates ss(2))
    moreover have "concat (span d a ?n # ss) = span d a b"
      using ss(1) le by (simp add: span_append)
    ultimately show ?thesis by (intro exI [of _ "span d a ?n # ss"] conjI ext)
  qed
qed

lemma sort_sections_ok:
  assumes "\<And>i. i < length secs \<Longrightarrow> \<exists>b e. get_section_vma i d c = Some (Inr (b, e, secs ! i))"
    and "NumberOfSections c = length secs" and "hashed + sum_list (map sh_SizeOfRawData secs) \<le> datasize"
    and "datasize < 2 ^ 32" and "i \<le> length secs"
  shows "sort_sections d datasize c hashed i (sum_list (map sh_SizeOfRawData (take i secs))) table =
    Some (Inr (EFI_SUCCESS, fold insert_section (drop i secs) table))"
  using assms(5)
proof (induction "length secs - i" arbitrary: i table)
  case 0
  then show ?case using assms(2) by (subst sort_sections.simps) simp
next
  case (Suc n)
  then have i: "i < length secs" by simp
  let ?sum = "sum_list (map sh_SizeOfRawData (take i secs))"
  obtain b e where g: "get_section_vma i d c = Some (Inr (b, e, secs ! i))" using assms(1) [OF i] by blast
  have step: "sum_list (map sh_SizeOfRawData (take (Suc i) secs)) = ?sum + sh_SizeOfRawData (secs ! i)"
    using i by (simp add: take_Suc_conv_app_nth)
  have "sum_list (map sh_SizeOfRawData secs) =
      sum_list (map sh_SizeOfRawData (take (Suc i) secs)) + sum_list (map sh_SizeOfRawData (drop (Suc i) secs))"
    by (metis append_take_drop_id map_append sum_list_append)
  then have le: "hashed + ?sum + sh_SizeOfRawData (secs ! i) \<le> datasize" using assms(3) step by simp
  have "sub32 (sub32 datasize hashed) ?sum = datasize - hashed - ?sum"
    using le assms(4) by (simp add: sub32_le)
  moreover have "add32 ?sum (sh_SizeOfRawData (secs ! i)) = sum_list (map sh_SizeOfRawData (take (Suc i) secs))"
    using le assms(4) step by (simp add: add32_def)
  moreover have "drop i secs = secs ! i # drop (Suc i) secs" using i by (simp add: Cons_nth_drop_Suc)
  moreover note Suc.hyps(1) [of "Suc i" "insert_section (secs ! i) table"]
  ultimately show ?case
    using Suc.hyps(2) i le assms(2) by (subst sort_sections.simps) (simp add: g)
qed

text \<open>The padding after the last byte of an unsigned file.\<close>

definition hash_padding :: "nat \<Rightarrow> nat" where
  "hash_padding n = (8 - n mod 8) mod 8"

lemma pad_padding: "h < 2 ^ 32 \<Longrightarrow> sub32 8 h mod 8 = hash_padding h"
proof -
  assume h: "h < 2 ^ 32"
  obtain q r where qr: "h = 8 * q + r" "r < 8"
    by (metis mod_less_divisor mult_div_mod_eq zero_less_numeral)
  have "sub32 8 h mod 8 = (8 + 2 ^ 32 - h) mod 8" by (simp add: sub32_def mod_mod_cancel)
  also have "8 + 2 ^ 32 - h = 8 * (2 ^ 29 - q) + (8 - r)" using h qr by auto
  also have "\<dots> mod 8 = (8 - r) mod 8" by (simp only: mod_mult_self4)
  also have "8 - r = 8 - h mod 8" using qr by simp
  finally show ?thesis by (simp add: hash_padding_def)
qed

lemma hash_headers_updates:
  assumes "context_ok d datasize c" and "datasize \<le> length d" and "datasize < 2 ^ 32"
    and "SecDir c + 8 \<le> SizeOfHeaders c" and "SizeOfHeaders c \<le> datasize"
  shows "hash_headers cr d datasize c =
    bindE (or_resources (digest_init cr)) (\<lambda>ctx. or_resources (digest_updates cr ctx
      [span d 0 (PEHdr c + 88), span d (PEHdr c + 92) (SecDir c), span d (SecDir c + 8) (SizeOfHeaders c)]))"
proof -
  have c: "PEHdr c + 92 \<le> SecDir c" "SecDir c + 8 \<le> datasize"
    using assms(1) by (auto simp: context_ok_def)
  then have "sub32 (SecDir c) (PEHdr c + 92) = SecDir c - (PEHdr c + 92)"
      "sub32 (SizeOfHeaders c) (SecDir c + 8) = SizeOfHeaders c - (SecDir c + 8)"
      "\<not> datasize < SizeOfHeaders c - (SecDir c + 8)"
    using assms by (auto intro!: sub32_le)
  then show ?thesis
    unfolding hash_headers_def Let_def using c assms
    by (simp add: hash_range_updates or_resources_bind)
qed

lemma hash_to_secdir_updates:
  assumes "Dir_VirtualAddress d (SecDir c) = Some va" and "Dir_Size d (SecDir c) = Some sz"
    and "e \<le> datasize" and "datasize \<le> length d" and "datasize < 2 ^ 32"
    and "sz \<noteq> 0 \<Longrightarrow> va + sz = datasize \<and> e \<le> va"
  shows "hash_to_secdir cr d datasize c e =
    (\<lambda>ctx. if sz = 0 then Some (Inr (e, ctx))
      else bindE (or_resources (digest_updates cr ctx [span d e va])) (\<lambda>ctx. Some (Inr (va, ctx))))"
proof (cases "sz = 0")
  case True
  then show ?thesis using assms by (intro ext) (simp add: hash_to_secdir_def)
next
  case False
  then have v: "va + sz = datasize" "e \<le> va" using assms(6) by auto
  then have "sub32 (sub32 datasize sz) e = va - e" "\<not> sub32 datasize e < sz" "add32 e (va - e) = va"
    using assms(5) by (auto simp: sub32_le add32_def)
  then show ?thesis using v False assms
    by (intro ext) (simp add: hash_to_secdir_def hash_range_updates Let_def)
qed

lemma hash_rest_updates:
  assumes "Dir_Size d (SecDir c) = Some sz" and "h \<le> datasize" and "h + sz \<le> datasize"
    and "datasize \<le> length d" and "datasize < 2 ^ 32"
  shows "hash_rest cr d datasize c h =
    (\<lambda>ctx. or_resources (digest_updates cr ctx
      (if h + sz = datasize then []
       else span d h datasize # (if hash_padding datasize = 0 then [] else [replicate (hash_padding datasize) 0]))))"
proof (cases "h + sz = datasize")
  case True
  then show ?thesis
    using assms by (intro ext) (simp add: hash_rest_def add32_def or_resources_def)
next
  case False
  have p: "sub32 (add32 datasize (sub32 8 datasize AND 7)) datasize = hash_padding datasize"
    using pad_mod pad_padding assms(5) by simp
  have "hash_padding datasize < 8" by (simp add: hash_padding_def)
  then have r: "rdn (replicate 8 0) 0 (hash_padding datasize) = Some (replicate (hash_padding datasize) 0)"
    by (simp add: rdn_def del: replicate.simps)
  have "add32 h sz = h + sz" "sub32 datasize h = datasize - h" "add32 h (datasize - h) = datasize"
    using assms by (auto simp: add32_def sub32_le)
  then show ?thesis
    using False assms(1-4) p r
    by (intro ext, cases "hash_padding datasize = 0")
      (simp_all add: hash_rest_def hash_range_updates Let_def or_resources_bind bindE_return
        del: replicate.simps)
qed

text \<open>An image whose sections, in the order of their file pointers, follow each other from the end of the
  headers up to \<open>b\<close>, and whose certificate table, if there is one, is the end of the file.\<close>

definition image_tiled :: "buf \<Rightarrow> pe_context \<Rightarrow> section_header list \<Rightarrow> nat \<Rightarrow> nat \<Rightarrow> nat \<Rightarrow> bool" where
  "image_tiled d c secs b va sz \<longleftrightarrow>
     NumberOfSections c = length secs \<and> secs \<noteq> [] \<and>
     list_all (\<lambda>i. case get_section_vma i d c of Some (Inr (x, y, sec)) \<Rightarrow> sec = secs ! i | _ \<Rightarrow> False)
       [0..<length secs] \<and>
     tiled (SizeOfHeaders c) (sort_key sh_PointerToRawData secs) b \<and> b \<le> length d \<and>
     SecDir c + 8 \<le> SizeOfHeaders c \<and>
     Dir_VirtualAddress d (SecDir c) = Some va \<and> Dir_Size d (SecDir c) = Some sz \<and>
     (sz \<noteq> 0 \<longrightarrow> va + sz = length d \<and> b \<le> va)"

text \<open>All bytes of the file but the checksum, the entry of the security directory and the certificate
  table; an unsigned file with data after its sections is padded.\<close>

definition authenticode_bytes :: "buf \<Rightarrow> pe_context \<Rightarrow> nat \<Rightarrow> nat \<Rightarrow> nat \<Rightarrow> buf" where
  "authenticode_bytes d c b va sz =
     span d 0 (PEHdr c + 88) @ span d (PEHdr c + 92) (SecDir c) @
     (if sz \<noteq> 0 then span d (SecDir c + 8) va
      else span d (SecDir c + 8) (length d) @
        (if b = length d then [] else replicate (hash_padding (length d)) 0))"

lemma image_tiled_sections:
  assumes "image_tiled d c secs b va sz"
  shows "\<And>i. i < length secs \<Longrightarrow> \<exists>x y. get_section_vma i d c = Some (Inr (x, y, secs ! i))"
    and "SizeOfHeaders c + sum_list (map sh_SizeOfRawData secs) \<le> length d"
proof -
  show "\<exists>x y. get_section_vma i d c = Some (Inr (x, y, secs ! i))" if "i < length secs" for i
  proof -
    have "case get_section_vma i d c of None \<Rightarrow> False | Some (Inl a) \<Rightarrow> False
      | Some (Inr p) \<Rightarrow> (case p of (x, y, sec) \<Rightarrow> sec = secs ! i)"
      using assms that by (simp add: image_tiled_def list_all_iff)
    then show ?thesis by (fastforce dest: case_SomeInrD)
  qed
  have t: "tiled (SizeOfHeaders c) (sort_key sh_PointerToRawData secs) b" and "b \<le> length d"
    using assms by (auto simp: image_tiled_def)
  have "sum_list (map sh_SizeOfRawData (sort_key sh_PointerToRawData secs)) =
      sum_list (map sh_SizeOfRawData secs)"
    by (metis mset_map mset_sort sum_mset_sum_list)
  then show "SizeOfHeaders c + sum_list (map sh_SizeOfRawData secs) \<le> length d"
    using tiled_sum [OF t] tiled_le [OF t] \<open>b \<le> length d\<close> by simp
qed

lemma hash_contents_updates:
  assumes t: "image_tiled d c secs b va sz" and n: "length d < 2 ^ 32"
  shows "\<exists>ss. concat ss = span d (SizeOfHeaders c) (if sz \<noteq> 0 then va else length d) @
      (if sz \<noteq> 0 \<or> b = length d then [] else replicate (hash_padding (length d)) 0) \<and>
    (\<forall>ctx. hash_contents cr d (length d) c ctx =
      bindE (or_resources (digest_updates cr ctx ss)) (\<lambda>ctx. or_resources (digest_final cr ctx)))"
proof -
  have tl: "tiled (SizeOfHeaders c) (sort_key sh_PointerToRawData secs) b" and b: "b \<le> length d"
    and dir: "Dir_VirtualAddress d (SecDir c) = Some va" "Dir_Size d (SecDir c) = Some sz"
    and va: "sz \<noteq> 0 \<Longrightarrow> va + sz = length d \<and> b \<le> va"
    using t by (auto simp: image_tiled_def)
  have hb: "SizeOfHeaders c \<le> b" using tiled_le [OF tl] .
  have sort: "sort_sections d (length d) c (SizeOfHeaders c) 0 0 [] =
      Some (Inr (EFI_SUCCESS, fold insert_section secs []))"
    using sort_sections_ok [OF image_tiled_sections(1) [OF t] _ image_tiled_sections(2) [OF t] n, of 0 "[]"] t
    by (simp add: image_tiled_def)
  obtain ss where ss: "concat ss = span d (SizeOfHeaders c) b"
      "hash_sections cr d (length d) (sort_key sh_PointerToRawData secs) (SizeOfHeaders c) =
        (\<lambda>ctx. bindE (or_resources (digest_updates cr ctx ss)) (\<lambda>ctx. Some (Inr (b, ctx))))"
    using hash_sections_tiled [OF tl b order.refl n] by blast
  have secdir: "hash_to_secdir cr d (length d) c b =
    (\<lambda>ctx. if sz = 0 then Some (Inr (b, ctx))
      else bindE (or_resources (digest_updates cr ctx [span d b va])) (\<lambda>ctx. Some (Inr (va, ctx))))"
    using hash_to_secdir_updates [OF dir b order.refl n] va by blast
  define ts where "ts = (if sz \<noteq> 0 then [span d b va]
    else if b = length d then [] else span d b (length d) #
      (if hash_padding (length d) = 0 then [] else [replicate (hash_padding (length d)) 0]))"
  have "concat (ss @ ts) = span d (SizeOfHeaders c) (if sz \<noteq> 0 then va else length d) @
      (if sz \<noteq> 0 \<or> b = length d then [] else replicate (hash_padding (length d)) 0)"
    using ss(1) hb b va by (auto simp: ts_def span_append span_append_assoc)
  moreover have "hash_contents cr d (length d) c ctx =
      bindE (or_resources (digest_updates cr ctx (ss @ ts))) (\<lambda>ctx. or_resources (digest_final cr ctx))" for ctx
  proof (cases "sz = 0")
    case True
    have "hash_rest cr d (length d) c b = (\<lambda>ctx. or_resources (digest_updates cr ctx ts))"
      using b True by (subst hash_rest_updates [OF dir(2) b _ order.refl n]) (simp_all add: ts_def)
    then show ?thesis
      unfolding hash_contents_def sort
      by (simp add: fold_insert_section ss(2) secdir True bindE_assoc bindE_updates bindE_return
          status_simps del: digest_updates.simps)
  next
    case False
    have "hash_rest cr d (length d) c va = (\<lambda>ctx. or_resources (digest_updates cr ctx []))"
      using hash_rest_updates [OF dir(2) _ _ order.refl n, of va] va [OF False] by simp
    then show ?thesis
      unfolding hash_contents_def sort using False
      by (simp add: fold_insert_section ss(2) secdir bindE_assoc bindE_updates bindE_return ts_def
          status_simps del: digest_updates.simps)
  qed
  ultimately show ?thesis by blast
qed

lemma generate_hash_covered:
  assumes c: "context_ok d (length d) c" and dos: "e_magic d = Some EFI_IMAGE_DOS_SIGNATURE"
    and n: "length d < 2 ^ 32" and p: "pool_ok p" and t: "image_tiled d c secs b va sz"
  shows "\<exists>ss p'. concat ss = authenticode_bytes d c b va sz \<and>
    generate_hash cr p d (length d) c = Some (map_sum id (Pair c) (digest_of cr ss), p')"
proof -
  have hs: "SizeOfHeaders c \<le> length d" "SecDir c + 8 \<le> SizeOfHeaders c" "NumberOfSections c \<noteq> 0"
    using image_tiled_sections(2) [OF t] t by (auto simp: image_tiled_def)
  obtain off first where off: "e_lfanew d = Some off" and first: "FirstSection c = Some first"
    and "64 < length d"
    using c dos by (auto simp: context_ok_def)
  obtain ss where ss: "concat ss = span d (SizeOfHeaders c) (if sz \<noteq> 0 then va else length d) @
      (if sz \<noteq> 0 \<or> b = length d then [] else replicate (hash_padding (length d)) 0)"
    "\<And>ctx. hash_contents cr d (length d) c ctx =
      bindE (or_resources (digest_updates cr ctx ss)) (\<lambda>ctx. or_resources (digest_final cr ctx))"
    using hash_contents_updates [OF t n] by blast
  define hd where "hd = [span d 0 (PEHdr c + 88), span d (PEHdr c + 92) (SecDir c),
    span d (SecDir c + 8) (SizeOfHeaders c)]"
  note h = hash_headers_updates [OF c order.refl n hs(2,1), folded hd_def]
  have "SizeOfHeaders c \<le> va" if "sz \<noteq> 0"
    using t that tiled_le by (fastforce simp: image_tiled_def)
  then have "concat (hd @ ss) = authenticode_bytes d c b va sz"
    using hs ss(1) by (auto simp: hd_def authenticode_bytes_def span_append span_append_assoc)
  moreover have "\<exists>p'. generate_hash cr p d (length d) c =
      Some (map_sum id (Pair c) (digest_of cr (hd @ ss)), p')"
  proof (cases "do { ctx \<leftarrow> digest_init cr; digest_updates cr ctx hd }")
    case None
    then have "hash_headers cr d (length d) c = Some (Inl EFI_OUT_OF_RESOURCES)"
      unfolding h or_resources_bind by (simp add: or_resources_def)
    moreover have "digest_of cr (hd @ ss) = Inl EFI_OUT_OF_RESOURCES"
      using None by (cases "digest_init cr") (simp_all add: digest_of_def digest_updates_append)
    ultimately show ?thesis
      using \<open>64 < length d\<close> dos off p
      by (simp add: generate_hash_def AllocatePool_def pool_ok_def)
  next
    case (Some ctx)
    then have "hash_headers cr d (length d) c = Some (Inr ctx)"
      unfolding h or_resources_bind by (simp add: or_resources_def)
    moreover have "hash_contents cr d (length d) c ctx = Some (digest_of cr (hd @ ss))"
      using Some unfolding ss(2) or_resources_bind digest_of_def
      by (cases "digest_init cr") (simp_all add: or_resources_def digest_updates_append bind_assoc)
    ultimately show ?thesis
      using \<open>64 < length d\<close> dos off p hs(3) first
      by (simp add: generate_hash_def AllocatePool_def pool_ok_def hash_first_section_def)
  qed
  ultimately show ?thesis by blast
qed

section \<open>Properties\<close>

text \<open>C28. Whatever the file holds, and whichever hash or allocation fails: on a file that \<^verbatim>\<open>read_header\<close>
  accepts, \<^verbatim>\<open>generate_hash\<close> returns without an access outside the file.\<close>

theorem generate_hash_safe:
  assumes "read_header e d (length d) check = Some (Inr c)"
  shows "\<exists>r p'. generate_hash cr p d (length d) c = Some (r, p')"
proof -
  have "context_ok d (length d) c" using read_header_spec [of "length d" d e check] assms by auto
  then have "returns (generate_hash cr p d (length d) c)" by (rule generate_hash_returns) simp
  then show ?thesis by (auto simp: returns_def)
qed

text \<open>A hash that keeps its input.\<close>

definition sample_hash :: "buf hash_alg" where
  "sample_hash = \<lparr>h_size = 0, h_init = Some [], h_update = (\<lambda>h s. Some (h @ s)), h_final = Some\<rparr>"

definition sample_digests :: "(buf, buf) digests" where
  "sample_digests = (sample_hash, sample_hash)"

text \<open>The sample image with a certificate table of eight bytes.\<close>

definition sample_signed :: "buf \<Rightarrow> buf" where
  "sample_signed cert =
     sample_header 1 400 408 368 (376, 8) (0, 0) @
     sample_section ''.text'' 8 400 8 368 0x60000020 @ [1, 2, 3, 4, 5, 6, 7, 8] @ cert"

lemma sample_signed_header:
  "length cert = 8 \<Longrightarrow>
    read_header sample_env (sample_signed cert) (length (sample_signed cert)) True = Some (Inr sample_pe_context)"
  unfolding sample_signed_def sample_pe_context_def by (rule read_header_sample) simp_all

theorem generate_hash_safe_witness:
  "read_header sample_env (sample_signed [0, 0, 0, 0, 0, 0, 0, 0]) 384 True = Some (Inr sample_pe_context) \<and>
    (\<exists>r p'. generate_hash sample_digests (\<lambda>_ _. True) (sample_signed [0, 0, 0, 0, 0, 0, 0, 0]) 384
      sample_pe_context = Some (r, p'))"
proof -
  let ?d = "sample_signed [0, 0, 0, 0, 0, 0, 0, 0]"
  have n: "length ?d = 384" by (simp add: sample_signed_def)
  have h: "read_header sample_env ?d (length ?d) True = Some (Inr sample_pe_context)"
    by (rule sample_signed_header) simp
  show ?thesis
    using h generate_hash_safe [OF h, of sample_digests "\<lambda>_ _. True"] by (simp only: n)
qed

text \<open>C6. The digests cover the file: on an image that \<^verbatim>\<open>read_header\<close> accepts, whose sections follow each
  other from the end of the headers and whose certificate table, if any, is the end of the file, the data
  that \<^verbatim>\<open>generate_hash\<close> feeds to both hash functions is every byte of the file except the checksum, the
  entry of the security directory and the certificate table, in file order (an unsigned file with data
  after its sections is padded with zeros to a multiple of eight). It fails only if a hash function
  does.\<close>

theorem generate_hash_covers:
  assumes "read_header e d (length d) check = Some (Inr c)" and "length d < 2 ^ 32"
    and "e_magic d = Some EFI_IMAGE_DOS_SIGNATURE" and "pool_ok p" and "image_tiled d c secs b va sz"
  shows "\<exists>ss p'. concat ss = authenticode_bytes d c b va sz \<and>
    generate_hash cr p d (length d) c = Some (map_sum id (Pair c) (digest_of cr ss), p')"
proof -
  have "context_ok d (length d) c" using read_header_spec [of "length d" d e check] assms(1) by auto
  then show ?thesis using assms(2-5) by (intro generate_hash_covered)
qed

lemma sample_updates:
  "digest_updates sample_digests (x, x) ss = Some (x @ concat ss, x @ concat ss)"
  by (induction ss arbitrary: x) (simp_all add: sample_digests_def sample_hash_def digest_update_def)

lemma sample_digest_of: "digest_of sample_digests ss = Inr (concat ss, concat ss)"
proof -
  have "digest_init sample_digests = Some ([], [])"
    by (simp add: sample_digests_def sample_hash_def digest_init_def)
  moreover have "digest_final sample_digests (x, y) = Some (x, y)" for x y
    by (simp add: sample_digests_def sample_hash_def digest_final_def)
  ultimately show ?thesis by (simp add: digest_of_def sample_updates)
qed

theorem generate_hash_covers_witness:
  "image_tiled (sample_signed [0, 0, 0, 0, 0, 0, 0, 0]) sample_pe_context [sample_text] 376 376 8 \<and>
    (\<exists>p'. generate_hash sample_digests (\<lambda>_ _. True) (sample_signed [0, 0, 0, 0, 0, 0, 0, 0]) 384
      sample_pe_context =
      Some (Inr (sample_pe_context,
        authenticode_bytes (sample_signed [0, 0, 0, 0, 0, 0, 0, 0]) sample_pe_context 376 376 8,
        authenticode_bytes (sample_signed [0, 0, 0, 0, 0, 0, 0, 0]) sample_pe_context 376 376 8), p'))"
proof -
  let ?d = "sample_signed [0, 0, 0, 0, 0, 0, 0, 0]"
  have n: "length ?d = 384" by (simp add: sample_signed_def)
  have h: "read_header sample_env ?d (length ?d) True = Some (Inr sample_pe_context)"
    by (rule sample_signed_header) simp
  have r: "e_magic ?d = Some EFI_IMAGE_DOS_SIGNATURE" "Dir_VirtualAddress ?d 232 = Some 376"
      "Dir_Size ?d 232 = Some 8"
    by (simp_all add: sample_signed_def sample_header_reads)
  have g: "get_section_vma 0 ?d sample_pe_context = Some (Inr (Some 400, Some 407, sample_text))"
    by (rule sample_text_section [OF sample_signed_def])
  have t: "image_tiled ?d sample_pe_context [sample_text] 376 376 8"
    using g r n by (simp add: image_tiled_def sample_pe_context_def sample_text_fields)
  have p: "pool_ok (\<lambda>_ _. True)" by (simp add: pool_ok_def)
  show ?thesis
    using t generate_hash_covers [OF h _ r(1) p t, of sample_digests] by (auto simp: n sample_digest_of)
qed

end
