(* ===== verification/Section_Cache.thy ===== *)
theory Section_Cache
  imports Pe_Hash
begin

text \<open>
  The cache of section digests of \<^verbatim>\<open>pe.c\<close>: \<^verbatim>\<open>cache_section\<close>, \<^verbatim>\<open>validate_cached_section\<close> and
  \<^verbatim>\<open>flush_cached_sections\<close>. An image loader that shim has verified may hand over sections of the image
  as images of their own; they are trusted if their digest is in the cache.

  The cache is the allocated array and the number of entries in use. The lemmas give the effect of each
  operation, and show by rule induction over sequences of operations that a section is only validated
  against data that was cached for the same image and not flushed since.
\<close>

section \<open>State and operations\<close>

record section_cache_entry =
  sc_parent :: nat
  sc_name :: buf
  sc_size :: nat
  sc_digest :: buf

record section_cache =
  cache_entries :: "section_cache_entry list"
  num_section_cache_entries :: nat

definition zero_cache_entry :: section_cache_entry where
  "zero_cache_entry = \<lparr>sc_parent = 0, sc_name = replicate 9 0, sc_size = 0, sc_digest = replicate 32 0\<rparr>"

definition empty_cache :: section_cache where
  "empty_cache = \<lparr>cache_entries = [], num_section_cache_entries = 0\<rparr>"

definition do_sha256_sum :: "'h hash_alg \<Rightarrow> pool \<Rightarrow> buf \<Rightarrow> (efi_status + buf) \<times> pool" where
  "do_sha256_sum H p s =
     (case AllocatePool p (h_size H) of (ok, p1) \<Rightarrow>
        (if \<not> ok then Inl EFI_OUT_OF_RESOURCES
         else case h_init H of
           None \<Rightarrow> Inl EFI_OUT_OF_RESOURCES
         | Some ctx \<Rightarrow> (case h_update H ctx s of
             None \<Rightarrow> Inl EFI_OUT_OF_RESOURCES
           | Some ctx' \<Rightarrow> (case h_final H ctx' of
               None \<Rightarrow> Inl EFI_OUT_OF_RESOURCES | Some digest \<Rightarrow> Inr digest)), p1))"

text \<open>\<open>s\<close> is the section in memory, \<open>name\<close> the eight bytes of its name. An entry is 64 bytes.\<close>

definition cache_section ::
    "'h hash_alg \<Rightarrow> pool \<Rightarrow> nat \<Rightarrow> buf \<Rightarrow> buf \<Rightarrow> section_cache \<Rightarrow> efi_status \<times> section_cache \<times> pool" where
  "cache_section H p parent name s cache =
     (let n = num_section_cache_entries cache;
          (ok, p1) = AllocatePool p (n * 64 + 64)
      in if \<not> ok then (EFI_OUT_OF_RESOURCES, cache, p1)
         else
           let new = take n (cache_entries cache) @ [zero_cache_entry];
               (digest, p2) = do_sha256_sum H p1 s
           in case digest of
                Inl st \<Rightarrow> (st, cache\<lparr>cache_entries := new\<rparr>, p2)
              | Inr d \<Rightarrow>
                  (EFI_SUCCESS,
                   \<lparr>cache_entries = new[n := \<lparr>sc_parent = parent, sc_name = take 8 name @ [0],
                      sc_size = length s, sc_digest = d\<rparr>],
                    num_section_cache_entries = n + 1\<rparr>, p2))"

fun validate_entries ::
    "'h hash_alg \<Rightarrow> pool \<Rightarrow> nat \<Rightarrow> buf \<Rightarrow> section_cache_entry list \<Rightarrow> efi_status \<times> pool" where
  "validate_entries H p parent s [] = (EFI_NOT_FOUND, p)"
| "validate_entries H p parent s (x # xs) =
     (if sc_size x \<noteq> length s then validate_entries H p parent s xs
      else if sc_parent x \<noteq> parent then validate_entries H p parent s xs
      else case do_sha256_sum H p s of
        (Inl st, p1) \<Rightarrow> (st, p1)
      | (Inr digest, p1) \<Rightarrow>
          if digest \<noteq> sc_digest x then validate_entries H p1 parent s xs else (EFI_SUCCESS, p1))"

definition validate_cached_section ::
    "'h hash_alg \<Rightarrow> pool \<Rightarrow> nat \<Rightarrow> buf \<Rightarrow> section_cache \<Rightarrow> efi_status \<times> pool" where
  "validate_cached_section H p parent s cache =
     validate_entries H p parent s (take (num_section_cache_entries cache) (cache_entries cache))"

text \<open>The copy goes from the matching entry to the one after it: entries from \<open>i\<close> on move up by one,
  over the last one.\<close>

definition shift_up :: "nat \<Rightarrow> nat \<Rightarrow> 'a list \<Rightarrow> 'a list" where
  "shift_up n i xs = take (i + 1) xs @ take (n - i - 1) (drop i xs) @ drop n xs"

function flush_loop :: "nat \<Rightarrow> nat \<Rightarrow> nat \<Rightarrow> nat \<Rightarrow> section_cache_entry list \<Rightarrow> nat \<times> section_cache_entry list" where
  "flush_loop n parent i reduction xs =
     (if \<not> i < n then (reduction, xs)
      else if sc_parent (xs ! i) \<noteq> parent then flush_loop n parent (i + 1) reduction xs
      else flush_loop n parent (i + 1) (reduction + 1) (shift_up n i xs))"
  by pat_completeness auto
termination
  by (relation "measure (\<lambda>(n, parent, i, reduction, xs). n - i)") auto

declare flush_loop.simps [simp del]

definition flush_cached_sections :: "nat \<Rightarrow> section_cache \<Rightarrow> section_cache" where
  "flush_cached_sections parent cache =
     (let n = num_section_cache_entries cache;
          (reduction, xs) = flush_loop n parent 0 0 (cache_entries cache)
      in \<lparr>cache_entries = take (n - reduction) xs @ replicate reduction zero_cache_entry @ drop n xs,
          num_section_cache_entries = n - reduction\<rparr>)"

section \<open>The effect of a flush\<close>

definition cache_view :: "section_cache \<Rightarrow> section_cache_entry list" where
  "cache_view cache = take (num_section_cache_entries cache) (cache_entries cache)"

definition cache_ok :: "section_cache \<Rightarrow> bool" where
  "cache_ok cache \<longleftrightarrow> num_section_cache_entries cache \<le> length (cache_entries cache)"

lemma shift_up_in:
  assumes "i < n" and "n \<le> length xs"
  shows "length (shift_up n i xs) = length xs"
    and "j \<le> i \<Longrightarrow> shift_up n i xs ! j = xs ! j"
    and "i < j \<Longrightarrow> j < n \<Longrightarrow> shift_up n i xs ! j = xs ! (j - 1)"
    and "take (Suc i) (shift_up n i xs) = take (Suc i) xs"
  using assms by (auto simp: shift_up_def nth_append min_def)

text \<open>Once an entry matches, the entry after it is a copy of it and matches too: the flush drops
  everything from the first match on.\<close>

lemma flush_loop_matching:
  assumes "i < n" and "n \<le> length xs" and "sc_parent (xs ! i) = parent"
  shows "\<exists>ys. flush_loop n parent i k xs = (k + (n - i), ys) \<and> length ys = length xs \<and> take i ys = take i xs"
  using assms
proof (induction "n - i" arbitrary: i k xs)
  case (Suc m)
  let ?xs = "shift_up n i xs"
  have l: "length ?xs = length xs" and t: "take i ?xs = take i xs"
    using shift_up_in(1,4) [OF Suc.prems(1,2)] by (auto dest: arg_cong [where f = "take i"])
  have step: "flush_loop n parent i k xs = flush_loop n parent (Suc i) (k + 1) ?xs"
    using Suc.prems by (subst flush_loop.simps) simp
  show ?case
  proof (cases "Suc i < n")
    case True
    have "sc_parent (?xs ! Suc i) = parent"
      using shift_up_in(3) [OF Suc.prems(1,2), of "Suc i"] True Suc.prems(3) by simp
    then obtain ys where "flush_loop n parent (Suc i) (k + 1) ?xs = (k + 1 + (n - Suc i), ys)"
        "length ys = length ?xs" "take (Suc i) ys = take (Suc i) ?xs"
      using Suc.hyps True Suc.prems(2) l by (metis diff_Suc_1 diff_Suc_eq_diff_pred diff_commute)
    then show ?thesis
      using step l t Suc.prems(1) by (auto dest: arg_cong [where f = "take i"])
  next
    case False
    then have "flush_loop n parent (Suc i) (k + 1) ?xs = (k + 1, ?xs)"
      by (subst flush_loop.simps) simp
    then show ?thesis using step l t Suc.prems(1) False by auto
  qed
qed simp

lemma flush_loop_view:
  assumes "i \<le> n" and "n \<le> length xs"
  shows "\<exists>ys. flush_loop n parent i 0 xs =
      (n - i - length (takeWhile (\<lambda>x. sc_parent x \<noteq> parent) (drop i (take n xs))), ys) \<and>
    length ys = length xs \<and>
    take (i + length (takeWhile (\<lambda>x. sc_parent x \<noteq> parent) (drop i (take n xs)))) ys =
    take (i + length (takeWhile (\<lambda>x. sc_parent x \<noteq> parent) (drop i (take n xs)))) xs"
  using assms(1)
proof (induction "n - i" arbitrary: i)
  case 0
  then show ?case by (subst flush_loop.simps) simp
next
  case (Suc m)
  then have i: "i < n" by simp
  then have d: "drop i (take n xs) = xs ! i # drop (Suc i) (take n xs)"
    using assms(2) by (simp add: Cons_nth_drop_Suc [symmetric])
  show ?case
  proof (cases "sc_parent (xs ! i) = parent")
    case True
    then show ?thesis using flush_loop_matching [OF i assms(2) True, of 0] d by simp
  next
    case False
    then have "flush_loop n parent i 0 xs = flush_loop n parent (Suc i) 0 xs"
      using i by (subst flush_loop.simps) simp
    then show ?thesis using Suc.hyps(1) [of "Suc i"] Suc.hyps(2) i d False by simp
  qed
qed

lemma flush_view:
  assumes "cache_ok cache"
  shows "cache_view (flush_cached_sections parent cache) =
      takeWhile (\<lambda>x. sc_parent x \<noteq> parent) (cache_view cache)"
    and "cache_ok (flush_cached_sections parent cache)"
proof -
  let ?n = "num_section_cache_entries cache" and ?xs = "cache_entries cache"
  let ?w = "takeWhile (\<lambda>x. sc_parent x \<noteq> parent) (take ?n ?xs)"
  obtain ys where f: "flush_loop ?n parent 0 0 ?xs = (?n - length ?w, ys)" "length ys = length ?xs"
      "take (length ?w) ys = take (length ?w) ?xs"
    using flush_loop_view [of 0 ?n ?xs parent] assms by (auto simp: cache_ok_def)
  have w: "length ?w \<le> ?n" using length_takeWhile_le [of _ "take ?n ?xs"] by (metis length_take min.boundedE)
  have "take (length ?w) ?xs = ?w"
    using w by (metis min.absorb1 take_take takeWhile_eq_take)
  then show "cache_view (flush_cached_sections parent cache) =
      takeWhile (\<lambda>x. sc_parent x \<noteq> parent) (cache_view cache)"
    using f w assms by (simp add: flush_cached_sections_def cache_view_def cache_ok_def Let_def)
  show "cache_ok (flush_cached_sections parent cache)"
    using f w assms by (simp add: flush_cached_sections_def cache_ok_def Let_def)
qed

section \<open>Sequences of operations\<close>

definition sha256_of :: "'h hash_alg \<Rightarrow> buf \<Rightarrow> buf option" where
  "sha256_of H s = do { ctx \<leftarrow> h_init H; ctx' \<leftarrow> h_update H ctx s; h_final H ctx' }"

lemma do_sha256_sum_Inr:
  "do_sha256_sum H p s = (Inr d, p') \<Longrightarrow> sha256_of H s = Some d"
  by (auto simp: do_sha256_sum_def sha256_of_def split: prod.splits if_splits option.splits)

datatype cache_event = Cached nat buf | Flushed nat

text \<open>The data that was cached for an image and not flushed since; the latest event is the first.\<close>

fun live :: "nat \<Rightarrow> cache_event list \<Rightarrow> buf list" where
  "live parent [] = []"
| "live parent (Cached h s # es) = (if h = parent then s # live parent es else live parent es)"
| "live parent (Flushed h # es) = (if h = parent then [] else live parent es)"

inductive cache_run :: "'h hash_alg \<Rightarrow> cache_event list \<Rightarrow> section_cache \<Rightarrow> bool" for H where
  run_empty: "cache_run H [] empty_cache"
| run_cached: "cache_run H es cache \<Longrightarrow> cache_section H p parent name s cache = (EFI_SUCCESS, cache', p') \<Longrightarrow>
    cache_run H (Cached parent s # es) cache'"
| run_failed: "cache_run H es cache \<Longrightarrow> cache_section H p parent name s cache = (st, cache', p') \<Longrightarrow>
    st \<noteq> EFI_SUCCESS \<Longrightarrow> cache_run H es cache'"
| run_flushed: "cache_run H es cache \<Longrightarrow> cache_run H (Flushed parent # es) (flush_cached_sections parent cache)"

definition entry_live :: "'h hash_alg \<Rightarrow> cache_event list \<Rightarrow> section_cache_entry \<Rightarrow> bool" where
  "entry_live H es x \<longleftrightarrow> (\<exists>s. s \<in> set (live (sc_parent x) es) \<and> length s = sc_size x \<and>
     sha256_of H s = Some (sc_digest x))"

lemma cache_section_cases:
  assumes "cache_section H p parent name s cache = (st, cache', p')" and "cache_ok cache"
  shows "cache_ok cache' \<and>
    (if st = EFI_SUCCESS then \<exists>x. cache_view cache' = cache_view cache @ [x] \<and> sc_parent x = parent \<and>
        sc_size x = length s \<and> sha256_of H s = Some (sc_digest x)
     else cache_view cache' = cache_view cache)"
proof (cases "fst (AllocatePool p (num_section_cache_entries cache * 64 + 64))")
  case False
  then show ?thesis using assms by (auto simp: cache_section_def Let_def split: prod.splits)
next
  case True
  let ?n = "num_section_cache_entries cache"
  obtain p1 where p1: "AllocatePool p (?n * 64 + 64) = (True, p1)" using True by (metis prod.collapse)
  obtain r p2 where r: "do_sha256_sum H p1 s = (r, p2)" by fastforce
  show ?thesis
  proof (cases r)
    case (Inl e)
    have "e \<noteq> EFI_SUCCESS" using r Inl by (auto simp: do_sha256_sum_def split: prod.splits if_splits option.splits)
    then show ?thesis
      using assms p1 r Inl by (auto simp: cache_section_def cache_ok_def cache_view_def Let_def)
  next
    case (Inr d)
    then show ?thesis
      using assms p1 r do_sha256_sum_Inr [of H p1 s d p2]
      by (auto simp: cache_section_def cache_ok_def cache_view_def Let_def list_update_append min_def)
  qed
qed

lemma cache_run_inv:
  "cache_run H es cache \<Longrightarrow> cache_ok cache \<and> list_all (entry_live H es) (cache_view cache)"
proof (induction rule: cache_run.induct)
  case run_empty
  then show ?case by (simp add: empty_cache_def cache_ok_def cache_view_def)
next
  case (run_cached es cache p parent name s cache' p')
  then obtain x where x: "cache_ok cache'" "cache_view cache' = cache_view cache @ [x]" "sc_parent x = parent"
      "sc_size x = length s" "sha256_of H s = Some (sc_digest x)"
    using cache_section_cases [OF run_cached.hyps(2)] by auto
  have "entry_live H (Cached parent s # es) y" if "entry_live H es y" for y
    using that by (auto simp: entry_live_def)
  then show ?case using x run_cached.IH by (auto simp: list_all_iff entry_live_def)
next
  case (run_failed es cache p parent name s st cache' p')
  then show ?case using cache_section_cases [OF run_failed.hyps(2)] by auto
next
  case (run_flushed es cache parent)
  have "entry_live H (Flushed parent # es) y" if "entry_live H es y" "sc_parent y \<noteq> parent" for y
    using that by (auto simp: entry_live_def)
  then show ?case
    using run_flushed flush_view [of cache parent] by (auto simp: list_all_iff dest: set_takeWhileD)
qed

lemma validate_entries_found:
  "validate_entries H p parent s xs = (EFI_SUCCESS, p') \<Longrightarrow>
    \<exists>x \<in> set xs. sc_parent x = parent \<and> sc_size x = length s \<and> sha256_of H s = Some (sc_digest x)"
proof (induction xs arbitrary: p)
  case (Cons x xs)
  obtain r p1 where r: "do_sha256_sum H p s = (r, p1)" by fastforce
  have "r \<noteq> Inl EFI_SUCCESS"
    using r by (auto simp: do_sha256_sum_def split: prod.splits if_splits option.splits)
  then show ?case
    using Cons r by (fastforce dest: do_sha256_sum_Inr split: if_splits sum.splits)
qed simp

section \<open>Properties\<close>

text \<open>C9. A section is validated only against cached data: after any sequence of \<^verbatim>\<open>cache_section\<close> (which may
  fail at any point) and \<^verbatim>\<open>flush_cached_sections\<close>, if \<^verbatim>\<open>validate_cached_section\<close> succeeds for an image and
  some bytes, then a section of the same length and with the same digest was cached for that image and
  has not been flushed since.\<close>

theorem validate_cached_section_sound:
  assumes "cache_run H es cache" and "validate_cached_section H p parent s cache = (EFI_SUCCESS, p')"
  shows "\<exists>s'. s' \<in> set (live parent es) \<and> length s' = length s \<and> sha256_of H s' = sha256_of H s \<and>
    sha256_of H s \<noteq> None"
proof -
  obtain x where x: "x \<in> set (cache_view cache)" "sc_parent x = parent" "sc_size x = length s"
      "sha256_of H s = Some (sc_digest x)"
    using validate_entries_found assms(2) unfolding validate_cached_section_def cache_view_def [symmetric]
    by blast
  then have "entry_live H es x" using cache_run_inv [OF assms(1)] by (auto simp: list_all_iff)
  then show ?thesis using x by (auto simp: entry_live_def)
qed

definition sample_cache :: section_cache where
  "sample_cache = fst (snd (cache_section sample_hash (\<lambda>_ _. True) 7 (lit ''.text'' @ [0, 0, 0]) [1, 2, 3] empty_cache))"

theorem validate_cached_section_sound_witness:
  "fst (validate_cached_section sample_hash (\<lambda>_ _. True) 7 [1, 2, 3] sample_cache) = EFI_SUCCESS \<and>
    (\<exists>s'. s' \<in> set (live 7 [Cached 7 [1, 2, 3]]) \<and> sha256_of sample_hash s' = sha256_of sample_hash [1, 2, 3])"
proof -
  have "fst (cache_section sample_hash (\<lambda>_ _. True) 7 (lit ''.text'' @ [0, 0, 0]) [1, 2, 3] empty_cache) =
      EFI_SUCCESS" by code_simp
  then have "cache_section sample_hash (\<lambda>_ _. True) 7 (lit ''.text'' @ [0, 0, 0]) [1, 2, 3] empty_cache =
      (EFI_SUCCESS, sample_cache,
       snd (snd (cache_section sample_hash (\<lambda>_ _. True) 7 (lit ''.text'' @ [0, 0, 0]) [1, 2, 3] empty_cache)))"
    unfolding sample_cache_def by (metis prod.collapse)
  then have run: "cache_run sample_hash [Cached 7 [1, 2, 3]] sample_cache"
    by (rule run_cached [OF run_empty])
  have v: "fst (validate_cached_section sample_hash (\<lambda>_ _. True) 7 [1, 2, 3] sample_cache) = EFI_SUCCESS"
    by code_simp
  then show ?thesis
    using validate_cached_section_sound [OF run, of "\<lambda>_ _. True" 7 "[1, 2, 3]"]
    by (metis prod.collapse)
qed

text \<open>The flush of one image also drops the sections that other images cached after it.\<close>

lemma flush_drops_others:
  "cache_view (flush_cached_sections 7
     \<lparr>cache_entries = [zero_cache_entry\<lparr>sc_parent := 7\<rparr>, zero_cache_entry\<lparr>sc_parent := 8\<rparr>],
      num_section_cache_entries = 2\<rparr>) = []"
  by code_simp

end
