(* ===== verification/Verify.thy ===== *)
theory Verify
  imports Section_Cache Sbat Mock_Variables
begin

text \<open>
  The verification of an image: \<^verbatim>\<open>verify.c\<close>. The signature databases are firmware variables and buffers
  of the build; the cryptography (\<^verbatim>\<open>AuthenticodeVerify\<close>, and the extended key usages of a parsed
  certificate) is a parameter. A call of \<^verbatim>\<open>tpm_measure_variable\<close> or \<^verbatim>\<open>tpm_log_pe\<close>, whose result the code
  ignores, is an entry of a log. Console output and the error queue of OpenSSL are left out.

  The lemmas show what the searches find, that a hash on a deny list is refused whatever else holds, and
  that an image is accepted only if a trusted database holds its hash or a certificate that verifies one
  of its signatures.
\<close>

section \<open>State and configuration\<close>

datatype check_status = DATA_FOUND | DATA_NOT_FOUND | VAR_NOT_FOUND

datatype verification_method = VERIFIED_BY_NOTHING | VERIFIED_BY_CERT | VERIFIED_BY_HASH

datatype tpm_event = MeasureVariable ucs2 efi_guid buf | LogPe buf nat buf

record vstate =
  verification_method :: verification_method
  tpm_log :: "tpm_event list"
  vpool :: pool

text \<open>The lists and certificates of the build (\<open>None\<close> where the build does not define them), the global
  \<^verbatim>\<open>ignore_db\<close>, and the cryptography: whether a signature verifies a digest under a certificate, and the
  key usages of a certificate that parses and has the extension.\<close>

record vconfig =
  vendor_deauthorized :: buf
  vendor_db :: "buf option"
  build_cert :: "buf option"
  vendor_cert :: "buf option"
  ignore_db :: bool
  AuthenticodeVerify :: "buf \<Rightarrow> buf \<Rightarrow> buf \<Rightarrow> bool"
  ext_key_usage :: "buf \<Rightarrow> string list option"

definition OID_EKU_MODSIGN :: string where
  "OID_EKU_MODSIGN = ''1.3.6.1.4.1.2312.16.1.2''"

definition SHA1_DIGEST_SIZE :: nat where "SHA1_DIGEST_SIZE = 20"
definition SHA256_DIGEST_SIZE :: nat where "SHA256_DIGEST_SIZE = 32"
definition WIN_CERT_TYPE_PKCS_SIGNED_DATA :: nat where "WIN_CERT_TYPE_PKCS_SIGNED_DATA = 2"

definition log_event :: "tpm_event \<Rightarrow> vstate \<Rightarrow> vstate" where
  "log_event e s = s\<lparr>tpm_log := tpm_log s @ [e]\<rparr>"

section \<open>The loop over signature lists\<close>

text \<open>The loop that the two searches share: \<open>probe\<close> looks at the list at an offset and gives the entry to
  measure, if it finds one. A list of size zero is tried forever.\<close>

partial_function (option) search_lists ::
    "buf \<Rightarrow> (nat \<Rightarrow> nat \<Rightarrow> buf option option) \<Rightarrow> nat \<Rightarrow> nat \<Rightarrow> buf option option" where
  "search_lists b probe cl dbsize =
     (if dbsize = 0 then Some None
      else do {
        lsz \<leftarrow> esl_ListSize b cl;
        if dbsize < lsz then Some None
        else do {
          r \<leftarrow> probe cl lsz;
          case r of Some entry \<Rightarrow> Some (Some entry) | None \<Rightarrow> search_lists b probe (cl + lsz) (dbsize - lsz)
        }
      })"

declare search_lists.simps [code]

definition check_result :: "ucs2 \<Rightarrow> efi_guid \<Rightarrow> buf option \<Rightarrow> vstate \<Rightarrow> check_status \<times> vstate" where
  "check_result dbname guid r s =
     (case r of None \<Rightarrow> (DATA_NOT_FOUND, s)
      | Some entry \<Rightarrow> (DATA_FOUND, log_event (MeasureVariable dbname guid entry) s))"

section \<open>Certificates\<close>

text \<open>\<^verbatim>\<open>verify_x509\<close> on the bytes at \<open>cert\<close>.\<close>

definition verify_x509 :: "buf \<Rightarrow> nat \<Rightarrow> nat \<Rightarrow> bool option" where
  "verify_x509 b cert CertSize =
     (if CertSize < 4 then Some False
      else do {
        c0 \<leftarrow> rd b cert;
        c1 \<leftarrow> rd b (cert + 1);
        if c0 \<noteq> 0x30 \<or> c1 \<noteq> 0x82 then Some False
        else do {
          c2 \<leftarrow> rd b (cert + 2);
          c3 \<leftarrow> rd b (cert + 3);
          Some (unat c2 * 256 + unat c3 = CertSize - 4)
        }
      })"

definition verify_eku :: "vconfig \<Rightarrow> buf \<Rightarrow> bool" where
  "verify_eku v cert =
     (case ext_key_usage v cert of None \<Rightarrow> True | Some ekus \<Rightarrow> \<not> List.member ekus OID_EKU_MODSIGN)"

text \<open>The certificate of a list: only the first signature of the list is tried. The result is the
  entry to measure, if it verifies.\<close>

definition try_list_cert :: "vconfig \<Rightarrow> buf \<Rightarrow> nat \<Rightarrow> buf \<Rightarrow> buf \<Rightarrow> buf option option" where
  "try_list_cert v b cl sig hash = do {
     type \<leftarrow> esl_SignatureType b cl;
     if type \<noteq> guid_bytes EFI_CERT_TYPE_X509_GUID then Some None
     else do {
       hsz \<leftarrow> esl_HeaderSize b cl;
       ssz \<leftarrow> esl_SignatureSize b cl;
       let Cert = cl + 28 + hsz; CertSize = sub64 ssz 16
       in do {
         ok \<leftarrow> verify_x509 b (Cert + 16) CertSize;
         if \<not> ok then Some None
         else do {
           cert \<leftarrow> rdn b (Cert + 16) CertSize;
           if \<not> verify_eku v cert then Some None
           else if AuthenticodeVerify v sig cert hash then do { entry \<leftarrow> rdn b Cert ssz; Some (Some entry) }
           else Some None
         }
       }
     }
   }"

definition check_db_cert_in_ram ::
    "vconfig \<Rightarrow> buf \<Rightarrow> nat \<Rightarrow> buf \<Rightarrow> buf \<Rightarrow> ucs2 \<Rightarrow> efi_guid \<Rightarrow> vstate \<Rightarrow> (check_status \<times> vstate) option" where
  "check_db_cert_in_ram v b dbsize sig hash dbname guid s = do {
     r \<leftarrow> search_lists b (\<lambda>cl lsz. try_list_cert v b cl sig hash) 0 dbsize;
     Some (check_result dbname guid r s)
   }"

definition check_db_cert ::
    "'w efi_rt \<Rightarrow> 'w \<Rightarrow> vconfig \<Rightarrow> ucs2 \<Rightarrow> efi_guid \<Rightarrow> buf \<Rightarrow> buf \<Rightarrow> vstate \<Rightarrow> (check_status \<times> vstate) option" where
  "check_db_cert rt w v dbname guid sig hash s =
     (case get_variable rt dbname guid (vpool s) w of
        (st, db, dbsize, p) \<Rightarrow>
          if EFI_ERROR st then Some (VAR_NOT_FOUND, s\<lparr>vpool := p\<rparr>)
          else check_db_cert_in_ram v (the db) dbsize sig hash dbname guid (s\<lparr>vpool := p\<rparr>))"

section \<open>Hashes\<close>

text \<open>The search for a hash among the \<open>n\<close> signatures from \<open>cert\<close> on: the offset of the signature.\<close>

fun find_hash :: "buf \<Rightarrow> buf \<Rightarrow> nat \<Rightarrow> nat \<Rightarrow> nat \<Rightarrow> nat option option" where
  "find_hash b hash cert ssz n =
     (if n = 0 then Some None
      else do {
        x \<leftarrow> rdn b (cert + 16) (length hash);
        if x = hash then Some (Some cert) else find_hash b hash (cert + ssz) ssz (n - 1)
      })"

declare find_hash.simps [simp del]

text \<open>One list: the number of signatures is computed before the type is looked at, and wraps if the
  header does not fit.\<close>

definition try_list_hash :: "buf \<Rightarrow> nat \<Rightarrow> nat \<Rightarrow> buf \<Rightarrow> efi_guid \<Rightarrow> buf option option" where
  "try_list_hash b cl lsz hash CertType = do {
     hsz \<leftarrow> esl_HeaderSize b cl;
     ssz \<leftarrow> esl_SignatureSize b cl;
     if ssz = 0 then None
     else do {
       type \<leftarrow> esl_SignatureType b cl;
       if type \<noteq> guid_bytes CertType then Some None
       else do {
         r \<leftarrow> find_hash b hash (cl + 28 + hsz) ssz (sub64 (sub64 lsz 28) hsz div ssz);
         case r of
           None \<Rightarrow> Some None
         | Some cert \<Rightarrow> do { entry \<leftarrow> rdn b cert ssz; Some (Some entry) }
       }
     }
   }"

definition check_db_hash_in_ram ::
    "buf \<Rightarrow> nat \<Rightarrow> buf \<Rightarrow> efi_guid \<Rightarrow> ucs2 \<Rightarrow> efi_guid \<Rightarrow> vstate \<Rightarrow> (check_status \<times> vstate) option" where
  "check_db_hash_in_ram b dbsize hash CertType dbname guid s = do {
     r \<leftarrow> search_lists b (\<lambda>cl lsz. try_list_hash b cl lsz hash CertType) 0 dbsize;
     Some (check_result dbname guid r s)
   }"

definition check_db_hash ::
    "'w efi_rt \<Rightarrow> 'w \<Rightarrow> ucs2 \<Rightarrow> efi_guid \<Rightarrow> buf \<Rightarrow> efi_guid \<Rightarrow> vstate \<Rightarrow> (check_status \<times> vstate) option" where
  "check_db_hash rt w dbname guid hash CertType s =
     (case get_variable rt dbname guid (vpool s) w of
        (st, db, dbsize, p) \<Rightarrow>
          if EFI_ERROR st then Some (VAR_NOT_FOUND, s\<lparr>vpool := p\<rparr>)
          else check_db_hash_in_ram (the db) dbsize hash CertType dbname guid (s\<lparr>vpool := p\<rparr>))"

section \<open>Deny and allow lists\<close>

text \<open>A check, what is returned if it finds something, and what follows otherwise.\<close>

definition on_found ::
    "(vstate \<Rightarrow> (check_status \<times> vstate) option) \<Rightarrow> (vstate \<Rightarrow> efi_status \<times> vstate)
      \<Rightarrow> (vstate \<Rightarrow> (efi_status \<times> vstate) option) \<Rightarrow> vstate \<Rightarrow> (efi_status \<times> vstate) option" where
  "on_found check found next' s = do {
     (r, s1) \<leftarrow> check s;
     if r = DATA_FOUND then Some (found s1) else next' s1
   }"

text \<open>A check of the signature, if there is one.\<close>

definition if_cert ::
    "buf option \<Rightarrow> (buf \<Rightarrow> vstate \<Rightarrow> (check_status \<times> vstate) option) \<Rightarrow> vstate
      \<Rightarrow> (check_status \<times> vstate) option" where
  "if_cert cert check s = (case cert of None \<Rightarrow> Some (DATA_NOT_FOUND, s) | Some sig \<Rightarrow> check sig s)"

definition check_denylist ::
    "'w efi_rt \<Rightarrow> 'w \<Rightarrow> vconfig \<Rightarrow> buf option \<Rightarrow> buf \<Rightarrow> buf \<Rightarrow> vstate \<Rightarrow> (efi_status \<times> vstate) option" where
  "check_denylist rt w v cert sha256hash sha1hash =
     (let dbx = vendor_deauthorized v;
          n = wlit ''dbx''; g = EFI_SECURE_BOOT_DB_GUID; m = wlit ''MokListX'';
          bad = Pair EFI_SECURITY_VIOLATION
      in on_found (check_db_hash_in_ram dbx (length dbx) sha256hash EFI_CERT_SHA256_GUID n g) bad
        (on_found (check_db_hash_in_ram dbx (length dbx) sha1hash EFI_CERT_SHA1_GUID n g) bad
        (on_found (if_cert cert (\<lambda>sig. check_db_cert_in_ram v dbx (length dbx) sig sha256hash n g)) bad
        (on_found (check_db_hash rt w n g sha256hash EFI_CERT_SHA256_GUID) bad
        (on_found (check_db_hash rt w n g sha1hash EFI_CERT_SHA1_GUID) bad
        (on_found (if_cert cert (\<lambda>sig. check_db_cert rt w v n g sig sha256hash)) bad
        (on_found (check_db_hash rt w m SHIM_LOCK_GUID sha256hash EFI_CERT_SHA256_GUID) bad
        (on_found (if_cert cert (\<lambda>sig. check_db_cert rt w v m SHIM_LOCK_GUID sig sha256hash)) bad
        (\<lambda>s. Some (EFI_SUCCESS, s))))))))))"

definition update_verification_method :: "verification_method \<Rightarrow> vstate \<Rightarrow> vstate" where
  "update_verification_method m s =
     (if verification_method s = VERIFIED_BY_NOTHING then s\<lparr>verification_method := m\<rparr> else s)"

definition set_method :: "verification_method \<Rightarrow> vstate \<Rightarrow> vstate" where
  "set_method m s = update_verification_method m (s\<lparr>verification_method := m\<rparr>)"

definition check_allowlist ::
    "'w efi_rt \<Rightarrow> 'w \<Rightarrow> vconfig \<Rightarrow> buf option \<Rightarrow> buf \<Rightarrow> buf \<Rightarrow> vstate \<Rightarrow> (efi_status \<times> vstate) option" where
  "check_allowlist rt w v cert sha256hash sha1hash =
     (let g = EFI_SECURE_BOOT_DB_GUID;
          by_hash = (\<lambda>s. (EFI_SUCCESS, set_method VERIFIED_BY_HASH s));
          by_cert = (\<lambda>s. (EFI_SUCCESS, set_method VERIFIED_BY_CERT s));
          mok = on_found (check_db_hash rt w (wlit ''MokListRT'') SHIM_LOCK_GUID sha256hash EFI_CERT_SHA256_GUID) by_hash
            (on_found (if_cert cert (\<lambda>sig. check_db_cert rt w v (wlit ''MokListRT'') SHIM_LOCK_GUID sig sha256hash)) by_cert
            (\<lambda>s. Some (EFI_NOT_FOUND, update_verification_method VERIFIED_BY_NOTHING s)));
          vendor = (case vendor_db v of
              None \<Rightarrow> mok
            | Some db \<Rightarrow>
                on_found (check_db_hash_in_ram db (length db) sha256hash EFI_CERT_SHA256_GUID (wlit ''vendor_db'') g) by_hash
                (on_found (if_cert cert (\<lambda>sig. check_db_cert_in_ram v db (length db) sig sha256hash (wlit ''vendor_db'') g)) by_cert
                mok))
      in if ignore_db v then vendor
         else
           on_found (check_db_hash rt w (wlit ''db'') g sha256hash EFI_CERT_SHA256_GUID)
             (\<lambda>s. (EFI_SUCCESS, update_verification_method VERIFIED_BY_HASH s))
           (on_found (check_db_hash rt w (wlit ''db'') g sha1hash EFI_CERT_SHA1_GUID) by_hash
           (on_found (if_cert cert (\<lambda>sig. check_db_cert rt w v (wlit ''db'') g sig sha256hash)) by_cert
           vendor)))"

section \<open>Signatures\<close>

text \<open>The certificates of the build. The first has an address and a size, the second a size.\<close>

definition try_own_cert ::
    "vconfig \<Rightarrow> buf option \<Rightarrow> buf \<Rightarrow> buf \<Rightarrow> vstate \<Rightarrow> vstate option" where
  "try_own_cert v own sig sha256hash s =
     (case own of
        None \<Rightarrow> None
      | Some cert \<Rightarrow>
          if cert \<noteq> [] \<and> AuthenticodeVerify v sig cert sha256hash then
            Some (log_event (MeasureVariable (wlit ''Shim'') SHIM_LOCK_GUID cert)
              (update_verification_method VERIFIED_BY_CERT s))
          else None)"

definition verify_one_signature ::
    "'w efi_rt \<Rightarrow> 'w \<Rightarrow> vconfig \<Rightarrow> buf \<Rightarrow> buf \<Rightarrow> buf \<Rightarrow> vstate \<Rightarrow> (efi_status \<times> vstate) option" where
  "verify_one_signature rt w v sig sha256hash sha1hash s = do {
     (st, s1) \<leftarrow> check_denylist rt w v (Some sig) sha256hash sha1hash s;
     if EFI_ERROR st then Some (st, s1)
     else do {
       (st, s2) \<leftarrow> check_allowlist rt w v (Some sig) sha256hash sha1hash s1;
       if \<not> EFI_ERROR st then Some (st, s2)
       else case try_own_cert v (build_cert v) sig sha256hash s2 of
         Some s3 \<Rightarrow> Some (EFI_SUCCESS, s3)
       | None \<Rightarrow>
           (case try_own_cert v (vendor_cert v) sig sha256hash s2 of
              Some s3 \<Rightarrow> Some (EFI_SUCCESS, s3)
            | None \<Rightarrow> Some (EFI_NOT_FOUND, s2))
     }
   }"

text \<open>The loop over the certificate table: \<open>Inl st\<close> is a return from the function, \<open>Inr ret\<close> the value of
  \<^verbatim>\<open>ret_efi_status\<close> after the loop. The structure \<^verbatim>\<open>WIN_CERTIFICATE_EFI_PKCS\<close> has 12 bytes, its header 8; the
  length is at 0 and the type at 6.\<close>

lemma ALIGN_VALUE_8_bounds:
  assumes "n + 7 < 2 ^ 64"
  shows "n \<le> ALIGN_VALUE n 8" and "ALIGN_VALUE n 8 \<le> n + 7"
proof -
  have "sub64 8 1 = 7" by (simp add: sub64_def)
  then have "ALIGN_VALUE n 8 = (n + sub64 8 n mod 8) mod 2 ^ 64" by (simp add: ALIGN_VALUE_def and_7 add64_def)
  moreover have "sub64 8 n mod 8 < 8" by simp
  ultimately have "ALIGN_VALUE n 8 = n + sub64 8 n mod 8" "sub64 8 n mod 8 \<le> 7"
    using assms by simp_all
  then show "n \<le> ALIGN_VALUE n 8" and "ALIGN_VALUE n 8 \<le> n + 7"
    by simp_all
qed

lemma align_step:
  assumes "offset < secsize" and "secsize < 2 ^ 32" and "\<not> secsize - offset < sz" and "\<not> sz < 8"
  shows "offset < ALIGN_VALUE (offset + sz) 8"
proof -
  have "offset + sz + 7 < 2 ^ 64" using assms by simp
  from ALIGN_VALUE_8_bounds(1) [OF this] show ?thesis using assms(4) by simp
qed

function verify_signatures ::
    "'w efi_rt \<Rightarrow> 'w \<Rightarrow> vconfig \<Rightarrow> buf \<Rightarrow> nat \<Rightarrow> nat \<Rightarrow> buf \<Rightarrow> buf \<Rightarrow> nat \<Rightarrow> efi_status \<Rightarrow> vstate
      \<Rightarrow> ((efi_status + efi_status) \<times> vstate) option" where
  "verify_signatures rt w v d datasize secdir sha256hash sha1hash offset ret s = do {
     va \<leftarrow> Dir_VirtualAddress d secdir;
     secsize \<leftarrow> Dir_Size d secdir;
     if \<not> offset < secsize then Some (Inr ret, s)
     else case image_offset datasize (va + offset) of
       None \<Rightarrow> Some (Inr ret, s)
     | Some sig \<Rightarrow>
         if sig + 12 > datasize then Some (Inl EFI_INVALID_PARAMETER, s)
         else if offset + 4 > secsize then Some (Inl EFI_INVALID_PARAMETER, s)
         else do {
           sz \<leftarrow> rd32 d sig;
           if sz > secsize - offset then Some (Inl EFI_INVALID_PARAMETER, s)
           else if sz < 8 then Some (Inl EFI_INVALID_PARAMETER, s)
           else do {
             type \<leftarrow> rd16 d (sig + 6);
             if type = WIN_CERT_TYPE_PKCS_SIGNED_DATA then do {
               certdata \<leftarrow> rdn d (sig + 8) (sz - 8);
               (st, s1) \<leftarrow> verify_one_signature rt w v certdata sha256hash sha1hash s;
               verify_signatures rt w v d datasize secdir sha256hash sha1hash (ALIGN_VALUE (offset + sz) 8)
                 (if ret \<noteq> EFI_SUCCESS then st else ret) s1
             } else
               verify_signatures rt w v d datasize secdir sha256hash sha1hash (ALIGN_VALUE (offset + sz) 8) ret s
           }
         }
   }"
  by pat_completeness auto
termination
proof (relation "measure (\<lambda>(rt, w, v, d, datasize, secdir, a, b, offset, ret, s).
    (case Dir_Size d secdir of None \<Rightarrow> 0 | Some n \<Rightarrow> n) - offset)", goal_cases)
  case 1
  then show ?case by simp
next
  case (2 rt w v d datasize secdir a b offset ret s va secsize sig sz)
  have "secsize < 2 ^ 32" using 2(2) by (auto simp: Dir_Size_def dest: rd32_bound)
  then have "offset < ALIGN_VALUE (offset + sz) 8" using 2 by (intro align_step) auto
  then show ?case using 2 by auto
next
  case (3 rt w v d datasize secdir a b offset ret s va secsize sig sz)
  have "secsize < 2 ^ 32" using 3(2) by (auto simp: Dir_Size_def dest: rd32_bound)
  then have "offset < ALIGN_VALUE (offset + sz) 8" using 3 by (intro align_step) auto
  then show ?case using 3 by auto
qed

declare verify_signatures.simps [simp del]

text \<open>\<^verbatim>\<open>verify_buffer_authenticode\<close>: \<open>datasize\<close> is the unsigned value of the \<^verbatim>\<open>int\<close> argument.\<close>

definition verify_buffer_authenticode ::
    "'w efi_rt \<Rightarrow> 'w \<Rightarrow> vconfig \<Rightarrow> ('h, 'g) digests \<Rightarrow> buf \<Rightarrow> nat \<Rightarrow> pe_context \<Rightarrow> bool \<Rightarrow> vstate
      \<Rightarrow> (efi_status \<times> pe_context \<times> vstate) option" where
  "verify_buffer_authenticode rt w v cr d datasize c parent_verified s =
     (if datasize \<ge> 2 ^ 31 then Some (EFI_INVALID_PARAMETER, c, s)
      else do {
        (h, p) \<leftarrow> generate_hash cr (vpool s) d datasize c;
        let s0 = s\<lparr>vpool := p\<rparr> in
        case h of
          Inl st \<Rightarrow> Some (st, c, s0)
        | Inr (c', sha256hash, sha1hash) \<Rightarrow> do {
            (st, s1) \<leftarrow> check_denylist rt w v None sha256hash sha1hash s0;
            if EFI_ERROR st then Some (st, c', s1)
            else if parent_verified then Some (EFI_SUCCESS, c', s1)
            else do {
              (st, s2) \<leftarrow> check_allowlist rt w v None sha256hash sha1hash s1;
              if \<not> EFI_ERROR st then Some (st, c', s2)
              else if st \<noteq> EFI_NOT_FOUND then Some (st, c', s2)
              else do {
                va \<leftarrow> Dir_VirtualAddress d (SecDir c');
                secsize \<leftarrow> Dir_Size d (SecDir c');
                if secsize = 0 then Some (EFI_SECURITY_VIOLATION, c', s2)
                else case checked_add secsize va of
                  None \<Rightarrow> Some (EFI_INVALID_PARAMETER, c', s2)
                | Some offset \<Rightarrow>
                    if offset > datasize then Some (EFI_INVALID_PARAMETER, c', s2)
                    else do {
                      (r, s3) \<leftarrow> verify_signatures rt w v d datasize (SecDir c') sha256hash sha1hash 0
                        EFI_NOT_FOUND s2;
                      Some (case r of Inl st \<Rightarrow> st
                        | Inr ret \<Rightarrow> if ret \<noteq> EFI_SUCCESS then EFI_SECURITY_VIOLATION else ret, c', s3)
                    }
              }
            }
          }
      })"

section \<open>SBAT\<close>

text \<open>The search for the \<^verbatim>\<open>.sbat\<close> section: \<open>addr\<close> is the address of the image. A base of NULL has the
  address 0.\<close>

function find_sbat ::
    "nat \<Rightarrow> buf \<Rightarrow> nat \<Rightarrow> pe_context \<Rightarrow> nat \<Rightarrow> nat option \<Rightarrow> nat \<Rightarrow> (efi_status + nat option \<times> nat) option" where
  "find_sbat addr d datasize c i SBATBase SBATSize =
     (if \<not> i < NumberOfSections c then Some (Inr (SBATBase, SBATSize))
      else case FirstSection c of
        None \<Rightarrow> None
      | Some first \<Rightarrow>
          if first + 40 * i + 40 > datasize then Some (Inl EFI_UNSUPPORTED)
          else do {
            sec \<leftarrow> read_section d (first + 40 * i);
            if sh_Name sec \<noteq> lit ''.sbat'' @ [0, 0, 0] then
              find_sbat addr d datasize c (i + 1) SBATBase SBATSize
            else if SBATBase \<noteq> None \<or> SBATSize \<noteq> 0 then Some (Inl EFI_UNSUPPORTED)
            else if sh_NumberOfRelocations sec \<noteq> 0 \<or> sh_PointerToRelocations sec \<noteq> 0 then
              Some (Inl EFI_UNSUPPORTED)
            else if sh_SizeOfRawData sec \<noteq> 0 \<and> sh_SizeOfRawData sec \<ge> sh_VirtualSize sec then
              let base = image_offset datasize (sh_PointerToRawData sec);
                  start = (case base of None \<Rightarrow> 0 | Some a \<Rightarrow> addr + a)
              in case checked_add start (sh_SizeOfRawData sec) of
                   None \<Rightarrow> Some (Inl EFI_UNSUPPORTED)
                 | Some boundary \<Rightarrow>
                     if boundary > addr + datasize then Some (Inl EFI_UNSUPPORTED)
                     else find_sbat addr d datasize c (i + 1) base (sh_SizeOfRawData sec)
            else find_sbat addr d datasize c (i + 1) SBATBase SBATSize
          })"
  by pat_completeness auto
termination
  by (relation "measure (\<lambda>(addr, d, datasize, c, i, SBATBase, SBATSize). NumberOfSections c - i)") auto

declare find_sbat.simps [simp del]

definition verify_buffer_sbat ::
    "sbat_vars \<Rightarrow> bool \<Rightarrow> nat \<Rightarrow> buf \<Rightarrow> nat \<Rightarrow> pe_context \<Rightarrow> vstate \<Rightarrow> (efi_status \<times> vstate) option" where
  "verify_buffer_sbat sbat in_proto addr d datasize c s = do {
     r \<leftarrow> find_sbat addr d datasize c 0 None 0;
     case r of
       Inl st \<Rightarrow> Some (st, s)
     | Inr (SBATBase, SBATSize) \<Rightarrow> do {
         (st, p) \<leftarrow> verify_sbat_section sbat in_proto d SBATBase SBATSize (vpool s);
         Some (st, s\<lparr>vpool := p\<rparr>)
       }
   }"

text \<open>The image and what the verification depends on besides it: the firmware's state, the
  configuration, the revocation list in \<^verbatim>\<open>sbat_var\<close>.\<close>

definition verify_buffer ::
    "'w efi_rt \<Rightarrow> 'w \<Rightarrow> vconfig \<Rightarrow> ('h, 'g) digests \<Rightarrow> sbat_vars \<Rightarrow> bool \<Rightarrow> nat \<Rightarrow> buf \<Rightarrow> nat \<Rightarrow> pe_context \<Rightarrow> bool
      \<Rightarrow> vstate \<Rightarrow> (efi_status \<times> pe_context \<times> vstate) option" where
  "verify_buffer rt w v cr sbat in_proto addr d datasize c parent_verified s = do {
     (st, c1, s1) \<leftarrow> verify_buffer_authenticode rt w v cr d datasize c parent_verified s;
     if EFI_ERROR st then Some (st, c1, s1)
     else do {
       (st, s2) \<leftarrow> verify_buffer_sbat sbat in_proto addr d datasize c1 s1;
       Some (st, c1, s2)
     }
   }"

section \<open>The protocol\<close>

text \<open>\<^verbatim>\<open>in_protocol\<close> is 1 during the calls and 0 afterwards. \<^verbatim>\<open>tpm_log_pe\<close> is called with a load address
  of 0.\<close>

definition shim_verify ::
    "'w efi_rt \<Rightarrow> 'w \<Rightarrow> nat \<Rightarrow> pe_env \<Rightarrow> vconfig \<Rightarrow> ('h, 'g) digests \<Rightarrow> sbat_vars \<Rightarrow> nat \<Rightarrow> buf \<Rightarrow> nat \<Rightarrow> vstate
      \<Rightarrow> (efi_status \<times> vstate) option" where
  "shim_verify rt w insecure e v cr sbat addr buffer size' s =
     (if size' \<ge> 2 ^ 31 then Some (EFI_INVALID_PARAMETER, s)
      else do {
        hdr \<leftarrow> read_header (e\<lparr>in_protocol := True\<rparr>) buffer size' True;
        case hdr of
          Inl st \<Rightarrow> Some (st, s)
        | Inr c \<Rightarrow> do {
            (h, p) \<leftarrow> generate_hash cr (vpool s) buffer size' c;
            case h of
              Inl st \<Rightarrow> Some (st, s\<lparr>vpool := p\<rparr>)
            | Inr (c', sha256hash, sha1hash) \<Rightarrow>
                let s1 = log_event (LogPe (take size' buffer) 0 sha1hash) (s\<lparr>vpool := p\<rparr>) in
                if \<not> secure_mode rt insecure w then Some (EFI_SUCCESS, s1)
                else do {
                  (st, _, s2) \<leftarrow> verify_buffer rt w v cr sbat True addr buffer size' c' False s1;
                  Some (st, s2)
                }
          }
      })"

definition shim_hash ::
    "('h, 'g) digests \<Rightarrow> pool \<Rightarrow> buf \<Rightarrow> nat \<Rightarrow> pe_context
      \<Rightarrow> ((efi_status + pe_context \<times> buf \<times> buf) \<times> pool) option" where
  "shim_hash cr p d datasize c =
     (if datasize \<ge> 2 ^ 31 then Some (Inl EFI_INVALID_PARAMETER, p) else generate_hash cr p d datasize c)"

definition shim_read_header :: "pe_env \<Rightarrow> buf \<Rightarrow> nat \<Rightarrow> (efi_status + pe_context) option" where
  "shim_read_header e d datasize = read_header (e\<lparr>in_protocol := True\<rparr>) d datasize True"

section \<open>What the searches find\<close>

text \<open>On well-formed lists the search gives the first result, in the order of the lists.\<close>

fun first_some :: "('a \<Rightarrow> 'b option) \<Rightarrow> 'a list \<Rightarrow> 'b option" where
  "first_some f [] = None"
| "first_some f (x # xs) = (case f x of None \<Rightarrow> first_some f xs | Some y \<Rightarrow> Some y)"

lemma first_some_iff: "first_some f xs \<noteq> None \<longleftrightarrow> list_ex (\<lambda>x. f x \<noteq> None) xs"
  by (induction xs) (auto split: option.splits)

lemma search_lists_encode:
  assumes "list_all esl_wf ls" and "length x = cl"
    and "\<And>x l z. l \<in> set ls \<Longrightarrow> b = x @ esl_encode l @ z \<Longrightarrow> probe (length x) (esl_listsize l) = Some (f l)"
    and "b = x @ esls_encode ls @ z"
  shows "search_lists b probe cl (length (esls_encode ls)) = Some (first_some f ls)"
  using assms
proof (induction ls arbitrary: x cl)
  case Nil
  then show ?case by (subst search_lists.simps) (simp add: esls_encode_def)
next
  case (Cons l ls)
  have wf: "esl_wf l" and x: "length x = cl" using Cons.prems by auto
  have b: "b = x @ esl_encode l @ (esls_encode ls @ z)" "b = (x @ esl_encode l) @ esls_encode ls @ z"
    using Cons.prems(4) by (simp_all add: esls_encode_def)
  have ls: "esl_ListSize b cl = Some (esl_listsize l)" unfolding b(1) using wf x by (rule esl_fields(2))
  have len: "length (esls_encode (l # ls)) = esl_listsize l + length (esls_encode ls)"
    using wf by (simp add: esls_encode_def length_esl_encode)
  have pos: "0 < esl_listsize l" by (simp add: esl_listsize_def)
  have IH: "search_lists b probe (cl + esl_listsize l) (length (esls_encode ls)) = Some (first_some f ls)"
  proof (rule Cons.IH [OF _ _ _ b(2)])
    show "list_all esl_wf ls" using Cons.prems(1) by simp
    show "length (x @ esl_encode l) = cl + esl_listsize l" using wf x by (simp add: length_esl_encode)
    show "probe (length y) (esl_listsize k) = Some (f k)" if "k \<in> set ls" "b = y @ esl_encode k @ z'" for y k z'
      using Cons.prems(3) [OF _ that(2)] that(1) by simp
  qed
  have "probe cl (esl_listsize l) = Some (f l)" using Cons.prems(3) [OF _ b(1)] x by simp
  then show ?case
    using IH pos by (subst search_lists.simps) (auto simp: ls len split: option.splits)
qed

text \<open>A list that a search for hashes of type \<open>T\<close> and length \<open>n\<close> reads correctly.\<close>

definition hash_list_ok :: "efi_guid \<Rightarrow> nat \<Rightarrow> esl \<Rightarrow> bool" where
  "hash_list_ok T n l \<longleftrightarrow> esl_wf l \<and> (esl_type l = T \<longrightarrow> esl_sigsize l = n + 16)"

definition list_hash :: "efi_guid \<Rightarrow> buf \<Rightarrow> esl \<Rightarrow> buf option" where
  "list_hash T hash l =
     (if esl_type l = T then map_option sig_bytes (find (\<lambda>sig. snd sig = hash) (esl_sigs l)) else None)"

lemma find_hash_encode:
  assumes wf: "esl_wf l" and x: "length x = cl" and n: "esl_sigsize l = length hash + 16"
    and "k \<le> length (esl_sigs l)" and b: "b = x @ esl_encode l @ z"
  shows "\<exists>r. find_hash b hash (cl + 28 + length (esl_header l) + k * esl_sigsize l) (esl_sigsize l)
      (length (esl_sigs l) - k) = Some r \<and>
    (case r of None \<Rightarrow> find (\<lambda>sig. snd sig = hash) (drop k (esl_sigs l)) = None
     | Some cert \<Rightarrow> \<exists>sig. find (\<lambda>sig. snd sig = hash) (drop k (esl_sigs l)) = Some sig \<and>
         rdn b cert (esl_sigsize l) = Some (sig_bytes sig))"
  using assms(4)
proof (induction "length (esl_sigs l) - k" arbitrary: k)
  case 0
  then show ?case by (subst find_hash.simps) simp
next
  case (Suc m)
  then have k: "k < length (esl_sigs l)" by simp
  let ?at = "cl + 28 + length (esl_header l) + k * esl_sigsize l"
  note rd = esl_sig_data [OF wf x k refl, of z, folded b, unfolded n add_diff_cancel_right']
  have dr: "drop k (esl_sigs l) = esl_sigs l ! k # drop (Suc k) (esl_sigs l)"
    using k by (simp add: Cons_nth_drop_Suc)
  have nxt: "?at + esl_sigsize l = cl + 28 + length (esl_header l) + Suc k * esl_sigsize l" by simp
  show ?case
  proof (cases "snd (esl_sigs l ! k) = hash")
    case True
    then show ?thesis
      using rd k dr by (subst find_hash.simps) (simp add: n)
  next
    case False
    then have "find_hash b hash ?at (esl_sigsize l) (length (esl_sigs l) - k) =
        find_hash b hash (cl + 28 + length (esl_header l) + Suc k * esl_sigsize l) (esl_sigsize l)
          (length (esl_sigs l) - Suc k)"
      using rd(1) k by (subst find_hash.simps) (simp add: n ac_simps)
    moreover have "find (\<lambda>sig. snd sig = hash) (drop k (esl_sigs l)) =
        find (\<lambda>sig. snd sig = hash) (drop (Suc k) (esl_sigs l))"
      unfolding dr using False by simp
    moreover have "m = length (esl_sigs l) - Suc k" using Suc.hyps(2) by simp
    ultimately show ?thesis using Suc.hyps(1) [of "Suc k"] k by (simp only: Suc_leI)
  qed
qed

lemma try_list_hash_encode:
  assumes ok: "hash_list_ok T (length hash) l" and b: "b = x @ esl_encode l @ z"
  shows "try_list_hash b (length x) (esl_listsize l) hash T = Some (list_hash T hash l)"
proof -
  have wf: "esl_wf l" using ok by (simp add: hash_list_ok_def)
  note f = esl_fields [OF wf refl, of x z, folded b]
  have ssz: "0 < esl_sigsize l" and lt: "esl_listsize l < 2 ^ 32" using wf by (auto simp: esl_wf_def)
  have T: "guid_bytes (esl_type l) = guid_bytes T \<longleftrightarrow> esl_type l = T" using guid_bytes_inj by blast
  have n: "sub64 (sub64 (esl_listsize l) 28) (length (esl_header l)) div esl_sigsize l = length (esl_sigs l)"
    using lt ssz by (simp add: sub64_le esl_listsize_def)
  show ?thesis
  proof (cases "esl_type l = T")
    case False
    then show ?thesis using f ssz T by (simp add: try_list_hash_def list_hash_def)
  next
    case True
    then have sz: "esl_sigsize l = length hash + 16" using ok by (simp add: hash_list_ok_def)
    obtain r where "find_hash b hash (length x + 28 + length (esl_header l)) (esl_sigsize l)
        (length (esl_sigs l)) = Some r"
      "case r of None \<Rightarrow> find (\<lambda>sig. snd sig = hash) (esl_sigs l) = None
       | Some cert \<Rightarrow> \<exists>sig. find (\<lambda>sig. snd sig = hash) (esl_sigs l) = Some sig \<and>
         rdn b cert (esl_sigsize l) = Some (sig_bytes sig)"
      using find_hash_encode [OF wf refl sz _ b, of 0] unfolding drop_0 by auto
    then show ?thesis
      using f ssz True n by (auto simp: try_list_hash_def list_hash_def split: option.splits)
  qed
qed

lemma check_db_hash_in_ram_encode:
  assumes "list_all (hash_list_ok T (length hash)) ls"
  shows "check_db_hash_in_ram (esls_encode ls @ z) (length (esls_encode ls)) hash T dbname guid s =
    Some (check_result dbname guid (first_some (list_hash T hash) ls) s)"
proof -
  have "search_lists (esls_encode ls @ z)
      (\<lambda>cl lsz. try_list_hash (esls_encode ls @ z) cl lsz hash T) 0 (length (esls_encode ls)) =
      Some (first_some (list_hash T hash) ls)"
    using assms by (intro search_lists_encode [of _ "[]" 0]) (auto simp: list_all_iff hash_list_ok_def
        intro!: try_list_hash_encode)
  then show ?thesis by (simp add: check_db_hash_in_ram_def)
qed

text \<open>Whether lists hold a hash.\<close>

definition has_hash :: "efi_guid \<Rightarrow> buf \<Rightarrow> esl list \<Rightarrow> bool" where
  "has_hash T hash ls \<longleftrightarrow>
     list_ex (\<lambda>l. esl_type l = T \<and> list_ex (\<lambda>sig. snd sig = hash) (esl_sigs l)) ls"

lemma first_some_list_hash: "first_some (list_hash T hash) ls \<noteq> None \<longleftrightarrow> has_hash T hash ls"
proof -
  have "list_hash T hash l \<noteq> None \<longleftrightarrow> esl_type l = T \<and> list_ex (\<lambda>sig. snd sig = hash) (esl_sigs l)" for l
    using find_None_iff [of "\<lambda>sig. snd sig = hash" "esl_sigs l"]
    by (auto simp add: list_hash_def list_ex_iff Bex_def simp del: not_None_eq)
  then show ?thesis unfolding first_some_iff has_hash_def by simp
qed

text \<open>The same for certificates: the first signature of a list decides.\<close>

definition x509_shape :: "buf \<Rightarrow> bool" where
  "x509_shape c \<longleftrightarrow> 4 \<le> length c \<and> c ! 0 = 0x30 \<and> c ! 1 = 0x82 \<and>
     unat (c ! 2) * 256 + unat (c ! 3) = length c - 4"

definition cert_list_ok :: "esl \<Rightarrow> bool" where
  "cert_list_ok l \<longleftrightarrow> esl_wf l \<and> (esl_type l = EFI_CERT_TYPE_X509_GUID \<longrightarrow> esl_sigs l \<noteq> [])"

definition cert_verifies :: "vconfig \<Rightarrow> buf \<Rightarrow> buf \<Rightarrow> buf \<Rightarrow> bool" where
  "cert_verifies v sig hash cert \<longleftrightarrow> x509_shape cert \<and> verify_eku v cert \<and> AuthenticodeVerify v sig cert hash"

definition list_cert :: "vconfig \<Rightarrow> buf \<Rightarrow> buf \<Rightarrow> esl \<Rightarrow> buf option" where
  "list_cert v sig hash l =
     (if esl_type l = EFI_CERT_TYPE_X509_GUID \<and> esl_sigs l \<noteq> [] \<and>
         cert_verifies v sig hash (snd (hd (esl_sigs l)))
      then Some (sig_bytes (hd (esl_sigs l))) else None)"

definition has_cert :: "vconfig \<Rightarrow> buf \<Rightarrow> buf \<Rightarrow> esl list \<Rightarrow> bool" where
  "has_cert v sig hash ls \<longleftrightarrow> list_ex (\<lambda>l. list_cert v sig hash l \<noteq> None) ls"

lemma verify_x509_shape:
  assumes "rdn b at n = Some c"
  shows "verify_x509 b at n = Some (x509_shape c)"
proof -
  have c: "length c = n" "at + n \<le> length b" "c = take n (drop at b)"
    using assms by (auto simp: rdn_Some_iff)
  have "rd b (at + i) = Some (c ! i)" if "i < n" for i
    using that c by (auto simp: mem_simps)
  from this [of 0] this [of 1] this [of 2] this [of 3] show ?thesis
    using c(1) by (auto simp: verify_x509_def x509_shape_def)
qed

lemma try_list_cert_encode:
  assumes ok: "cert_list_ok l" and b: "b = x @ esl_encode l @ z"
  shows "try_list_cert v b (length x) sig hash = Some (list_cert v sig hash l)"
proof -
  have wf: "esl_wf l" using ok by (simp add: cert_list_ok_def)
  note f = esl_fields [OF wf refl, of x z, folded b]
  have T: "guid_bytes (esl_type l) = guid_bytes EFI_CERT_TYPE_X509_GUID \<longleftrightarrow>
      esl_type l = EFI_CERT_TYPE_X509_GUID"
    by (auto dest: guid_bytes_inj)
  show ?thesis
  proof (cases "esl_type l = EFI_CERT_TYPE_X509_GUID")
    case False
    then show ?thesis using f T by (simp add: try_list_cert_def list_cert_def)
  next
    case True
    then have ne: "esl_sigs l \<noteq> []" using ok by (simp add: cert_list_ok_def)
    have sz: "sub64 (esl_sigsize l) 16 = esl_sigsize l - 16"
      using wf by (simp add: esl_wf_def sub64_le)
    note rd = esl_sig_data [OF wf refl _ refl, of 0 x z, folded b]
    have "verify_x509 b (length x + 28 + length (esl_header l) + 16) (esl_sigsize l - 16) =
        Some (x509_shape (snd (hd (esl_sigs l))))"
      using rd(1) ne by (intro verify_x509_shape) (simp add: hd_conv_nth)
    then show ?thesis
      using f rd ne True by (auto simp: try_list_cert_def list_cert_def cert_verifies_def sz hd_conv_nth Let_def)
  qed
qed

lemma check_db_cert_in_ram_encode:
  assumes "list_all cert_list_ok ls"
  shows "check_db_cert_in_ram v (esls_encode ls @ z) (length (esls_encode ls)) sig hash dbname guid s =
    Some (check_result dbname guid (first_some (list_cert v sig hash) ls) s)"
proof -
  have "search_lists (esls_encode ls @ z)
      (\<lambda>cl lsz. try_list_cert v (esls_encode ls @ z) cl sig hash) 0 (length (esls_encode ls)) =
      Some (first_some (list_cert v sig hash) ls)"
    using assms by (intro search_lists_encode [of _ "[]" 0]) (auto simp: list_all_iff cert_list_ok_def
        intro!: try_list_cert_encode)
  then show ?thesis by (simp add: check_db_cert_in_ram_def)
qed

text \<open>A check that gives a verdict, and a sequence of checks that ends with a status; allocations keep
  succeeding.\<close>

definition gives :: "(vstate \<Rightarrow> (check_status \<times> vstate) option) \<Rightarrow> bool \<Rightarrow> vstate \<Rightarrow> bool" where
  "gives check found s \<longleftrightarrow>
     (\<exists>r s1. check s = Some (r, s1) \<and> (r = DATA_FOUND \<longleftrightarrow> found) \<and> pool_ok (vpool s1))"

definition ends :: "(vstate \<Rightarrow> (efi_status \<times> vstate) option) \<Rightarrow> efi_status \<Rightarrow> vstate \<Rightarrow> bool" where
  "ends m st s \<longleftrightarrow> (\<exists>s1. m s = Some (st, s1) \<and> pool_ok (vpool s1))"

lemma ends_on_found:
  assumes "gives check B s" and "\<And>s. \<not> B \<Longrightarrow> pool_ok (vpool s) \<Longrightarrow> ends next' X s"
    and "\<And>s. fst (found s) = Y" and "\<And>s. vpool (snd (found s)) = vpool s"
  shows "ends (on_found check found next') (if B then Y else X) s"
proof -
  obtain r s1 where r: "check s = Some (r, s1)" "r = DATA_FOUND \<longleftrightarrow> B" "pool_ok (vpool s1)"
    using assms(1) by (auto simp: gives_def)
  show ?thesis
  proof (cases B)
    case True
    then show ?thesis
      using r assms(3) [of s1] assms(4) [of s1]
      by (auto simp: ends_def on_found_def intro!: exI [of _ "snd (found s1)"] prod_eqI)
  next
    case False
    then show ?thesis
      using r assms(2) [OF False r(3)] by (auto simp: ends_def on_found_def)
  qed
qed

lemma ends_if:
  "(B \<Longrightarrow> ends m X s) \<Longrightarrow> (\<not> B \<Longrightarrow> ends m' Y s) \<Longrightarrow> ends (if B then m else m') (if B then X else Y) s"
  by simp

lemma gives_if_cert:
  assumes "\<And>sig. cert = Some sig \<Longrightarrow> gives (check sig) (B sig) s" and "pool_ok (vpool s)"
  shows "gives (if_cert cert check) (case cert of None \<Rightarrow> False | Some sig \<Rightarrow> B sig) s"
  using assms by (cases cert) (auto simp: gives_def if_cert_def)

lemma vpool_log_event [simp]: "vpool (log_event e s) = vpool s"
  by (simp add: log_event_def)

lemma vpool_method [simp]:
  "vpool (update_verification_method m s) = vpool s" "vpool (set_method m s) = vpool s"
  by (simp_all add: update_verification_method_def set_method_def)

lemma gives_hash_in_ram:
  assumes "list_all (hash_list_ok T (length hash)) ls" and "pool_ok (vpool s)"
  shows "gives (check_db_hash_in_ram (esls_encode ls @ z) (length (esls_encode ls)) hash T dbname guid)
    (has_hash T hash ls) s"
  using check_db_hash_in_ram_encode [OF assms(1), of z dbname guid s] first_some_list_hash [of T hash ls] assms(2)
  by (auto simp: gives_def check_result_def split: option.splits)

lemma gives_cert_in_ram:
  assumes "list_all cert_list_ok ls" and "pool_ok (vpool s)"
  shows "gives (check_db_cert_in_ram v (esls_encode ls @ z) (length (esls_encode ls)) sig hash dbname guid)
    (has_cert v sig hash ls) s"
  using check_db_cert_in_ram_encode [OF assms(1), of v z sig hash dbname guid s]
    first_some_iff [of "list_cert v sig hash" ls] assms(2)
  by (auto simp: gives_def check_result_def has_cert_def split: option.splits)

text \<open>A variable that is missing or holds signature lists.\<close>

definition db_lists :: "var_map \<Rightarrow> ucs2 \<Rightarrow> efi_guid \<Rightarrow> esl list \<Rightarrow> bool" where
  "db_lists m n g ls \<longleftrightarrow>
     (case m (n, g) of None \<Rightarrow> ls = [] | Some (a, d) \<Rightarrow> d = esls_encode ls)"

context variable_services
begin

lemma gives_hash:
  assumes "inv w" and "db_lists (vars w) n g ls" and "list_all (hash_list_ok T (length hash)) ls"
    and "pool_ok (vpool s)"
  shows "gives (check_db_hash rt w n g hash T) (has_hash T hash ls) s"
proof (cases "vars w (n, g)")
  case None
  then show ?thesis
    using assms get_variable_none [OF assms(1) None]
    by (simp add: gives_def check_db_hash_def db_lists_def has_hash_def status_simps)
next
  case (Some v)
  then obtain a where "vars w (n, g) = Some (a, esls_encode ls)"
    using assms(2) by (cases v) (auto simp: db_lists_def)
  from get_variable_some [OF assms(1) this assms(4)] show ?thesis
    using gives_hash_in_ram [OF assms(3), of "s\<lparr>vpool := \<lambda>k. vpool s (Suc k)\<rparr>" "[0, 0, 0]" n g]
      pool_ok_Suc [OF assms(4)]
    by (simp add: gives_def check_db_hash_def status_simps)
qed

lemma gives_cert:
  assumes "inv w" and "db_lists (vars w) n g ls" and "list_all cert_list_ok ls" and "pool_ok (vpool s)"
  shows "gives (check_db_cert rt w v n g sig hash) (has_cert v sig hash ls) s"
proof (cases "vars w (n, g)")
  case None
  then show ?thesis
    using assms get_variable_none [OF assms(1) None]
    by (simp add: gives_def check_db_cert_def db_lists_def has_cert_def status_simps)
next
  case (Some u)
  then obtain a where "vars w (n, g) = Some (a, esls_encode ls)"
    using assms(2) by (cases u) (auto simp: db_lists_def)
  from get_variable_some [OF assms(1) this assms(4)] show ?thesis
    using gives_cert_in_ram [OF assms(3), of "s\<lparr>vpool := \<lambda>k. vpool s (Suc k)\<rparr>" v "[0, 0, 0]"]
      pool_ok_Suc [OF assms(4)]
    by (simp add: gives_def check_db_cert_def status_simps)
qed

end

section \<open>The verdict of the lists\<close>

text \<open>The lists of a system: what the build and the variables hold, decoded.\<close>

record db_view =
  dv_vendor_dbx :: "esl list"
  dv_dbx :: "esl list"
  dv_mokx :: "esl list"
  dv_db :: "esl list"
  dv_vendor_db :: "esl list option"
  dv_mok :: "esl list"

text \<open>Lists that are well-formed and whose hashes have the size of the digest.\<close>

definition lists_ok :: "esl list \<Rightarrow> bool" where
  "lists_ok ls \<longleftrightarrow> list_all cert_list_ok ls \<and>
     list_all (hash_list_ok EFI_CERT_SHA256_GUID SHA256_DIGEST_SIZE) ls \<and>
     list_all (hash_list_ok EFI_CERT_SHA1_GUID SHA1_DIGEST_SIZE) ls"

definition view_ok :: "vconfig \<Rightarrow> var_map \<Rightarrow> db_view \<Rightarrow> bool" where
  "view_ok v m dv \<longleftrightarrow>
     vendor_deauthorized v = esls_encode (dv_vendor_dbx dv) \<and>
     vendor_db v = map_option esls_encode (dv_vendor_db dv) \<and>
     db_lists m (wlit ''dbx'') EFI_SECURE_BOOT_DB_GUID (dv_dbx dv) \<and>
     db_lists m (wlit ''MokListX'') SHIM_LOCK_GUID (dv_mokx dv) \<and>
     db_lists m (wlit ''db'') EFI_SECURE_BOOT_DB_GUID (dv_db dv) \<and>
     db_lists m (wlit ''MokListRT'') SHIM_LOCK_GUID (dv_mok dv) \<and>
     lists_ok (dv_vendor_dbx dv) \<and> lists_ok (dv_dbx dv) \<and> lists_ok (dv_mokx dv) \<and> lists_ok (dv_db dv) \<and>
     lists_ok (case_option [] id (dv_vendor_db dv)) \<and> lists_ok (dv_mok dv)"

text \<open>What the lists say of an image with given digests, and of a signature of it.\<close>

definition hash_denied :: "db_view \<Rightarrow> buf \<Rightarrow> buf \<Rightarrow> bool" where
  "hash_denied dv sha256hash sha1hash \<longleftrightarrow>
     has_hash EFI_CERT_SHA256_GUID sha256hash (dv_vendor_dbx dv) \<or>
     has_hash EFI_CERT_SHA1_GUID sha1hash (dv_vendor_dbx dv) \<or>
     has_hash EFI_CERT_SHA256_GUID sha256hash (dv_dbx dv) \<or>
     has_hash EFI_CERT_SHA1_GUID sha1hash (dv_dbx dv) \<or>
     has_hash EFI_CERT_SHA256_GUID sha256hash (dv_mokx dv)"

definition sig_denied :: "vconfig \<Rightarrow> db_view \<Rightarrow> buf \<Rightarrow> buf \<Rightarrow> bool" where
  "sig_denied v dv sha256hash sig \<longleftrightarrow>
     has_cert v sig sha256hash (dv_vendor_dbx dv) \<or> has_cert v sig sha256hash (dv_dbx dv) \<or>
     has_cert v sig sha256hash (dv_mokx dv)"

definition hash_allowed :: "vconfig \<Rightarrow> db_view \<Rightarrow> buf \<Rightarrow> buf \<Rightarrow> bool" where
  "hash_allowed v dv sha256hash sha1hash \<longleftrightarrow>
     \<not> ignore_db v \<and> (has_hash EFI_CERT_SHA256_GUID sha256hash (dv_db dv) \<or>
       has_hash EFI_CERT_SHA1_GUID sha1hash (dv_db dv)) \<or>
     has_hash EFI_CERT_SHA256_GUID sha256hash (case_option [] id (dv_vendor_db dv)) \<or>
     has_hash EFI_CERT_SHA256_GUID sha256hash (dv_mok dv)"

definition sig_listed :: "vconfig \<Rightarrow> db_view \<Rightarrow> buf \<Rightarrow> buf \<Rightarrow> bool" where
  "sig_listed v dv sha256hash sig \<longleftrightarrow>
     \<not> ignore_db v \<and> has_cert v sig sha256hash (dv_db dv) \<or>
     has_cert v sig sha256hash (case_option [] id (dv_vendor_db dv)) \<or>
     has_cert v sig sha256hash (dv_mok dv)"

lemmas gives_hash_buffer = gives_hash_in_ram [where z = "[]", simplified]
lemmas gives_cert_buffer = gives_cert_in_ram [where z = "[]", simplified]

lemma lists_okD:
  assumes "lists_ok ls"
  shows "list_all cert_list_ok ls"
    and "list_all (hash_list_ok EFI_CERT_SHA256_GUID SHA256_DIGEST_SIZE) ls"
    and "list_all (hash_list_ok EFI_CERT_SHA1_GUID SHA1_DIGEST_SIZE) ls"
    and "length h = SHA256_DIGEST_SIZE \<Longrightarrow> list_all (hash_list_ok EFI_CERT_SHA256_GUID (length h)) ls"
    and "length h = SHA1_DIGEST_SIZE \<Longrightarrow> list_all (hash_list_ok EFI_CERT_SHA1_GUID (length h)) ls"
  using assms by (simp_all add: lists_ok_def)

context variable_services
begin

lemma check_denylist_ends:
  assumes "inv w" and ok: "view_ok v (vars w) dv" and "length h256 = SHA256_DIGEST_SIZE"
    and "length h1 = SHA1_DIGEST_SIZE" and "pool_ok (vpool s)"
  shows "ends (check_denylist rt w v cert h256 h1)
    (if hash_denied dv h256 h1 \<or> case_option False (sig_denied v dv h256) cert
     then EFI_SECURITY_VIOLATION else EFI_SUCCESS) s"
proof -
  note view = ok [unfolded view_ok_def]
  let ?c = "\<lambda>ls. case_option False (\<lambda>sig. has_cert v sig h256 ls) cert"
  have "ends (check_denylist rt w v cert h256 h1)
    (if has_hash EFI_CERT_SHA256_GUID h256 (dv_vendor_dbx dv) then EFI_SECURITY_VIOLATION
     else if has_hash EFI_CERT_SHA1_GUID h1 (dv_vendor_dbx dv) then EFI_SECURITY_VIOLATION
     else if ?c (dv_vendor_dbx dv) then EFI_SECURITY_VIOLATION
     else if has_hash EFI_CERT_SHA256_GUID h256 (dv_dbx dv) then EFI_SECURITY_VIOLATION
     else if has_hash EFI_CERT_SHA1_GUID h1 (dv_dbx dv) then EFI_SECURITY_VIOLATION
     else if ?c (dv_dbx dv) then EFI_SECURITY_VIOLATION
     else if has_hash EFI_CERT_SHA256_GUID h256 (dv_mokx dv) then EFI_SECURITY_VIOLATION
     else if ?c (dv_mokx dv) then EFI_SECURITY_VIOLATION else EFI_SUCCESS) s"
    unfolding check_denylist_def Let_def
    using view assms(1,3,4,5)
    by (intro ends_on_found gives_if_cert gives_hash gives_cert)
      (auto simp: ends_def intro: gives_hash_buffer gives_cert_buffer lists_okD)
  then show ?thesis by (cases cert) (auto simp: hash_denied_def sig_denied_def split: if_splits)
qed

lemma check_allowlist_ends:
  assumes "inv w" and ok: "view_ok v (vars w) dv" and "length h256 = SHA256_DIGEST_SIZE"
    and "length h1 = SHA1_DIGEST_SIZE" and "pool_ok (vpool s)"
  shows "ends (check_allowlist rt w v cert h256 h1)
    (if hash_allowed v dv h256 h1 \<or> case_option False (sig_listed v dv h256) cert
     then EFI_SUCCESS else EFI_NOT_FOUND) s"
proof -
  note view = ok [unfolded view_ok_def]
  let ?c = "\<lambda>ls. case_option False (\<lambda>sig. has_cert v sig h256 ls) cert"
  let ?h = "has_hash EFI_CERT_SHA256_GUID h256"
  let ?mok = "if ?h (dv_mok dv) then EFI_SUCCESS else if ?c (dv_mok dv) then EFI_SUCCESS else EFI_NOT_FOUND"
  define vdb where "vdb = case_option [] id (dv_vendor_db dv)"
  let ?vendor = "if ?h vdb then EFI_SUCCESS else if ?c vdb then EFI_SUCCESS else ?mok"
  let ?db = "if ?h (dv_db dv) then EFI_SUCCESS
    else if has_hash EFI_CERT_SHA1_GUID h1 (dv_db dv) then EFI_SUCCESS
    else if ?c (dv_db dv) then EFI_SUCCESS else ?vendor"
  have "ends (check_allowlist rt w v cert h256 h1) (if ignore_db v then ?vendor else ?db) s"
  proof (cases "dv_vendor_db dv")
    case None
    then have v: "vendor_db v = None" "?vendor = ?mok"
      using view by (auto simp: vdb_def has_hash_def has_cert_def split: option.splits)
    show ?thesis
      unfolding check_allowlist_def Let_def v option.case
      using view assms(1,3,4,5)
      by (intro ends_if ends_on_found gives_if_cert gives_hash gives_cert)
        (auto simp: ends_def intro: lists_okD)
  next
    case (Some ls)
    then have v: "vendor_db v = Some (esls_encode vdb)" "lists_ok vdb" using view by (auto simp: vdb_def)
    show ?thesis
      unfolding check_allowlist_def Let_def v(1) option.case
      using view v(2) assms(1,3,4,5)
      by (intro ends_if ends_on_found gives_if_cert gives_hash gives_cert gives_hash_buffer gives_cert_buffer)
        (auto simp: ends_def intro: lists_okD)
  qed
  then show ?thesis by (cases cert) (auto simp: hash_allowed_def sig_listed_def vdb_def split: if_splits)
qed

end

section \<open>The certificate table\<close>

text \<open>A table as data: the revision and the type of each entry, and its contents. An entry is padded to a
  multiple of eight bytes.\<close>

record win_cert =
  wc_revision :: nat
  wc_type :: nat
  wc_data :: buf

definition pad8 :: "nat \<Rightarrow> nat" where
  "pad8 n = (8 - n mod 8) mod 8"

definition win_cert_bytes :: "win_cert \<Rightarrow> buf" where
  "win_cert_bytes e =
     le_bytes 4 (8 + length (wc_data e)) @ le_bytes 2 (wc_revision e) @ le_bytes 2 (wc_type e) @ wc_data e @
     replicate (pad8 (length (wc_data e))) 0"

definition win_cert_ok :: "win_cert \<Rightarrow> bool" where
  "win_cert_ok e \<longleftrightarrow> wc_data e \<noteq> [] \<and> length (wc_data e) < 2 ^ 31 \<and> wc_type e < 2 ^ 16"

definition table_bytes :: "win_cert list \<Rightarrow> buf" where
  "table_bytes es = concat (map win_cert_bytes es)"

definition signatures :: "win_cert list \<Rightarrow> buf list" where
  "signatures es = map wc_data (filter (\<lambda>e. wc_type e = WIN_CERT_TYPE_PKCS_SIGNED_DATA) es)"

lemma length_win_cert: "length (win_cert_bytes e) = 8 + length (wc_data e) + pad8 (length (wc_data e))"
  by (simp add: win_cert_bytes_def)

lemma pad8_dvd: "8 dvd n + pad8 n"
proof -
  define r where "r = n mod 8"
  have "r < 8" "n = 8 * (n div 8) + r" by (simp_all add: r_def)
  then have "n + (8 - r) mod 8 = 8 * (n div 8) + (if r = 0 then 0 else 8)" by auto
  then show ?thesis by (simp add: pad8_def r_def)
qed

lemma ALIGN_VALUE_pad8:
  assumes "n < 2 ^ 63"
  shows "ALIGN_VALUE n 8 = n + pad8 n"
proof -
  define q r where "q = n div 8" and "r = n mod 8"
  have n: "n = 8 * q + r" "r < 8" by (simp_all add: q_def r_def)
  have m: "x mod 2 ^ 64 mod 8 = x mod (8 :: nat)" for x by (rule mod_mod_cancel) simp
  have "8 + 2 ^ 64 - n = 8 * (2 ^ 61 - q) + (8 - r)" using n assms by simp
  then have "sub64 8 n mod 8 = (8 - r) mod 8" by (simp only: sub64_def m mod_mult_self4)
  moreover have "sub64 8 1 = 7" by (simp add: sub64_def)
  moreover have "pad8 n < 8" by (simp add: pad8_def)
  ultimately show ?thesis
    using assms by (simp add: ALIGN_VALUE_def and_7 add64_def pad8_def r_def)
qed

lemma pad8_add: "8 dvd m \<Longrightarrow> pad8 (m + n) = pad8 n"
  by (auto simp: pad8_def)

text \<open>The reads at an entry of the table.\<close>

lemma win_cert_reads:
  assumes ok: "win_cert_ok e" and i: "length x = i"
  shows "rd32 (x @ win_cert_bytes e @ z) i = Some (8 + length (wc_data e))"
    and "rd16 (x @ win_cert_bytes e @ z) (i + 6) = Some (wc_type e)"
    and "rdn (x @ win_cert_bytes e @ z) (i + 8) (length (wc_data e)) = Some (wc_data e)"
proof -
  let ?n = "le_bytes 4 (8 + length (wc_data e))" and ?r = "le_bytes 2 (wc_revision e)"
    and ?t = "le_bytes 2 (wc_type e)" and ?p = "replicate (pad8 (length (wc_data e))) 0 @ z"
  show "rd32 (x @ win_cert_bytes e @ z) i = Some (8 + length (wc_data e))"
    using rd32_append [of x i "8 + length (wc_data e)" "?r @ ?t @ wc_data e @ ?p"] ok i
    by (simp add: win_cert_bytes_def win_cert_ok_def)
  show "rd16 (x @ win_cert_bytes e @ z) (i + 6) = Some (wc_type e)"
    using rd_le_append [of "x @ ?n @ ?r" "i + 6" ?t 2 "wc_data e @ ?p"] ok i
    by (simp add: win_cert_bytes_def win_cert_ok_def rd16_def le_val_le_bytes)
  show "rdn (x @ win_cert_bytes e @ z) (i + 8) (length (wc_data e)) = Some (wc_data e)"
    using rdn_append [of "x @ ?n @ ?r @ ?t" "i + 8" "wc_data e" _ ?p] i by (simp add: win_cert_bytes_def)
qed

text \<open>One step of the loop.\<close>

lemma verify_signatures_step:
  assumes ok: "win_cert_ok e" and d: "d = x @ win_cert_bytes e @ z" and x: "length x = va + offset"
    and dir: "Dir_VirtualAddress d secdir = Some va" "Dir_Size d secdir = Some secsize"
    and off: "8 dvd offset" "offset + length (win_cert_bytes e) \<le> secsize"
  shows "verify_signatures rt w v d (length d) secdir h256 h1 offset ret s =
    (if wc_type e = WIN_CERT_TYPE_PKCS_SIGNED_DATA then do {
       (st, s1) \<leftarrow> verify_one_signature rt w v (wc_data e) h256 h1 s;
       verify_signatures rt w v d (length d) secdir h256 h1 (offset + length (win_cert_bytes e))
         (if ret \<noteq> EFI_SUCCESS then st else ret) s1
     } else verify_signatures rt w v d (length d) secdir h256 h1 (offset + length (win_cert_bytes e)) ret s)"
proof -
  let ?n = "length (wc_data e)"
  note rd = win_cert_reads [OF ok x, of z, folded d]
  have sz: "secsize < 2 ^ 32" using dir(2) by (auto simp: Dir_Size_def dest: rd32_bound)
  have len: "length (win_cert_bytes e) = 8 + ?n + pad8 ?n" by (rule length_win_cert)
  have "8 dvd 8 + (?n + pad8 ?n)" by (rule dvd_add [OF dvd_refl pad8_dvd])
  moreover have "0 < ?n" using ok by (simp add: win_cert_ok_def)
  ultimately have "8 dvd 8 + ?n + pad8 ?n" "0 < ?n" by (simp_all only: add.assoc)
  then obtain k where k: "8 + ?n + pad8 ?n = 8 * k" by auto
  moreover have "1 < k" using k \<open>0 < ?n\<close> by linarith
  ultimately have ge: "16 \<le> 8 + ?n + pad8 ?n" by simp
  have al: "ALIGN_VALUE (offset + (8 + ?n)) 8 = offset + length (win_cert_bytes e)"
    using off sz len ALIGN_VALUE_pad8 [of "offset + (8 + ?n)"] pad8_add [of "offset + 8" ?n]
    by (simp add: add.assoc)
  have io: "image_offset (length d) (va + offset) = Some (va + offset)"
    using x len by (simp add: image_offset_def d)
  have "length d \<ge> va + offset + 16" "\<not> secsize - offset < 8 + ?n" using x len ge off by (simp_all add: d)
  then show ?thesis
    using rd io dir off len ge sz al
    by (subst verify_signatures.simps) simp
qed

section \<open>The verdict on an image\<close>

text \<open>The abstract decision. A signature is accepted if no deny list has a certificate for it and an allow
  list, or the build, has one; an image is accepted if its digests are not denied and it was verified
  before, or an allow list has a digest, or one of its signatures is accepted.\<close>

definition own_cert_verifies :: "vconfig \<Rightarrow> buf \<Rightarrow> buf \<Rightarrow> buf option \<Rightarrow> bool" where
  "own_cert_verifies v sha256hash sig own =
     (case own of None \<Rightarrow> False | Some cert \<Rightarrow> cert \<noteq> [] \<and> AuthenticodeVerify v sig cert sha256hash)"

definition sig_accepted :: "vconfig \<Rightarrow> db_view \<Rightarrow> buf \<Rightarrow> buf \<Rightarrow> bool" where
  "sig_accepted v dv sha256hash sig \<longleftrightarrow>
     \<not> sig_denied v dv sha256hash sig \<and>
     (sig_listed v dv sha256hash sig \<or> own_cert_verifies v sha256hash sig (build_cert v) \<or>
      own_cert_verifies v sha256hash sig (vendor_cert v))"

definition image_accepted :: "vconfig \<Rightarrow> db_view \<Rightarrow> buf \<Rightarrow> buf \<Rightarrow> buf list \<Rightarrow> bool \<Rightarrow> bool" where
  "image_accepted v dv sha256hash sha1hash sigs parent_verified \<longleftrightarrow>
     \<not> hash_denied dv sha256hash sha1hash \<and>
     (parent_verified \<or> hash_allowed v dv sha256hash sha1hash \<or> list_ex (sig_accepted v dv sha256hash) sigs)"

text \<open>The table that a directory entry of the file points to.\<close>

definition has_table :: "buf \<Rightarrow> nat \<Rightarrow> win_cert list \<Rightarrow> bool" where
  "has_table d secdir es \<longleftrightarrow>
     list_all win_cert_ok es \<and> Dir_Size d secdir = Some (length (table_bytes es)) \<and>
     (case Dir_VirtualAddress d secdir of None \<Rightarrow> False
      | Some va \<Rightarrow> va \<le> length d \<and> take (length (table_bytes es)) (drop va d) = table_bytes es)"

text \<open>A computation whose early returns are errors.\<close>

definition errs :: "(efi_status + 'a) option \<Rightarrow> bool" where
  "errs m \<longleftrightarrow> (\<forall>st. m = Some (Inl st) \<longrightarrow> EFI_ERROR st)"

named_theorems errs_intros \<open>computations whose early returns are errors\<close>

lemma errs_Some [errs_intros]: "errs (Some (Inr x))" "EFI_ERROR st \<Longrightarrow> errs (Some (Inl st))"
  by (simp_all add: errs_def)

lemma errs_if [errs_intros]: "(P \<Longrightarrow> errs a) \<Longrightarrow> (\<not> P \<Longrightarrow> errs b) \<Longrightarrow> errs (if P then a else b)"
  by simp

lemma errs_Some_if [errs_intros]:
  "(P \<Longrightarrow> errs (Some a)) \<Longrightarrow> (\<not> P \<Longrightarrow> errs (Some b)) \<Longrightarrow> errs (Some (if P then a else b))"
  by simp

lemma errs_bind [errs_intros]: "(\<And>x. m = Some x \<Longrightarrow> errs (f x)) \<Longrightarrow> errs (do { x \<leftarrow> m; f x })"
  by (cases m) (auto simp: errs_def)

lemma errs_sum [errs_intros]:
  "(\<And>x. r = Inl x \<Longrightarrow> errs (f x)) \<Longrightarrow> (\<And>y. r = Inr y \<Longrightarrow> errs (g y)) \<Longrightarrow>
    errs (case r of Inl x \<Rightarrow> f x | Inr y \<Rightarrow> g y)"
  by (cases r) simp_all

lemma errs_bindE [errs_intros]: "errs m \<Longrightarrow> (\<And>x. errs (f x)) \<Longrightarrow> errs (bindE m f)"
  by (auto simp: bindE_def errs_def split: option.splits sum.splits)

lemma errs_prod [errs_intros]: "(\<And>x y. errs (f x y)) \<Longrightarrow> errs (case p of (x, y) \<Rightarrow> f x y)"
  by (cases p) simp

lemma errs_option [errs_intros]:
  "(m = None \<Longrightarrow> errs a) \<Longrightarrow> (\<And>x. m = Some x \<Longrightarrow> errs (f x)) \<Longrightarrow>
    errs (case m of None \<Rightarrow> a | Some x \<Rightarrow> f x)"
  by (cases m) simp_all

lemma errs_or_resources [errs_intros]: "errs (or_resources r)"
  by (auto simp: or_resources_def errs_def status_simps split: option.splits)

lemma errs_hash_range [errs_intros]: "errs (hash_range cr d n base sz ctx)"
  unfolding hash_range_def by (intro errs_intros) (simp_all add: status_simps)

lemma errs_get_section_vma: "get_section_vma i d c = Some (Inl st) \<Longrightarrow> EFI_ERROR st"
  by (auto simp: get_section_vma_def bind_Some_iff Let_def status_simps split: if_splits option.splits)

lemma errs_sort_sections [errs_intros]: "errs (sort_sections d n c hashed i summed table)"
proof (induction d n c hashed i summed table rule: sort_sections.induct)
  case (1 d n c hashed i summed table)
  then show ?case
    using errs_get_section_vma [of i d c]
    by (subst sort_sections.simps)
      (auto simp: errs_def status_simps split: option.split sum.split prod.split)
qed

lemma errs_hash_sections [errs_intros]: "errs (hash_sections cr d n secs hashed ctx)"
  by (induction secs arbitrary: hashed ctx)
    (auto simp: status_simps intro!: errs_intros split: option.split)

lemma errs_hash_contents: "errs (hash_contents cr d n c ctx)"
  unfolding hash_contents_def hash_to_secdir_def hash_rest_def Let_def
  by (intro errs_intros) (auto simp: status_simps errs_def)

text \<open>The same for computations that return a state.\<close>

definition perrs :: "((efi_status + 'a) \<times> 's) option \<Rightarrow> bool" where
  "perrs m \<longleftrightarrow> (\<forall>st s. m = Some (Inl st, s) \<longrightarrow> EFI_ERROR st)"

lemma perrs_Some [errs_intros]: "(\<And>st. r = Inl st \<Longrightarrow> EFI_ERROR st) \<Longrightarrow> perrs (Some (r, s))"
  by (simp add: perrs_def)

lemma perrs_if [errs_intros]: "(P \<Longrightarrow> perrs a) \<Longrightarrow> (\<not> P \<Longrightarrow> perrs b) \<Longrightarrow> perrs (if P then a else b)"
  by simp

lemma perrs_bind [errs_intros]: "(\<And>x. m = Some x \<Longrightarrow> perrs (f x)) \<Longrightarrow> perrs (do { x \<leftarrow> m; f x })"
  by (cases m) (auto simp: perrs_def)

lemma perrs_prod [errs_intros]: "(\<And>x y. p = (x, y) \<Longrightarrow> perrs (f x y)) \<Longrightarrow> perrs (case p of (x, y) \<Rightarrow> f x y)"
  by (cases p) simp

lemma perrs_option [errs_intros]:
  "(m = None \<Longrightarrow> perrs a) \<Longrightarrow> (\<And>x. m = Some x \<Longrightarrow> perrs (f x)) \<Longrightarrow>
    perrs (case m of None \<Rightarrow> a | Some x \<Rightarrow> f x)"
  by (cases m) simp_all

lemma perrs_sum [errs_intros]:
  "(\<And>x. r = Inl x \<Longrightarrow> perrs (f x)) \<Longrightarrow> (\<And>y. r = Inr y \<Longrightarrow> perrs (g y)) \<Longrightarrow>
    perrs (case r of Inl x \<Rightarrow> f x | Inr y \<Rightarrow> g y)"
  by (cases r) simp_all

lemma generate_hash_error:
  assumes "generate_hash cr p d n c = Some (Inl st, p')"
  shows "EFI_ERROR st"
proof -
  have h: "errs (hash_headers cr d n c)" "errs (hash_first_section d n off c)" for off
    unfolding hash_headers_def hash_first_section_def Let_def
    by (intro errs_intros; simp add: status_simps)+
  have ms: "map_sum id f r = Inl st \<Longrightarrow> r = Inl st"
    for st and f :: "buf \<times> buf \<Rightarrow> pe_context \<times> buf \<times> buf" and r
    by (cases r) auto
  have "perrs (generate_hash cr p d n c)"
    unfolding generate_hash_def Let_def
    by (intro errs_intros)
      (use h errs_hash_contents [of cr d n] in \<open>auto simp: status_simps errs_def dest!: ms\<close>)
  then show ?thesis using assms by (simp add: perrs_def)
qed

lemma verify_signatures_error: "perrs (verify_signatures rt w v d n secdir h256 h1 offset ret s)"
proof (induction rt w v d n secdir h256 h1 offset ret s rule: verify_signatures.induct)
  case (1 rt w v d n secdir h256 h1 offset ret s)
  show ?case
    by (subst verify_signatures.simps) (intro errs_intros; (rule 1; (assumption | erule sym))?; simp add: status_simps)
qed

lemma find_sbat_error: "errs (find_sbat addr d n c i base sz)"
proof (induction addr d n c i base sz rule: find_sbat.induct)
  case (1 addr d n c i base sz)
  have "errs None" by (simp add: errs_def)
  then show ?case
    by (subst find_sbat.simps, unfold Let_def)
      (intro errs_intros; (rule 1; (assumption | rule refl))?; simp add: status_simps)
qed

lemma read_header_error: "read_header e d n check = Some (Inl st) \<Longrightarrow> EFI_ERROR st"
proof -
  have start: "errs (read_header_start e d n)" 
    unfolding read_header_start_def Let_def by (intro errs_intros; simp add: status_simps errs_def)
  have lay: "errs (read_header_layout pe64 d n pe)" for pe64 pe
    unfolding read_header_layout_def Let_def by (intro errs_intros; simp add: status_simps errs_def)
  have "errs (read_header e d n check)"
    unfolding read_header_def Let_def
    by (intro errs_intros) (use start lay in \<open>auto simp: status_simps errs_def\<close>)
  then show "read_header e d n check = Some (Inl st) \<Longrightarrow> EFI_ERROR st" by (simp add: errs_def)
qed

lemma generate_hash_pool:
  "generate_hash cr p d n c = Some (r, p') \<Longrightarrow> pool_ok p \<Longrightarrow> pool_ok p'"
  unfolding generate_hash_def AllocatePool_def Let_def bind_Some_iff
  by (auto simp: pool_ok_def bind_Some_iff split: if_splits) (auto simp: bind_Some_iff split: sum.split_asm, metis sum.exhaust)

lemma try_own_cert_iff:
  "try_own_cert v own sig h s = None \<longleftrightarrow> \<not> own_cert_verifies v h sig own"
  "try_own_cert v own sig h s = Some s' \<Longrightarrow> vpool s' = vpool s"
  by (auto simp: try_own_cert_def own_cert_verifies_def split: option.splits if_splits)

context variable_services
begin

lemma verify_one_signature_ends:
  assumes a: "inv w" "view_ok v (vars w) dv" "length h256 = SHA256_DIGEST_SIZE"
      "length h1 = SHA1_DIGEST_SIZE" "pool_ok (vpool s)"
    and h: "\<not> hash_denied dv h256 h1" "\<not> hash_allowed v dv h256 h1"
  shows "\<exists>st. ends (verify_one_signature rt w v sig h256 h1) st s \<and> (st = EFI_SUCCESS \<longleftrightarrow> sig_accepted v dv h256 sig)"
proof -
  obtain s1 where s1: "check_denylist rt w v (Some sig) h256 h1 s =
      Some (if sig_denied v dv h256 sig then EFI_SECURITY_VIOLATION else EFI_SUCCESS, s1)" "pool_ok (vpool s1)"
    using check_denylist_ends [OF a, of "Some sig"] h by (auto simp: ends_def)
  obtain s2 where s2: "check_allowlist rt w v (Some sig) h256 h1 s1 =
      Some (if sig_listed v dv h256 sig then EFI_SUCCESS else EFI_NOT_FOUND, s2)" "pool_ok (vpool s2)"
    using check_allowlist_ends [OF a(1-4) s1(2), of "Some sig"] h by (auto simp: ends_def)
  have own: "try_own_cert v o1 sig h256 s2 = Some s3 \<Longrightarrow> pool_ok (vpool s3)" for o1 s3
    using try_own_cert_iff(2) [of v o1 sig h256 s2 s3] s2(2) by simp
  have iff: "(\<exists>s3. try_own_cert v o1 sig h256 s2 = Some s3) \<longleftrightarrow> own_cert_verifies v h256 sig o1" for o1
    using try_own_cert_iff(1) [of v o1 sig h256 s2] by auto
  consider "sig_denied v dv h256 sig" | "\<not> sig_denied v dv h256 sig" "sig_listed v dv h256 sig"
    | "\<not> sig_denied v dv h256 sig" "\<not> sig_listed v dv h256 sig" by blast
  then show ?thesis
  proof cases
    case 3
    then show ?thesis
      using s1 s2 own iff [of "build_cert v"] iff [of "vendor_cert v"]
      by (cases "try_own_cert v (build_cert v) sig h256 s2"; cases "try_own_cert v (vendor_cert v) sig h256 s2")
        (simp_all add: verify_one_signature_def ends_def sig_accepted_def status_simps)
  qed (use s1 s2 in \<open>simp_all add: verify_one_signature_def ends_def sig_accepted_def status_simps\<close>)
qed

lemma verify_signatures_table:
  assumes a: "inv w" "view_ok v (vars w) dv" "length h256 = SHA256_DIGEST_SIZE" "length h1 = SHA1_DIGEST_SIZE"
    and h: "\<not> hash_denied dv h256 h1" "\<not> hash_allowed v dv h256 h1"
    and dir: "Dir_VirtualAddress d secdir = Some va" "Dir_Size d secdir = Some secsize"
    and "list_all win_cert_ok es" and "d = x @ table_bytes es @ z" and "length x = va + offset"
    and "8 dvd offset" and "offset + length (table_bytes es) = secsize" and "pool_ok (vpool s)"
  shows "\<exists>ret' s'. verify_signatures rt w v d (length d) secdir h256 h1 offset ret s = Some (Inr ret', s') \<and>
    (ret' = EFI_SUCCESS \<longleftrightarrow> ret = EFI_SUCCESS \<or> list_ex (sig_accepted v dv h256) (signatures es))"
  using assms(9-14)
proof (induction es arbitrary: x offset ret s)
  case Nil
  then show ?case
    using dir by (subst verify_signatures.simps) (simp add: table_bytes_def signatures_def)
next
  case (Cons e es)
  let ?n = "length (win_cert_bytes e)"
  have d: "d = x @ win_cert_bytes e @ (table_bytes es @ z)" "d = (x @ win_cert_bytes e) @ table_bytes es @ z"
    using Cons.prems(2) by (simp_all add: table_bytes_def)
  have len: "offset + ?n + length (table_bytes es) = secsize"
    using Cons.prems(5) by (simp add: table_bytes_def)
  have "8 dvd ?n" using dvd_add [OF dvd_refl pad8_dvd] by (simp only: length_win_cert add.assoc)
  then have o8: "8 dvd offset + ?n" using Cons.prems(4) by (simp only: dvd_add)
  have ok: "win_cert_ok e" "list_all win_cert_ok es" using Cons.prems(1) by auto
  note step = verify_signatures_step [OF ok(1) d(1) Cons.prems(3) dir Cons.prems(4), of rt w v h256 h1 ret s]
  have IH: "\<exists>ret' s'. verify_signatures rt w v d (length d) secdir h256 h1 (offset + ?n) ret s = Some (Inr ret', s') \<and>
      (ret' = EFI_SUCCESS \<longleftrightarrow> ret = EFI_SUCCESS \<or> list_ex (sig_accepted v dv h256) (signatures es))"
    if "pool_ok (vpool s)" for ret s
    using Cons.IH [OF ok(2) d(2) _ o8 len that] Cons.prems(3) by simp
  show ?case
  proof (cases "wc_type e = WIN_CERT_TYPE_PKCS_SIGNED_DATA")
    case False
    then show ?thesis using step len IH [OF Cons.prems(6), of ret] by (simp add: signatures_def)
  next
    case True
    obtain st s1 where s1: "verify_one_signature rt w v (wc_data e) h256 h1 s = Some (st, s1)"
        "pool_ok (vpool s1)" "st = EFI_SUCCESS \<longleftrightarrow> sig_accepted v dv h256 (wc_data e)"
      using verify_one_signature_ends [OF a Cons.prems(6) h, of "wc_data e"] by (auto simp: ends_def)
    then show ?thesis
      using step len True IH [OF s1(2), of "if ret \<noteq> EFI_SUCCESS then st else ret"]
      by (cases "ret = EFI_SUCCESS") (simp_all add: signatures_def)
  qed
qed

lemma verify_buffer_authenticode_accepts:
  assumes a: "inv w" "view_ok v (vars w) dv" "length h256 = SHA256_DIGEST_SIZE" "length h1 = SHA1_DIGEST_SIZE"
    and d: "length d < 2 ^ 31" and p: "pool_ok (vpool s)"
    and hash: "generate_hash cr (vpool s) d (length d) c = Some (Inr (c', h256, h1), p')"
    and t: "has_table d (SecDir c') es"
  shows "\<exists>s'. verify_buffer_authenticode rt w v cr d (length d) c parent_verified s =
    Some (if image_accepted v dv h256 h1 (signatures es) parent_verified then EFI_SUCCESS
      else EFI_SECURITY_VIOLATION, c', s')"
proof -
  let ?s0 = "s\<lparr>vpool := p'\<rparr>"
  have p': "pool_ok (vpool ?s0)" using generate_hash_pool [OF hash p] by simp
  obtain s1 where s1: "check_denylist rt w v None h256 h1 ?s0 =
      Some (if hash_denied dv h256 h1 then EFI_SECURITY_VIOLATION else EFI_SUCCESS, s1)" "pool_ok (vpool s1)"
    using check_denylist_ends [OF a p', of None] by (auto simp: ends_def)
  obtain s2 where s2: "check_allowlist rt w v None h256 h1 s1 =
      Some (if hash_allowed v dv h256 h1 then EFI_SUCCESS else EFI_NOT_FOUND, s2)" "pool_ok (vpool s2)"
    using check_allowlist_ends [OF a s1(2), of None] by (auto simp: ends_def)
  let ?n = "length (table_bytes es)"
  obtain va where va: "Dir_VirtualAddress d (SecDir c') = Some va" "Dir_Size d (SecDir c') = Some ?n"
      "list_all win_cert_ok es" "va \<le> length d" "take ?n (drop va d) = table_bytes es"
    using t by (auto simp: has_table_def split: option.splits)
  have le: "va + ?n \<le> length d" using va(4) arg_cong [OF va(5), of length] by simp
  have split: "d = take va d @ table_bytes es @ drop (va + ?n) d"
    using va(5) append_take_drop_id [of va d] append_take_drop_id [of ?n "drop va d"]
    by (simp add: add.commute)
  show ?thesis
  proof (cases "hash_denied dv h256 h1 \<or> parent_verified \<or> hash_allowed v dv h256 h1")
    case True
    then show ?thesis
      using d hash s1 s2
      by (auto simp: verify_buffer_authenticode_def image_accepted_def status_simps)
  next
    case False
    then obtain ret s3 where s3: "verify_signatures rt w v d (length d) (SecDir c') h256 h1 0 EFI_NOT_FOUND s2 =
        Some (Inr ret, s3)" "ret = EFI_SUCCESS \<longleftrightarrow> list_ex (sig_accepted v dv h256) (signatures es)"
      using verify_signatures_table [OF a _ _ va(1,2,3) split, of 0 s2 EFI_NOT_FOUND] s2(2) va(4) by auto
    have "signatures es = []" if "?n = 0"
      using that by (cases es) (auto simp: table_bytes_def length_win_cert signatures_def)
    then show ?thesis
      using False d hash s1 s2 s3 le va(1,2)
      by (auto simp: verify_buffer_authenticode_def image_accepted_def status_simps checked_add_def)
  qed
qed

end

section \<open>What acceptance implies\<close>

text \<open>The following holds for any certificate table, well-formed or not. A signature in the table: an entry of the
  right type whose header and contents lie in the part of the file that the directory entry names.\<close>

definition in_table :: "buf \<Rightarrow> nat \<Rightarrow> buf \<Rightarrow> bool" where
  "in_table d secdir sig \<longleftrightarrow>
     (\<exists>va secsize offset. Dir_VirtualAddress d secdir = Some va \<and> Dir_Size d secdir = Some secsize \<and>
        offset + 8 + length sig \<le> secsize \<and> rd32 d (va + offset) = Some (8 + length sig) \<and>
        rd16 d (va + offset + 6) = Some WIN_CERT_TYPE_PKCS_SIGNED_DATA \<and>
        rdn d (va + offset + 8) (length sig) = Some sig)"

text \<open>The hash functions return digests of their size.\<close>

definition digest_sizes :: "('h, 'g) digests \<Rightarrow> bool" where
  "digest_sizes cr \<longleftrightarrow> (\<forall>x h. h_final (fst cr) x = Some h \<longrightarrow> length h = SHA256_DIGEST_SIZE) \<and>
     (\<forall>x h. h_final (snd cr) x = Some h \<longrightarrow> length h = SHA1_DIGEST_SIZE)"

lemma bindE_InrD: "bindE m f = Some (Inr y) \<Longrightarrow> \<exists>x. m = Some (Inr x) \<and> f x = Some (Inr y)"
  by (auto simp: bindE_def split: option.splits sum.splits)

lemma case_sum_Inr_iff:
  "(case x of Inl st \<Rightarrow> Some (Inl st, q) | Inr y \<Rightarrow> f y) = Some (Inr z, q') \<longleftrightarrow>
    (\<exists>y. x = Inr y \<and> f y = Some (Inr z, q'))"
  "map_sum id g x = Inr z \<longleftrightarrow> (\<exists>y. x = Inr y \<and> g y = z)"
  by (cases x; auto)+

lemma generate_hash_sizes:
  assumes "digest_sizes cr" and "generate_hash cr p d n c = Some (Inr (c', h256, h1), p')"
  shows "length h256 = SHA256_DIGEST_SIZE \<and> length h1 = SHA1_DIGEST_SIZE"
proof -
  obtain c1 ctx where "hash_contents cr d n c1 ctx = Some (Inr (h256, h1))"
    using assms(2) unfolding generate_hash_def AllocatePool_def Let_def
    by (auto simp: bind_Some_iff case_sum_Inr_iff split: if_splits)
  then obtain ctx' where "or_resources (digest_final cr ctx') = Some (Inr (h256, h1))"
    by (auto simp: hash_contents_def split: if_splits dest!: bindE_InrD)
  then show ?thesis
    using assms(1) by (auto simp: or_resources_def digest_final_def digest_sizes_def bind_Some_iff split: option.splits)
qed

context variable_services
begin

text \<open>What the loop over the table has found: nothing that the decision on a signature would not accept.\<close>

lemma verify_signatures_sound:
  assumes a: "inv w" "view_ok v (vars w) dv" "length h256 = SHA256_DIGEST_SIZE" "length h1 = SHA1_DIGEST_SIZE"
    and h: "\<not> hash_denied dv h256 h1" "\<not> hash_allowed v dv h256 h1"
    and "verify_signatures rt w v d n secdir h256 h1 offset ret s = Some (r, s')" and "pool_ok (vpool s)"
  shows "pool_ok (vpool s') \<and>
    (r = Inr EFI_SUCCESS \<longrightarrow> ret = EFI_SUCCESS \<or> (\<exists>sig. in_table d secdir sig \<and> sig_accepted v dv h256 sig))"
  using assms(7,8)
proof (induction "(case Dir_Size d secdir of None \<Rightarrow> 0 | Some n \<Rightarrow> n) - offset" arbitrary: offset ret s rule: less_induct)
  case less
  obtain va secsize where dir: "Dir_VirtualAddress d secdir = Some va" "Dir_Size d secdir = Some secsize"
    using less.prems(1) by (subst (asm) verify_signatures.simps) (auto simp: bind_Some_iff)
  show ?case
  proof (cases "offset < secsize \<and> image_offset n (va + offset) \<noteq> None")
    case False
    then show ?thesis
      using less.prems dir by (subst (asm) verify_signatures.simps) (auto split: option.splits)
  next
    case True
    then have off: "offset < secsize" and io: "image_offset n (va + offset) = Some (va + offset)"
      by (auto simp: image_offset_def split: if_splits)
    show ?thesis
    proof (cases "va + offset + 12 > n \<or> offset + 4 > secsize")
      case True
      then show ?thesis
        using less.prems dir off io by (subst (asm) verify_signatures.simps) (auto split: if_splits)
    next
      case room: False
      obtain sz where sz: "rd32 d (va + offset) = Some sz"
        using less.prems(1) dir off io room by (subst (asm) verify_signatures.simps) (auto simp: bind_Some_iff)
      show ?thesis
      proof (cases "sz > secsize - offset \<or> sz < 8")
        case True
        then show ?thesis
          using less.prems dir off io room sz by (subst (asm) verify_signatures.simps) (auto split: if_splits)
      next
        case fits: False
        obtain type where type: "rd16 d (va + offset + 6) = Some type"
          using less.prems(1) dir off io room sz fits by (subst (asm) verify_signatures.simps) (auto simp: bind_Some_iff)
        have loop: "verify_signatures rt w v d n secdir h256 h1 offset ret s =
            (if type = WIN_CERT_TYPE_PKCS_SIGNED_DATA then do {
               certdata \<leftarrow> rdn d (va + offset + 8) (sz - 8);
               (st, s1) \<leftarrow> verify_one_signature rt w v certdata h256 h1 s;
               verify_signatures rt w v d n secdir h256 h1 (ALIGN_VALUE (offset + sz) 8)
                 (if ret \<noteq> EFI_SUCCESS then st else ret) s1
             } else verify_signatures rt w v d n secdir h256 h1 (ALIGN_VALUE (offset + sz) 8) ret s)"
          using off room fits by (subst verify_signatures.simps) (simp add: dir io sz type)
        have "secsize < 2 ^ 32" using dir(2) by (auto simp: Dir_Size_def dest: rd32_bound)
        then have "offset < ALIGN_VALUE (offset + sz) 8" using off fits by (intro align_step) auto
        then have m: "(case Dir_Size d secdir of None \<Rightarrow> 0 | Some n \<Rightarrow> n) - ALIGN_VALUE (offset + sz) 8 <
            (case Dir_Size d secdir of None \<Rightarrow> 0 | Some n \<Rightarrow> n) - offset"
          using off by (simp add: dir)
        show ?thesis
        proof (cases "type = WIN_CERT_TYPE_PKCS_SIGNED_DATA")
          case False
          then show ?thesis using less.hyps [OF m, of ret s] less.prems loop by simp
        next
          case True
          obtain sig where sig: "rdn d (va + offset + 8) (sz - 8) = Some sig"
            using less.prems(1) True unfolding loop by (auto simp: bind_Some_iff)
          obtain st s1 where s1: "verify_one_signature rt w v sig h256 h1 s = Some (st, s1)" "pool_ok (vpool s1)"
              "st = EFI_SUCCESS \<longleftrightarrow> sig_accepted v dv h256 sig"
            using verify_one_signature_ends [OF a less.prems(2) h, of sig] by (auto simp: ends_def)
          have "length sig = sz - 8" using sig by (rule rdn_length)
          then have "in_table d secdir sig"
            using dir off sz fits type True sig by (auto simp: in_table_def intro!: exI [of _ offset])
          then show ?thesis
            using less.hyps [OF m, of "if ret \<noteq> EFI_SUCCESS then st else ret" s1] s1 less.prems(1) loop True sig
            by (auto split: if_splits)
        qed
      qed
    qed
  qed
qed

lemma verify_buffer_authenticode_sound:
  assumes w: "inv w" and view: "view_ok v (vars w) dv" and cr: "digest_sizes cr" and p: "pool_ok (vpool s)"
    and res: "verify_buffer_authenticode rt w v cr d n c False s = Some (st, c', s')" and st: "\<not> EFI_ERROR st"
  shows "\<exists>h256 h1 p'. generate_hash cr (vpool s) d n c = Some (Inr (c', h256, h1), p') \<and> pool_ok (vpool s') \<and>
    \<not> hash_denied dv h256 h1 \<and>
    (hash_allowed v dv h256 h1 \<or> (\<exists>sig. in_table d (SecDir c') sig \<and> sig_accepted v dv h256 sig))"
proof -
  have n: "\<not> n \<ge> 2 ^ 31"
    using res st by (auto simp: verify_buffer_authenticode_def status_simps)
  obtain h q where "generate_hash cr (vpool s) d n c = Some (h, q)"
    using res n by (auto simp: verify_buffer_authenticode_def bind_Some_iff)
  then obtain c1 h256 h1 where g: "generate_hash cr (vpool s) d n c = Some (Inr (c1, h256, h1), q)"
    using res st n generate_hash_error [of cr "vpool s" d n c]
    by (cases h) (auto simp: verify_buffer_authenticode_def)
  have len: "length h256 = SHA256_DIGEST_SIZE" "length h1 = SHA1_DIGEST_SIZE"
    using generate_hash_sizes [OF cr g] by simp_all
  let ?s0 = "s\<lparr>vpool := q\<rparr>"
  have q: "pool_ok (vpool ?s0)" using generate_hash_pool [OF g p] by simp
  obtain s1 where s1: "check_denylist rt w v None h256 h1 ?s0 =
      Some (if hash_denied dv h256 h1 then EFI_SECURITY_VIOLATION else EFI_SUCCESS, s1)" "pool_ok (vpool s1)"
    using check_denylist_ends [OF w view len q, of None] by (auto simp: ends_def)
  have deny: "\<not> hash_denied dv h256 h1"
    using res n g s1 st by (auto simp: verify_buffer_authenticode_def status_simps)
  obtain s2 where s2: "check_allowlist rt w v None h256 h1 s1 =
      Some (if hash_allowed v dv h256 h1 then EFI_SUCCESS else EFI_NOT_FOUND, s2)" "pool_ok (vpool s2)"
    using check_allowlist_ends [OF w view len s1(2), of None] by (auto simp: ends_def)
  show ?thesis
  proof (cases "hash_allowed v dv h256 h1")
    case True
    then have "c1 = c'" "s' = s2"
      using res n g s1(1) s2(1) deny by (simp_all add: verify_buffer_authenticode_def status_simps)
    then show ?thesis using g deny True s2(2) by auto
  next
    case False
    note eqs = n g s1(1) [unfolded if_not_P [OF deny]] s2(1) [unfolded if_not_P [OF False]]
    obtain va secsize where dir: "Dir_VirtualAddress d (SecDir c1) = Some va" "Dir_Size d (SecDir c1) = Some secsize"
      using res eqs by (auto simp: verify_buffer_authenticode_def bind_Some_iff status_simps)
    have off: "secsize \<noteq> 0" "checked_add secsize va = Some (secsize + va)" "\<not> secsize + va > n"
      using res eqs dir st
      by (auto simp: verify_buffer_authenticode_def status_simps checked_add_def split: if_splits)
    obtain r s3 where r: "verify_signatures rt w v d n (SecDir c1) h256 h1 0 EFI_NOT_FOUND s2 = Some (r, s3)"
      using res eqs dir off by (auto simp: verify_buffer_authenticode_def bind_Some_iff status_simps)
    have c1: "c1 = c'" "s' = s3"
      using res eqs dir off r by (simp_all add: verify_buffer_authenticode_def status_simps)
    have "r = Inr EFI_SUCCESS"
      using res eqs dir off r st verify_signatures_error [of rt w v d n "SecDir c1" h256 h1 0 EFI_NOT_FOUND s2]
      by (cases r) (auto simp: verify_buffer_authenticode_def perrs_def status_simps split: if_splits)
    then show ?thesis
      using verify_signatures_sound [OF w view len deny False r s2(2)] g deny c1 by auto
  qed
qed

lemma verify_buffer_sound:
  assumes "inv w" and "view_ok v (vars w) dv" and "digest_sizes cr" and "pool_ok (vpool s)"
    and res: "verify_buffer rt w v cr sbat in_proto addr d n c False s = Some (st, c', s')" and st: "\<not> EFI_ERROR st"
  shows "\<exists>h256 h1 p1 base sz p2 p3. generate_hash cr (vpool s) d n c = Some (Inr (c', h256, h1), p1) \<and>
    \<not> hash_denied dv h256 h1 \<and>
    (hash_allowed v dv h256 h1 \<or> (\<exists>sig. in_table d (SecDir c') sig \<and> sig_accepted v dv h256 sig)) \<and>
    find_sbat addr d n c' 0 None 0 = Some (Inr (base, sz)) \<and> pool_ok p2 \<and>
    verify_sbat_section sbat in_proto d base sz p2 = Some (st, p3)"
proof -
  obtain st1 s1 where a: "verify_buffer_authenticode rt w v cr d n c False s = Some (st1, c', s1)"
      "\<not> EFI_ERROR st1" and sb: "verify_buffer_sbat sbat in_proto addr d n c' s1 = Some (st, s')"
    using res st by (auto simp: verify_buffer_def bind_Some_iff split: if_splits)
  obtain q where q: "find_sbat addr d n c' 0 None 0 = Some q"
    using sb by (auto simp: verify_buffer_sbat_def bind_Some_iff)
  then obtain base sz p3 where f: "find_sbat addr d n c' 0 None 0 = Some (Inr (base, sz))"
      "verify_sbat_section sbat in_proto d base sz (vpool s1) = Some (st, p3)"
    using sb st find_sbat_error [of addr d n c' 0 None 0]
    by (cases q) (auto simp: verify_buffer_sbat_def bind_Some_iff errs_def)
  then show ?thesis using verify_buffer_authenticode_sound [OF assms(1-4) a] by blast
qed

end

section \<open>Properties\<close>

text \<open>C2. The verdict on an image whose databases are well-formed signature lists, whose certificate table
  is well-formed and whose digests could be computed: \<^verbatim>\<open>verify_buffer_authenticode\<close> returns, and its status
  is the abstract decision. A digest on a deny list refuses the image whatever the allow lists, the
  signatures or the caller say; otherwise the image is accepted exactly if the caller has verified it, or
  an allow list has its digest, or one of its signatures has no certificate on a deny list and one on an
  allow list or in the build.\<close>

theorem verify_buffer_authenticode_verdict:
  assumes "mock_inv w" and "view_ok v (mock_vars w) dv"
    and "length h256 = SHA256_DIGEST_SIZE" and "length h1 = SHA1_DIGEST_SIZE"
    and "length d < 2 ^ 31" and "pool_ok (vpool s)"
    and "generate_hash cr (vpool s) d (length d) c = Some (Inr (c', h256, h1), p')"
    and "has_table d (SecDir c') es"
  shows "\<exists>s'. verify_buffer_authenticode (mock_rt gt) w v cr d (length d) c parent_verified s =
    Some (if image_accepted v dv h256 h1 (signatures es) parent_verified then EFI_SUCCESS
      else EFI_SECURITY_VIOLATION, c', s')"
  using mock.verify_buffer_authenticode_accepts [OF assms] .

text \<open>A hash function that adds up its input, and the sample image with a signature.\<close>

definition sum_hash :: "nat \<Rightarrow> 8 word hash_alg" where
  "sum_hash n = \<lparr>h_size = 1, h_init = Some 0, h_update = (\<lambda>h s. Some (h + sum_list s)),
     h_final = (\<lambda>h. Some (replicate n h))\<rparr>"

definition sum_digests :: "(8 word, 8 word) digests" where
  "sum_digests = (sum_hash SHA256_DIGEST_SIZE, sum_hash SHA1_DIGEST_SIZE)"

definition sample_cert :: win_cert where
  "sample_cert = \<lparr>wc_revision = 0x200, wc_type = WIN_CERT_TYPE_PKCS_SIGNED_DATA, wc_data = [1, 2, 3, 4, 5, 6, 7, 8]\<rparr>"

definition sample_image :: buf where
  "sample_image =
     sample_header 1 400 408 368 (376, 16) (0, 0) @
     sample_section ''.text'' 8 400 8 368 0x60000020 @ [1, 2, 3, 4, 5, 6, 7, 8] @ table_bytes [sample_cert]"

definition sample_config :: vconfig where
  "sample_config = \<lparr>vendor_deauthorized = [], vendor_db = None, build_cert = None, vendor_cert = Some [0x30],
     ignore_db = False, AuthenticodeVerify = (\<lambda>sig cert hash. sig = [1, 2, 3, 4, 5, 6, 7, 8] \<and> cert = [0x30]),
     ext_key_usage = (\<lambda>_. None)\<rparr>"

definition sample_view :: db_view where
  "sample_view = \<lparr>dv_vendor_dbx = [], dv_dbx = [], dv_mokx = [], dv_db = [], dv_vendor_db = None, dv_mok = []\<rparr>"

definition secure_store :: mock_state where
  "secure_store = mock_store [(wlit ''SecureBoot'', GV_GUID, EFI_VARIABLE_BOOTSERVICE_ACCESS, [1])]"

definition sample_vstate :: vstate where
  "sample_vstate = \<lparr>verification_method = VERIFIED_BY_NOTHING, tpm_log = [], vpool = (\<lambda>_ _. True)\<rparr>"

lemma secure_store_inv: "mock_inv secure_store"
  unfolding secure_store_def by (rule mock_store_inv) code_simp

lemma sample_view_ok: "view_ok sample_config (mock_vars secure_store) sample_view"
proof -
  have "mock_vars secure_store (wlit ''dbx'', EFI_SECURE_BOOT_DB_GUID) = None"
    "mock_vars secure_store (wlit ''db'', EFI_SECURE_BOOT_DB_GUID) = None"
    "mock_vars secure_store (wlit ''MokListX'', SHIM_LOCK_GUID) = None"
    "mock_vars secure_store (wlit ''MokListRT'', SHIM_LOCK_GUID) = None"
    by code_simp+
  then show ?thesis
    by (simp add: view_ok_def sample_config_def sample_view_def db_lists_def lists_ok_def esls_encode_def)
qed

lemma sample_cert_bytes: "table_bytes [sample_cert] = [16, 0, 0, 0, 0, 2, 2, 0, 1, 2, 3, 4, 5, 6, 7, 8]"
  by code_simp

lemma length_sample_image: "length sample_image = 392"
  by (simp add: sample_image_def sample_cert_bytes)

lemma sample_image_header:
  "read_header sample_env sample_image 392 True = Some (Inr sample_pe_context)"
  unfolding sample_image_def sample_pe_context_def by (rule read_header_sample) simp_all

lemma sample_image_dir:
  "Dir_VirtualAddress sample_image 232 = Some 376" "Dir_Size sample_image 232 = Some 16"
  "e_magic sample_image = Some EFI_IMAGE_DOS_SIGNATURE"
  by (simp_all add: sample_image_def sample_header_reads)

lemma sample_image_table: "has_table sample_image 232 [sample_cert]"
proof -
  have "drop 376 sample_image = table_bytes [sample_cert]" by (simp add: sample_image_def)
  moreover have "win_cert_ok sample_cert" by (simp add: win_cert_ok_def sample_cert_def WIN_CERT_TYPE_PKCS_SIGNED_DATA_def)
  ultimately show ?thesis
    by (simp add: has_table_def sample_image_dir length_sample_image) (simp add: sample_cert_bytes)
qed

lemma sum_digest_of: "\<exists>x y. digest_of sum_digests ss = Inr (replicate 32 x, replicate 20 y)"
proof -
  have "\<exists>y. digest_updates sum_digests x ss = Some y" for x
    by (induction ss arbitrary: x) (auto simp: sum_digests_def sum_hash_def digest_update_def split: prod.split)
  then obtain y where "digest_updates sum_digests (0, 0) ss = Some y" by blast
  moreover have "digest_init sum_digests = Some (0, 0)"
    by (simp add: digest_init_def sum_digests_def sum_hash_def)
  moreover have "digest_final sum_digests y = Some (replicate 32 (fst y), replicate 20 (snd y))"
    by (simp add: digest_final_def sum_digests_def sum_hash_def SHA256_DIGEST_SIZE_def SHA1_DIGEST_SIZE_def)
  ultimately show ?thesis by (simp add: digest_of_def)
qed

lemma sample_image_hash:
  assumes "pool_ok p"
  shows "\<exists>x y p'. generate_hash sum_digests p sample_image 392 sample_pe_context =
    Some (Inr (sample_pe_context, replicate 32 x, replicate 20 y), p')"
proof -
  have g: "get_section_vma 0 sample_image sample_pe_context = Some (Inr (Some 400, Some 407, sample_text))"
    by (rule sample_text_section [OF sample_image_def])
  have t: "image_tiled sample_image sample_pe_context [sample_text] 376 376 16"
    using g sample_image_dir length_sample_image
    by (simp add: image_tiled_def sample_pe_context_def sample_text_fields)
  have "context_ok sample_image (length sample_image) sample_pe_context"
    using read_header_spec [of 392 sample_image sample_env True] sample_image_header length_sample_image by auto
  from generate_hash_covered [OF this sample_image_dir(3) _ assms t, of sum_digests]
  obtain ss p' where "generate_hash sum_digests p sample_image 392 sample_pe_context =
      Some (map_sum id (Pair sample_pe_context) (digest_of sum_digests ss), p')"
    by (auto simp: length_sample_image)
  moreover obtain x y where "digest_of sum_digests ss = Inr (replicate 32 x, replicate 20 y)"
    using sum_digest_of by blast
  ultimately show ?thesis by simp
qed

lemma sample_image_accepted:
  "image_accepted sample_config sample_view x y (signatures [sample_cert]) False"
  by (simp add: image_accepted_def sample_config_def sample_view_def hash_denied_def has_hash_def has_cert_def
      signatures_def sample_cert_def sig_accepted_def sig_denied_def own_cert_verifies_def)

theorem verify_buffer_authenticode_verdict_witness:
  "\<exists>x y p' s'. generate_hash sum_digests (\<lambda>_ _. True) sample_image 392 sample_pe_context =
      Some (Inr (sample_pe_context, x, y), p') \<and>
    image_accepted sample_config sample_view x y (signatures [sample_cert]) False \<and>
    verify_buffer_authenticode mock_rt0 secure_store sample_config sum_digests sample_image 392 sample_pe_context
      False sample_vstate = Some (EFI_SUCCESS, sample_pe_context, s')"
proof -
  have p: "pool_ok (vpool sample_vstate)" by (simp add: sample_vstate_def pool_ok_def)
  obtain x y p' where g: "generate_hash sum_digests (vpool sample_vstate) sample_image (length sample_image)
      sample_pe_context = Some (Inr (sample_pe_context, replicate 32 x, replicate 20 y), p')"
    using sample_image_hash [OF p] by (auto simp: length_sample_image)
  have t: "has_table sample_image (SecDir sample_pe_context) [sample_cert]"
    using sample_image_table by (simp add: sample_pe_context_def)
  show ?thesis
    using verify_buffer_authenticode_verdict [OF secure_store_inv sample_view_ok _ _ _ p g t,
        of "\<lambda>_. (EFI_SUCCESS, [])" False] g sample_image_accepted
    by (auto simp: length_sample_image SHA256_DIGEST_SIZE_def SHA1_DIGEST_SIZE_def sample_vstate_def)
qed


lemma sample_image_sbat:
  "find_sbat 0 sample_image 392 sample_pe_context 0 None 0 = Some (Inr (None, 0))"
proof -
  have "read_section sample_image 328 = Some sample_text"
    unfolding sample_text_def sample_image_def by (rule read_section_sample) simp_all
  moreover have "sh_Name sample_text \<noteq> lit ''.sbat'' @ [0, 0, 0]" by code_simp
  ultimately show ?thesis
    by (subst find_sbat.simps, subst find_sbat.simps) (simp add: sample_pe_context_def)
qed

lemma secure_store_secure: "secure_mode mock_rt0 0 secure_store"
  by code_simp

lemma sum_digest_sizes: "digest_sizes sum_digests"
  by (simp add: digest_sizes_def sum_digests_def sum_hash_def)

text \<open>The sample image passes, in the protocol and outside.\<close>

lemma sample_verify_buffer:
  assumes p: "pool_ok (vpool s)"
  shows "\<exists>s'. verify_buffer mock_rt0 secure_store sample_config sum_digests ([], []) in_proto 0 sample_image 392
    sample_pe_context False s = Some (EFI_SUCCESS, sample_pe_context, s') \<and> pool_ok (vpool s')"
proof -
  obtain u v p2 where g: "generate_hash sum_digests (vpool s) sample_image (length sample_image) sample_pe_context =
      Some (Inr (sample_pe_context, replicate 32 u, replicate 20 v), p2)"
    using sample_image_hash [OF p] by (auto simp: length_sample_image)
  have t: "has_table sample_image (SecDir sample_pe_context) [sample_cert]"
    using sample_image_table by (simp add: sample_pe_context_def)
  obtain s' where a: "verify_buffer_authenticode mock_rt0 secure_store sample_config sum_digests sample_image 392
      sample_pe_context False s = Some (EFI_SUCCESS, sample_pe_context, s')"
    using mock.verify_buffer_authenticode_accepts [OF secure_store_inv sample_view_ok _ _ _ p g t,
        of "\<lambda>_. (EFI_SUCCESS, [])" False] sample_image_accepted
    by (auto simp: length_sample_image SHA256_DIGEST_SIZE_def SHA1_DIGEST_SIZE_def)
  have "\<not> EFI_ERROR EFI_SUCCESS" by (simp add: status_simps)
  from mock.verify_buffer_authenticode_sound [OF secure_store_inv sample_view_ok sum_digest_sizes p a this]
  have "pool_ok (vpool s')" by blast
  then show ?thesis
    using a sample_image_sbat
    by (simp add: verify_buffer_def verify_buffer_sbat_def verify_sbat_section_def status_simps)
qed


text \<open>A check when there is no memory: whether it finds something. It frees no memory.\<close>

definition starved :: "(vstate \<Rightarrow> (check_status \<times> vstate) option) \<Rightarrow> bool \<Rightarrow> bool" where
  "starved check found \<longleftrightarrow> (\<forall>s. vpool s = (\<lambda>_ _. False) \<longrightarrow>
     (\<exists>r s'. check s = Some (r, s') \<and> (r = DATA_FOUND \<longleftrightarrow> found) \<and> vpool s' = (\<lambda>_ _. False)))"

lemma starved_on_found:
  assumes "starved check B" and "\<And>s. \<not> B \<Longrightarrow> vpool s = (\<lambda>_ _. False) \<Longrightarrow> \<exists>s'. next' s = Some (X, s')"
    and "vpool s = (\<lambda>_ _. False)"
  shows "\<exists>s'. on_found check (Pair Y) next' s = Some (if B then Y else X, s')"
proof -
  obtain r s1 where r: "check s = Some (r, s1)" "r = DATA_FOUND \<longleftrightarrow> B" "vpool s1 = (\<lambda>_ _. False)"
    using assms(1,3) by (auto simp: starved_def)
  then show ?thesis using assms(2) [of s1] by (cases B) (auto simp: on_found_def)
qed

lemma starved_hash_buffer:
  "list_all (hash_list_ok T (length hash)) ls \<Longrightarrow>
    starved (check_db_hash_in_ram (esls_encode ls) (length (esls_encode ls)) hash T dbname guid) (has_hash T hash ls)"
  using check_db_hash_in_ram_encode [of T hash ls "[]" dbname guid] first_some_list_hash [of T hash ls]
  by (auto simp: starved_def check_result_def log_event_def split: option.splits)

lemma starved_cert_buffer:
  "list_all cert_list_ok ls \<Longrightarrow>
    starved (check_db_cert_in_ram v (esls_encode ls) (length (esls_encode ls)) sig hash dbname guid) (has_cert v sig hash ls)"
  using check_db_cert_in_ram_encode [of ls v "[]" sig hash dbname guid] first_some_iff [of "list_cert v sig hash" ls]
  by (auto simp: starved_def check_result_def log_event_def has_cert_def split: option.splits)

lemma starved_if_cert:
  "(\<And>sig. starved (check sig) (P sig)) \<Longrightarrow> starved (if_cert cert check) (case_option False P cert)"
  by (cases cert) (auto simp: starved_def if_cert_def)

context variable_services
begin

lemma get_variable_no_memory:
  assumes "inv w"
  shows "\<exists>st b k. get_variable rt n g (\<lambda>_ _. False) w = (st, b, k, \<lambda>_ _. False) \<and> EFI_ERROR st"
proof (cases "vars w (n, g)")
  case None
  then show ?thesis using get_variable_none [OF assms None] by (simp add: status_simps)
next
  case (Some u)
  then show ?thesis
    using get_variable_attr_some [OF assms, of n g "fst u" "snd u" "\<lambda>_ _. False" False "\<lambda>_ _. False"]
    by (simp add: get_variable_def AllocatePool_def status_simps)
qed

lemma starved_variable:
  assumes "inv w"
  shows "starved (check_db_hash rt w n g hash T) False" and "starved (check_db_cert rt w v n g sig hash) False"
  using get_variable_no_memory [OF assms, of n g]
  by (auto simp: starved_def check_db_hash_def check_db_cert_def)

lemma check_denylist_starved:
  assumes "inv w" and "vendor_deauthorized v = esls_encode ls" and "lists_ok ls"
    and "length h256 = SHA256_DIGEST_SIZE" and "length h1 = SHA1_DIGEST_SIZE" and "vpool s = (\<lambda>_ _. False)"
  shows "\<exists>s'. check_denylist rt w v cert h256 h1 s =
    Some (if has_hash EFI_CERT_SHA256_GUID h256 ls \<or> has_hash EFI_CERT_SHA1_GUID h1 ls \<or>
        case_option False (\<lambda>sig. has_cert v sig h256 ls) cert
      then EFI_SECURITY_VIOLATION else EFI_SUCCESS, s')"
proof -
  have absent: "starved (if_cert cert (\<lambda>sig. check_db_cert rt w v n g sig h256)) False" for n g
  proof -
    have "starved (if_cert cert (\<lambda>sig. check_db_cert rt w v n g sig h256)) (case_option False (\<lambda>_. False) cert)"
      by (intro starved_if_cert starved_variable assms)
    then show ?thesis by (cases cert) simp_all
  qed
  have "\<exists>s'. check_denylist rt w v cert h256 h1 s =
    Some (if has_hash EFI_CERT_SHA256_GUID h256 ls then EFI_SECURITY_VIOLATION
      else if has_hash EFI_CERT_SHA1_GUID h1 ls then EFI_SECURITY_VIOLATION
      else if case_option False (\<lambda>sig. has_cert v sig h256 ls) cert then EFI_SECURITY_VIOLATION
      else if False then EFI_SECURITY_VIOLATION else if False then EFI_SECURITY_VIOLATION
      else if False then EFI_SECURITY_VIOLATION else if False then EFI_SECURITY_VIOLATION
      else if False then EFI_SECURITY_VIOLATION else EFI_SUCCESS, s')"
    unfolding check_denylist_def Let_def assms(2)
    by (intro starved_on_found starved_hash_buffer starved_if_cert starved_cert_buffer starved_variable
        lists_okD [OF assms(3)] assms) (simp_all add: absent)
  then show ?thesis by (auto split: if_splits)
qed

end

text \<open>C29. The deny lists fail open: when no memory can be allocated, \<^verbatim>\<open>check_denylist\<close> decides by the build's own
  list alone. The variables \<^verbatim>\<open>dbx\<close> and \<^verbatim>\<open>MokListX\<close> count as missing, whatever they hold, so an image that only they
  name passes.\<close>

theorem check_denylist_no_memory:
  assumes "mock_inv w" and "vendor_deauthorized v = esls_encode ls" and "lists_ok ls"
    and "length h256 = SHA256_DIGEST_SIZE" and "length h1 = SHA1_DIGEST_SIZE" and "vpool s = (\<lambda>_ _. False)"
  shows "\<exists>s'. check_denylist (mock_rt gt) w v cert h256 h1 s =
    Some (if has_hash EFI_CERT_SHA256_GUID h256 ls \<or> has_hash EFI_CERT_SHA1_GUID h1 ls \<or>
        case_option False (\<lambda>sig. has_cert v sig h256 ls) cert
      then EFI_SECURITY_VIOLATION else EFI_SUCCESS, s')"
  by (rule mock.check_denylist_starved [OF assms])

text \<open>A system whose \<^verbatim>\<open>dbx\<close> names the image: with memory the image is refused, without it passes.\<close>

definition dbx_store :: mock_state where
  "dbx_store = mock_store [(wlit ''dbx'', EFI_SECURE_BOOT_DB_GUID, EFI_VARIABLE_BOOTSERVICE_ACCESS,
     esls_encode [hash_esl (replicate 32 5)])]"

definition dbx_view :: db_view where
  "dbx_view = sample_view\<lparr>dv_dbx := [hash_esl (replicate 32 5)]\<rparr>"

lemma dbx_store_inv: "mock_inv dbx_store"
  unfolding dbx_store_def by (rule mock_store_inv) code_simp

lemma dbx_view_ok: "view_ok sample_config (mock_vars dbx_store) dbx_view"
proof -
  have "mock_vars dbx_store (wlit ''dbx'', EFI_SECURE_BOOT_DB_GUID) =
      Some (EFI_VARIABLE_BOOTSERVICE_ACCESS, esls_encode [hash_esl (replicate 32 5)])"
    "mock_vars dbx_store (wlit ''db'', EFI_SECURE_BOOT_DB_GUID) = None"
    "mock_vars dbx_store (wlit ''MokListX'', SHIM_LOCK_GUID) = None"
    "mock_vars dbx_store (wlit ''MokListRT'', SHIM_LOCK_GUID) = None"
    by code_simp+
  moreover have "lists_ok [hash_esl (replicate 32 5)]"
    by (simp add: lists_ok_def cert_list_ok_def hash_list_ok_def hash_esl_def one_sig_esl_def esl_wf_def esl_listsize_def
        EFI_CERT_SHA256_GUID_def EFI_CERT_SHA1_GUID_def EFI_CERT_TYPE_X509_GUID_def SHA256_DIGEST_SIZE_def)
  ultimately show ?thesis
    by (simp add: view_ok_def sample_config_def dbx_view_def sample_view_def db_lists_def)
      (simp add: lists_ok_def esls_encode_def)
qed

theorem check_denylist_no_memory_witness:
  "(\<exists>s'. check_denylist mock_rt0 dbx_store sample_config None (replicate 32 5) (replicate 20 0)
      (sample_vstate\<lparr>vpool := (\<lambda>_ _. False)\<rparr>) = Some (EFI_SUCCESS, s')) \<and>
    (\<exists>s'. check_denylist mock_rt0 dbx_store sample_config None (replicate 32 5) (replicate 20 0) sample_vstate =
      Some (EFI_SECURITY_VIOLATION, s'))"
proof -
  have len: "length (replicate 32 (5 :: byte)) = SHA256_DIGEST_SIZE" "length (replicate 20 (0 :: byte)) = SHA1_DIGEST_SIZE"
    by (simp_all add: SHA256_DIGEST_SIZE_def SHA1_DIGEST_SIZE_def)
  have v: "vendor_deauthorized sample_config = esls_encode []" "lists_ok []"
    by (simp_all add: sample_config_def esls_encode_def lists_ok_def)
  have d: "hash_denied dbx_view (replicate 32 5) (replicate 20 0)"
    by (simp add: hash_denied_def dbx_view_def sample_view_def has_hash_def hash_esl_def one_sig_esl_def)
  have "pool_ok (vpool sample_vstate)" by (simp add: sample_vstate_def pool_ok_def)
  from mock.check_denylist_ends [OF dbx_store_inv dbx_view_ok len this, of "\<lambda>_. (EFI_SUCCESS, [])" None] d
  show ?thesis
    using check_denylist_no_memory [OF dbx_store_inv v len, of "sample_vstate\<lparr>vpool := (\<lambda>_ _. False)\<rparr>"
        "\<lambda>_. (EFI_SUCCESS, [])" None]
    by (auto simp: ends_def has_hash_def)
qed

end
