(* ===== verification/Pe_Load.thy ===== *)
theory Pe_Load
  imports Verify
begin

text \<open>
  Loading an image: \<^verbatim>\<open>verify_image\<close> and \<^verbatim>\<open>handle_image\<close> of \<^verbatim>\<open>pe.c\<close>. The file is the buffer \<open>d\<close>; the pages that
  the firmware allocates are a second buffer, of which \<open>mem\<close> is the part from the address \<^verbatim>\<open>buffer\<close> on.
  The page allocator is a parameter. A call of \<^verbatim>\<open>update_mem_attrs\<close>, whose result the code ignores, is an
  entry of a log; \<^verbatim>\<open>cache_invalidate\<close> and console output are left out. The build is the one without
  \<^verbatim>\<open>REQUIRE_TPM\<close>.

  The lemmas show that the loader stays inside the file and inside the pages, that it gives back the pages
  whenever it fails, where the bytes of the loaded sections come from, and which page permissions it asks
  for.
\<close>

section \<open>State\<close>

definition MEM_ATTR_R :: nat where "MEM_ATTR_R = 4"
definition MEM_ATTR_W :: nat where "MEM_ATTR_W = 2"
definition MEM_ATTR_X :: nat where "MEM_ATTR_X = 1"
definition EFI_IMAGE_DIRECTORY_ENTRY_BASERELOC :: nat where "EFI_IMAGE_DIRECTORY_ENTRY_BASERELOC = 5"

text \<open>The fields of \<^verbatim>\<open>EFI_LOADED_IMAGE\<close> that the loader sets.\<close>

record loaded_image =
  li_ImageBase :: nat
  li_ImageSize :: nat
  li_LoadOptions :: buf

text \<open>An update of page permissions: the address, the length, the attributes to set and to clear.\<close>

record attr_update =
  au_addr :: nat
  au_len :: nat
  au_set :: nat
  au_clear :: nat

text \<open>\<open>ls_pages\<close> are the allocations that have not been freed: their addresses and numbers of pages.\<close>

record load_state =
  ls_v :: vstate
  ls_cache :: section_cache
  ls_attrs :: "attr_update list"
  ls_pages :: "(nat \<times> nat) list"
  ls_li :: loaded_image

text \<open>What the loader depends on: the header checks, the lists, \<^verbatim>\<open>user_insecure_mode\<close>, the revocation list,
  the address of the file, the load options, and the allocator, which gives the address and the contents
  of the pages.\<close>

record load_env =
  le_pe :: pe_env
  le_v :: vconfig
  le_insecure :: nat
  le_sbat :: sbat_vars
  le_data :: nat
  le_options :: buf
  le_AllocatePages :: "nat \<Rightarrow> (nat \<times> buf) option"

definition update_mem_attrs_log :: "nat \<Rightarrow> nat \<Rightarrow> nat \<Rightarrow> nat \<Rightarrow> load_state \<Rightarrow> load_state" where
  "update_mem_attrs_log addr len set_attrs clear_attrs s =
     s\<lparr>ls_attrs := ls_attrs s @ [\<lparr>au_addr = addr, au_len = len, au_set = set_attrs, au_clear = clear_attrs\<rparr>]\<rparr>"

definition FreePages :: "nat \<Rightarrow> nat \<Rightarrow> load_state \<Rightarrow> load_state" where
  "FreePages addr pages s = s\<lparr>ls_pages := remove1 (addr, pages) (ls_pages s)\<rparr>"

section \<open>Verification before loading\<close>

text \<open>The first part of both functions. The context is the one that the header gives, or that the hash
  completes.\<close>

definition verify_and_measure ::
    "'w efi_rt \<Rightarrow> 'w \<Rightarrow> load_env \<Rightarrow> ('h, 'g) digests \<Rightarrow> buf \<Rightarrow> nat \<Rightarrow> bool \<Rightarrow> vstate
      \<Rightarrow> ((efi_status + pe_context) \<times> vstate) option" where
  "verify_and_measure rt w e cr d datasize parent_verified s = do {
     hdr \<leftarrow> read_header (le_pe e) d datasize True;
     case hdr of
       Inl st \<Rightarrow> Some (Inl st, s)
     | Inr c \<Rightarrow> do {
         (st, c1, s1) \<leftarrow> (if secure_mode rt (le_insecure e) w then
             verify_buffer rt w (le_v e) cr (le_sbat e) (in_protocol (le_pe e)) (le_data e) d datasize c
               parent_verified s
           else Some (EFI_SUCCESS, c, s));
         if EFI_ERROR st then Some (Inl st, s1)
         else if parent_verified then Some (Inr c1, s1)
         else do {
           (h, p) \<leftarrow> generate_hash cr (vpool s1) d datasize c1;
           case h of
             Inl st \<Rightarrow> Some (Inl st, s1\<lparr>vpool := p\<rparr>)
           | Inr (c2, sha256hash, sha1hash) \<Rightarrow>
               Some (Inr c2, log_event (LogPe (take datasize d) (ImageAddr c2) sha1hash) (s1\<lparr>vpool := p\<rparr>))
         }
       }
   }"

definition verify_image ::
    "'w efi_rt \<Rightarrow> 'w \<Rightarrow> load_env \<Rightarrow> ('h, 'g) digests \<Rightarrow> buf \<Rightarrow> nat \<Rightarrow> vstate \<Rightarrow> (efi_status \<times> vstate) option" where
  "verify_image rt w e cr d datasize s = do {
     (r, s1) \<leftarrow> verify_and_measure rt w e cr d datasize False s;
     Some (case r of Inl st \<Rightarrow> st | Inr c \<Rightarrow> EFI_SUCCESS, s1)
   }"

section \<open>The sections\<close>

text \<open>The range of the relocation table in the image; the sum is computed in 32 bits.\<close>

definition reloc_range :: "buf \<Rightarrow> pe_context \<Rightarrow> (nat option \<times> nat option) option" where
  "reloc_range d c = do {
     va \<leftarrow> Dir_VirtualAddress d (RelocDir c);
     sz \<leftarrow> Dir_Size d (RelocDir c);
     Some (image_offset (ImageSize c) va, image_offset (ImageSize c) (sub32 (add32 va sz) 1))
   }"

definition holds_entry :: "pe_context \<Rightarrow> section_header \<Rightarrow> bool" where
  "holds_entry c sec \<longleftrightarrow> sh_VirtualAddress sec \<le> EntryPoint c \<and>
     sub32 (add32 (sh_VirtualAddress sec) (sh_VirtualSize sec)) 1 > EntryPoint c"

definition skipped :: "section_header \<Rightarrow> bool" where
  "skipped sec \<longleftrightarrow> has_flag sec EFI_IMAGE_SCN_MEM_DISCARDABLE \<and> sh_VirtualSize sec = 0 \<or>
     \<not> has_flag sec EFI_IMAGE_SCN_MEM_READ"

definition write_execute :: "section_header \<Rightarrow> bool" where
  "write_execute sec \<longleftrightarrow> has_flag sec EFI_IMAGE_SCN_MEM_WRITE \<and> has_flag sec EFI_IMAGE_SCN_MEM_EXECUTE"

text \<open>Whether a \<^verbatim>\<open>.reloc\<close> section agrees with the directory. An end of NULL is lower than any address.\<close>

definition reloc_section_ok :: "pe_context \<Rightarrow> nat option \<times> nat option \<Rightarrow> section_header \<Rightarrow> bool" where
  "reloc_section_ok c rel sec \<longleftrightarrow> sh_SizeOfRawData sec \<noteq> 0 \<and> sh_VirtualSize sec \<noteq> 0 \<and>
     section_base (ImageSize c) sec \<noteq> None \<and> section_end (ImageSize c) sec \<noteq> None \<and>
     fst rel = section_base (ImageSize c) sec \<and> \<not> ptr_less (section_end (ImageSize c) sec) (snd rel)"

text \<open>The copy of one section.\<close>

definition copy_section :: "pe_context \<Rightarrow> buf \<Rightarrow> section_header \<Rightarrow> nat \<Rightarrow> buf \<Rightarrow> (efi_status + buf) option" where
  "copy_section c d sec base mem =
     (if has_flag sec EFI_IMAGE_SCN_CNT_UNINITIALIZED_DATA then do {
        mem' \<leftarrow> wrn mem base (replicate (sh_VirtualSize sec) 0);
        Some (Inr mem')
      } else if sh_PointerToRawData sec < SizeOfHeaders c then Some (Inl EFI_UNSUPPORTED)
      else
        let sz = min (sh_VirtualSize sec) (sh_SizeOfRawData sec) in do {
          mem1 \<leftarrow> (if sz > 0 then do { x \<leftarrow> rdn d (sh_PointerToRawData sec) sz; wrn mem base x } else Some mem);
          mem2 \<leftarrow> (if sz < sh_VirtualSize sec then wrn mem1 (base + sz) (replicate (sh_VirtualSize sec - sz) 0)
                   else Some mem1);
          Some (Inr mem2)
        })"

text \<open>One step of the first loop: the memory, the number of sections that hold the entry point and the
  relocation section found so far.\<close>

definition load_section ::
    "pe_env \<Rightarrow> pe_context \<Rightarrow> buf \<Rightarrow> nat option \<times> nat option \<Rightarrow> section_header \<Rightarrow> buf \<times> nat \<times> section_header option
      \<Rightarrow> (efi_status + buf \<times> nat \<times> section_header option) option" where
  "load_section pe c d rel sec st =
     (case st of (mem, found, RelocSection) \<Rightarrow>
        if skipped sec then Some (Inr st)
        else if \<not> has_flag sec EFI_IMAGE_SCN_MEM_DISCARDABLE \<and> write_execute sec \<and>
                mok_policy pe AND MOK_POLICY_REQUIRE_NX \<noteq> 0 then Some (Inl EFI_UNSUPPORTED)
        else
          let base = section_base (ImageSize c) sec;
              end' = section_end (ImageSize c) sec;
              found' = (if holds_entry c sec then found + 1 else found);
              reloc = sh_Name sec = lit ''.reloc'' @ [0, 0]
          in if ptr_less end' base then Some (Inl EFI_UNSUPPORTED)
             else if reloc \<and> (RelocSection \<noteq> None \<or> \<not> reloc_section_ok c rel sec) then Some (Inl EFI_UNSUPPORTED)
             else
               let RelocSection' = (if reloc then Some sec else RelocSection)
               in if has_flag sec EFI_IMAGE_SCN_MEM_DISCARDABLE then Some (Inr (mem, found', RelocSection'))
                  else case base of
                    None \<Rightarrow> Some (Inl EFI_UNSUPPORTED)
                  | Some b \<Rightarrow>
                      if end' = None then Some (Inl EFI_UNSUPPORTED)
                      else if \<not> has_flag sec EFI_IMAGE_SCN_CNT_UNINITIALIZED_DATA \<and>
                              (sh_VirtualAddress sec < SizeOfHeaders c \<or> sh_PointerToRawData sec < SizeOfHeaders c) then
                        Some (Inl EFI_UNSUPPORTED)
                      else bindE (copy_section c d sec b mem) (\<lambda>mem'. Some (Inr (mem', found', RelocSection'))))"

function load_sections ::
    "pe_env \<Rightarrow> pe_context \<Rightarrow> buf \<Rightarrow> nat option \<times> nat option \<Rightarrow> nat \<Rightarrow> buf \<times> nat \<times> section_header option
      \<Rightarrow> (efi_status + buf \<times> nat \<times> section_header option) option" where
  "load_sections pe c d rel i st =
     (if \<not> i < NumberOfSections c then Some (Inr st)
      else do {
        first \<leftarrow> FirstSection c;
        sec \<leftarrow> read_section d (first + 40 * i);
        bindE (load_section pe c d rel sec st) (load_sections pe c d rel (i + 1))
      })"
  by pat_completeness auto
termination
  by (relation "measure (\<lambda>(pe, c, d, rel, i, st). NumberOfSections c - i)") auto

declare load_sections.simps [simp del]

section \<open>Permissions and the section cache\<close>

text \<open>The attributes of a section: those to set and those to clear.\<close>

definition section_attrs :: "section_header \<Rightarrow> nat \<times> nat" where
  "section_attrs sec =
     (MEM_ATTR_R + (if has_flag sec EFI_IMAGE_SCN_MEM_WRITE then MEM_ATTR_W else 0) +
        (if has_flag sec EFI_IMAGE_SCN_MEM_EXECUTE then MEM_ATTR_X else 0),
      (if has_flag sec EFI_IMAGE_SCN_MEM_WRITE then 0 else MEM_ATTR_W) +
        (if has_flag sec EFI_IMAGE_SCN_MEM_EXECUTE then 0 else MEM_ATTR_X))"

definition cacheable :: "section_header \<Rightarrow> bool" where
  "cacheable sec \<longleftrightarrow>
     (has_flag sec EFI_IMAGE_SCN_CNT_CODE \<or> has_flag sec EFI_IMAGE_SCN_CNT_INITIALIZED_DATA) \<and>
     has_flag sec EFI_IMAGE_SCN_MEM_READ"

text \<open>The address of a pointer into the image; NULL is 0.\<close>

definition ptr_addr :: "nat \<Rightarrow> nat option \<Rightarrow> nat" where
  "ptr_addr buffer x = (case x of None \<Rightarrow> 0 | Some i \<Rightarrow> buffer + i)"

text \<open>One step of the second loop. Hashing memory at NULL has no defined result.\<close>

definition protect_section ::
    "'h hash_alg \<Rightarrow> pe_context \<Rightarrow> nat \<Rightarrow> nat \<Rightarrow> buf \<Rightarrow> bool \<Rightarrow> section_header \<Rightarrow> load_state
      \<Rightarrow> (efi_status \<times> load_state) option" where
  "protect_section H c image_handle buffer mem parent_verified sec s =
     (if skipped sec then Some (EFI_SUCCESS, s)
      else
        let base = section_base (ImageSize c) sec;
            end' = section_end (ImageSize c) sec;
            raw_length = add64 (sub64 (ptr_addr buffer end') (ptr_addr buffer base)) 1;
            s1 = update_mem_attrs_log (ptr_addr buffer base) (ALIGN_VALUE raw_length PAGE_SIZE)
              (fst (section_attrs sec)) (snd (section_attrs sec)) s
        in if cacheable sec \<and> \<not> parent_verified then do {
             b \<leftarrow> base;
             x \<leftarrow> rdn mem b raw_length;
             case cache_section H (vpool (ls_v s1)) image_handle (sh_Name sec) x (ls_cache s1) of
               (st, cache, p) \<Rightarrow> Some (st, s1\<lparr>ls_cache := cache, ls_v := (ls_v s1)\<lparr>vpool := p\<rparr>\<rparr>)
           } else Some (EFI_SUCCESS, s1))"

function protect_sections ::
    "'h hash_alg \<Rightarrow> pe_context \<Rightarrow> buf \<Rightarrow> nat \<Rightarrow> nat \<Rightarrow> buf \<Rightarrow> bool \<Rightarrow> nat \<Rightarrow> load_state
      \<Rightarrow> (efi_status \<times> load_state) option" where
  "protect_sections H c d image_handle buffer mem parent_verified i s =
     (if \<not> i < NumberOfSections c then Some (EFI_SUCCESS, s)
      else do {
        first \<leftarrow> FirstSection c;
        sec \<leftarrow> read_section d (first + 40 * i);
        (st, s1) \<leftarrow> protect_section H c image_handle buffer mem parent_verified sec s;
        if EFI_ERROR st then Some (st, s1)
        else protect_sections H c d image_handle buffer mem parent_verified (i + 1) s1
      })"
  by pat_completeness auto
termination
  by (relation "measure (\<lambda>(H, c, d, image_handle, buffer, mem, parent_verified, i, s). NumberOfSections c - i)") auto

declare protect_sections.simps [simp del]

section \<open>handle\_image\<close>

text \<open>What a successful call returns, besides the allocation in the state: the memory from \<^verbatim>\<open>buffer\<close> on and
  the address of the entry point.\<close>

record load_result =
  lr_buffer :: nat
  lr_mem :: buf
  lr_entry_point :: nat
  lr_alloc_address :: nat
  lr_alloc_pages :: nat
  lr_alloc_alignment :: nat

text \<open>The number of bytes to allocate: a sum of 64 bits that is stored in 32.\<close>

definition alloc_size :: "pe_context \<Rightarrow> nat" where
  "alloc_size c = ALIGN_VALUE (ImageSize c + SectionAlignment c) PAGE_SIZE mod 2 ^ 32"

text \<open>The copy of the headers and the sections, and the relocation. The result is the memory and the number
  of sections that hold the entry point.\<close>

definition load_contents ::
    "pe_env \<Rightarrow> pe_context \<Rightarrow> buf \<Rightarrow> nat \<Rightarrow> buf \<Rightarrow> (efi_status + buf \<times> nat) option" where
  "load_contents pe c d buffer mem = do {
     headers \<leftarrow> rdn d 0 (SizeOfHeaders c);
     mem1 \<leftarrow> wrn mem 0 headers;
     if image_offset (ImageSize c) (EntryPoint c) = None then Some (Inl EFI_UNSUPPORTED)
     else do {
       rel \<leftarrow> reloc_range d c;
       bindE (load_sections pe c d rel 0 (mem1, 0, None)) (\<lambda>(mem2, found, RelocSection).
         if NumberOfRvaAndSizes c \<le> EFI_IMAGE_DIRECTORY_ENTRY_BASERELOC then Some (Inl EFI_UNSUPPORTED)
         else do {
           sz \<leftarrow> Dir_Size d (RelocDir c);
           case RelocSection of
             None \<Rightarrow> Some (Inr (mem2, found))
           | Some sec \<Rightarrow>
               if sz = 0 then Some (Inr (mem2, found))
               else do {
                 (st, mem3) \<leftarrow> relocate_coff c sec d buffer mem2;
                 Some (if EFI_ERROR st then Inl st else Inr (mem3, found))
               }
         })
     }
   }"

definition handle_image ::
    "'w efi_rt \<Rightarrow> 'w \<Rightarrow> load_env \<Rightarrow> ('h, 'g) digests \<Rightarrow> buf \<Rightarrow> nat \<Rightarrow> nat \<Rightarrow> bool \<Rightarrow> load_state
      \<Rightarrow> ((efi_status + load_result) \<times> load_state) option" where
  "handle_image rt w e cr d datasize image_handle parent_verified s = do {
     (r, v) \<leftarrow> verify_and_measure rt w e cr d datasize parent_verified (ls_v s);
     let s0 = s\<lparr>ls_v := v\<rparr> in
     case r of
       Inl st \<Rightarrow> Some (Inl st, s0)
     | Inr c \<Rightarrow>
         let alignment = (if SectionAlignment c = 0 then 4096 else SectionAlignment c);
             pages = alloc_size c div PAGE_SIZE
         in case le_AllocatePages e pages of
              None \<Rightarrow> Some (Inl EFI_OUT_OF_RESOURCES, s0)
            | Some (addr, memory) \<Rightarrow>
                let buffer = ALIGN_VALUE addr alignment;
                    mem = drop (sub64 buffer addr) memory;
                    s1 = update_mem_attrs_log buffer (alloc_size c) (MEM_ATTR_R + MEM_ATTR_W) MEM_ATTR_X
                      (s0\<lparr>ls_pages := (addr, pages) # ls_pages s0\<rparr>)
                in do {
                  loaded \<leftarrow> load_contents (le_pe e) c d buffer mem;
                  case loaded of
                    Inl st \<Rightarrow> Some (Inl st, FreePages addr pages s1)
                  | Inr (mem', found) \<Rightarrow> do {
                      (st, s2) \<leftarrow> protect_sections (fst cr) c d image_handle buffer mem' parent_verified 0 s1;
                      if EFI_ERROR st then Some (Inl st, FreePages addr pages s2)
                      else
                        let s3 = s2\<lparr>ls_li := \<lparr>li_ImageBase = buffer, li_ImageSize = ImageSize c,
                              li_LoadOptions = le_options e\<rparr>\<rparr>
                        in if found \<noteq> 1 then
                             Some (Inl EFI_UNSUPPORTED, FreePages addr pages
                               (s3\<lparr>ls_cache := flush_cached_sections image_handle (ls_cache s3)\<rparr>))
                           else
                             Some (Inr \<lparr>lr_buffer = buffer, lr_mem = mem', lr_entry_point = buffer + EntryPoint c,
                                 lr_alloc_address = addr, lr_alloc_pages = pages, lr_alloc_alignment = alignment\<rparr>, s3)
                    }
                }
   }"

section \<open>The section table as a list\<close>

definition section_list :: "buf \<Rightarrow> pe_context \<Rightarrow> section_header list \<Rightarrow> bool" where
  "section_list d c secs \<longleftrightarrow> length secs = NumberOfSections c \<and>
     (\<forall>i < length secs. \<exists>first. FirstSection c = Some first \<and> read_section d (first + 40 * i) = Some (secs ! i))"

lemma section_list_ex:
  assumes "\<And>i. i < NumberOfSections c \<Longrightarrow> \<exists>first sec. FirstSection c = Some first \<and> read_section d (first + 40 * i) = Some sec"
  shows "\<exists>secs. section_list d c secs"
proof -
  let ?s = "\<lambda>i. the (read_section d (the (FirstSection c) + 40 * i))"
  have "section_list d c (map ?s [0..<NumberOfSections c])"
    using assms by (fastforce simp: section_list_def)
  then show ?thesis ..
qed

lemma section_list_in:
  assumes "section_list d c secs" and "sec \<in> set secs"
  shows "\<exists>k. read_section d k = Some sec"
proof -
  obtain i where "i < length secs" "sec = secs ! i" using assms(2) by (metis in_set_conv_nth)
  then show ?thesis using assms(1) by (auto simp: section_list_def)
qed

lemma read_section_bounds:
  "read_section d k = Some sec \<Longrightarrow> sh_VirtualAddress sec < 2 ^ 32 \<and> sh_VirtualSize sec < 2 ^ 32 \<and>
    sh_SizeOfRawData sec < 2 ^ 32 \<and> sh_PointerToRawData sec < 2 ^ 32"
  by (auto simp: read_section_def bind_Some_iff dest!: rd32_bound)

fun foldE :: "('x \<Rightarrow> 'a \<Rightarrow> (efi_status + 'a) option) \<Rightarrow> 'x list \<Rightarrow> 'a \<Rightarrow> (efi_status + 'a) option" where
  "foldE f [] s = Some (Inr s)"
| "foldE f (x # xs) s = bindE (f x s) (foldE f xs)"

lemma load_sections_fold:
  assumes "section_list d c secs" and "i \<le> length secs"
  shows "load_sections pe c d rel i st = foldE (load_section pe c d rel) (drop i secs) st"
  using assms(2)
proof (induction "length secs - i" arbitrary: i st)
  case 0
  then show ?case using assms(1) by (subst load_sections.simps) (simp add: section_list_def)
next
  case (Suc m)
  then have i: "i < length secs" by simp
  obtain first where "FirstSection c = Some first" "read_section d (first + 40 * i) = Some (secs ! i)"
    using assms(1) i by (auto simp: section_list_def)
  moreover have "load_sections pe c d rel (Suc i) = foldE (load_section pe c d rel) (drop (Suc i) secs)"
    using Suc.hyps i by (intro ext) simp
  ultimately show ?case
    using i assms(1) by (subst load_sections.simps) (simp add: section_list_def Cons_nth_drop_Suc [symmetric])
qed

fun foldS :: "('x \<Rightarrow> 's \<Rightarrow> (efi_status \<times> 's) option) \<Rightarrow> 'x list \<Rightarrow> 's \<Rightarrow> (efi_status \<times> 's) option" where
  "foldS f [] s = Some (EFI_SUCCESS, s)"
| "foldS f (x # xs) s = do { (st, s1) \<leftarrow> f x s; if EFI_ERROR st then Some (st, s1) else foldS f xs s1 }"

lemma protect_sections_fold:
  assumes "section_list d c secs" and "i \<le> length secs"
  shows "protect_sections H c d h buffer mem pv i s =
    foldS (protect_section H c h buffer mem pv) (drop i secs) s"
  using assms(2)
proof (induction "length secs - i" arbitrary: i s)
  case 0
  then show ?case using assms(1) by (subst protect_sections.simps) (simp add: section_list_def)
next
  case (Suc m)
  then have i: "i < length secs" by simp
  obtain first where "FirstSection c = Some first" "read_section d (first + 40 * i) = Some (secs ! i)"
    using assms(1) i by (auto simp: section_list_def)
  moreover have "protect_sections H c d h buffer mem pv (Suc i) =
      foldS (protect_section H c h buffer mem pv) (drop (Suc i) secs)"
    using Suc.hyps i by (intro ext) simp
  ultimately show ?case
    using i assms(1)
    by (subst protect_sections.simps) (simp add: section_list_def Cons_nth_drop_Suc [symmetric] cong: if_cong)
qed

text \<open>A loop that succeeds has read every section.\<close>

lemma load_sections_list:
  assumes "load_sections pe c d rel 0 st = Some (Inr st')"
  shows "\<exists>secs. section_list d c secs"
proof (rule section_list_ex)
  have "\<exists>first sec. FirstSection c = Some first \<and> read_section d (first + 40 * j) = Some sec"
    if "load_sections pe c d rel i st = Some (Inr st')" "i \<le> j" "j < NumberOfSections c" for i j st
    using that
  proof (induction "NumberOfSections c - i" arbitrary: i st)
    case (Suc m)
    then have i: "i < NumberOfSections c" by simp
    obtain first sec where f: "FirstSection c = Some first" "read_section d (first + 40 * i) = Some sec"
      using Suc.prems(1) i by (subst (asm) load_sections.simps) (auto simp: bind_Some_iff)
    obtain st1 where "load_sections pe c d rel (Suc i) st1 = Some (Inr st')"
      using Suc.prems(1) i f
      by (subst (asm) load_sections.simps) (auto simp: bindE_def split: option.splits sum.splits)
    then show ?case
      using Suc.hyps(1) [of "Suc i" st1] Suc.hyps(2) Suc.prems(2,3) f by (cases "i = j") auto
  qed simp
  then show "\<exists>first sec. FirstSection c = Some first \<and> read_section d (first + 40 * i) = Some sec"
    if "i < NumberOfSections c" for i
    using assms that by blast
qed

section \<open>What a section becomes\<close>

definition loads :: "section_header \<Rightarrow> bool" where
  "loads sec \<longleftrightarrow> \<not> skipped sec \<and> \<not> has_flag sec EFI_IMAGE_SCN_MEM_DISCARDABLE"

definition section_image :: "buf \<Rightarrow> section_header \<Rightarrow> buf" where
  "section_image d sec =
     (if has_flag sec EFI_IMAGE_SCN_CNT_UNINITIALIZED_DATA then replicate (sh_VirtualSize sec) 0
      else let sz = min (sh_VirtualSize sec) (sh_SizeOfRawData sec)
           in take sz (drop (sh_PointerToRawData sec) d) @ replicate (sh_VirtualSize sec - sz) 0)"

definition put_section :: "buf \<Rightarrow> section_header \<Rightarrow> buf \<Rightarrow> buf" where
  "put_section d sec mem = (if loads sec then put mem (sh_VirtualAddress sec) (section_image d sec) else mem)"

lemma put_section_simps:
  "loads sec \<Longrightarrow> put_section d sec mem = put mem (sh_VirtualAddress sec) (section_image d sec)"
  "\<not> loads sec \<Longrightarrow> put_section d sec mem = mem"
  by (simp_all add: put_section_def)

text \<open>The part of the data of a section that is copied is in the file.\<close>

definition raw_in :: "nat \<Rightarrow> section_header \<Rightarrow> bool" where
  "raw_in n sec \<longleftrightarrow> has_flag sec EFI_IMAGE_SCN_CNT_UNINITIALIZED_DATA \<or>
     min (sh_VirtualSize sec) (sh_SizeOfRawData sec) = 0 \<or>
     sh_PointerToRawData sec + min (sh_VirtualSize sec) (sh_SizeOfRawData sec) \<le> n"

lemma put_put:
  "i + length x + length y \<le> length b \<Longrightarrow> put (put b i x) (i + length x) y = put b i (x @ y)"
  by (cases x) (auto simp: put_def min_def ac_simps)

lemma put_Nil [simp]: "put b i [] = b"
  by (simp add: put_def)

lemma length_section_image: "raw_in (length d) sec \<Longrightarrow> length (section_image d sec) = sh_VirtualSize sec"
  by (auto simp: section_image_def Let_def raw_in_def)

lemma copy_section_exact:
  assumes "raw_in (length d) sec" and "base + sh_VirtualSize sec \<le> length mem"
    and "has_flag sec EFI_IMAGE_SCN_CNT_UNINITIALIZED_DATA \<or> SizeOfHeaders c \<le> sh_PointerToRawData sec"
  shows "copy_section c d sec base mem = Some (Inr (put mem base (section_image d sec)))"
proof -
  let ?vs = "sh_VirtualSize sec" and ?sz = "min (sh_VirtualSize sec) (sh_SizeOfRawData sec)"
  let ?p = "sh_PointerToRawData sec"
  let ?x = "take ?sz (drop ?p d)"
  show "copy_section c d sec base mem = Some (Inr (put mem base (section_image d sec)))"
  proof (cases "has_flag sec EFI_IMAGE_SCN_CNT_UNINITIALIZED_DATA")
    case True
    then show ?thesis using assms(2) by (simp add: copy_section_def section_image_def mem_simps)
  next
    case False
    then have p: "?sz = 0 \<or> ?p + ?sz \<le> length d" using assms(1) by (auto simp: raw_in_def)
    then have x: "length ?x = ?sz" by auto
    have 1: "(if ?sz > 0 then do { x \<leftarrow> rdn d ?p ?sz; wrn mem base x } else Some mem) = Some (put mem base ?x)"
      using p x assms(2) by (auto simp: rdn_def wrn_def)
    have 2: "(if ?sz < ?vs then wrn (put mem base ?x) (base + ?sz) (replicate (?vs - ?sz) 0) else Some (put mem base ?x)) =
        Some (put mem base (?x @ replicate (?vs - ?sz) 0))"
      using put_put [of base ?x "replicate (?vs - ?sz) 0" mem] x assms(2) by (auto simp: wrn_def)
    show ?thesis
      using False assms(3) 1 2 by (simp add: copy_section_def section_image_def Let_def)
  qed
qed

lemma copy_section_Inr:
  assumes "copy_section c d sec base mem = Some (Inr mem')"
  shows "raw_in (length d) sec \<and> base + sh_VirtualSize sec \<le> length mem \<and>
    (has_flag sec EFI_IMAGE_SCN_CNT_UNINITIALIZED_DATA \<or> SizeOfHeaders c \<le> sh_PointerToRawData sec) \<or>
    sh_VirtualSize sec = 0"
  using assms
  by (auto simp: copy_section_def raw_in_def Let_def bind_Some_iff rdn_def wrn_def split: if_splits)

lemma errs_copy_section [errs_intros]: "errs (copy_section c d sec base mem)"
  unfolding copy_section_def Let_def by (intro errs_intros) (simp_all add: status_simps)

lemma load_section_loaded:
  assumes r: "load_section pe c d rel sec (mem, found, rs) = Some (Inr (mem', found', rs'))"
    and sec: "read_section d k = Some sec" and img: "ImageSize c < 2 ^ 32"
  shows "loads sec \<Longrightarrow> section_in c sec"
    and "loads sec \<Longrightarrow> mem' = put mem (sh_VirtualAddress sec) (section_image d sec) \<and> raw_in (length d) sec \<and>
      sh_VirtualAddress sec + sh_VirtualSize sec \<le> length mem"
    and "\<not> loads sec \<Longrightarrow> mem' = mem"
    and "rs' = rs \<or> rs' = Some sec \<and> sh_Name sec = lit ''.reloc'' @ [0, 0]"
    and "\<not> skipped sec \<Longrightarrow> \<not> ptr_less (section_end (ImageSize c) sec) (section_base (ImageSize c) sec)"
    and "loads sec \<Longrightarrow> write_execute sec \<Longrightarrow> mok_policy pe AND MOK_POLICY_REQUIRE_NX = 0"
proof -
  note b = read_section_bounds [OF sec]
  show in_: "section_in c sec" if l: "loads sec"
  proof -
    have ns: "\<not> skipped sec" "\<not> has_flag sec EFI_IMAGE_SCN_MEM_DISCARDABLE" using l by (auto simp: loads_def)
    have e: "\<not> ptr_less (section_end (ImageSize c) sec) (section_base (ImageSize c) sec)"
        "section_base (ImageSize c) sec \<noteq> None" "section_end (ImageSize c) sec \<noteq> None"
        "has_flag sec EFI_IMAGE_SCN_CNT_UNINITIALIZED_DATA \<or>
          SizeOfHeaders c \<le> sh_VirtualAddress sec \<and> SizeOfHeaders c \<le> sh_PointerToRawData sec"
      using r ns by (auto simp: load_section_def Let_def split: if_splits option.splits)
    then show ?thesis
      using b img section_end_base [of "sh_VirtualAddress sec" "sh_VirtualSize sec" "ImageSize c"]
      by (auto simp: section_base_def section_end_def image_offset_def section_in_def split: if_splits)
  qed
  show "mem' = put mem (sh_VirtualAddress sec) (section_image d sec) \<and> raw_in (length d) sec \<and>
      sh_VirtualAddress sec + sh_VirtualSize sec \<le> length mem"
    if l: "loads sec"
  proof -
    have ns: "\<not> skipped sec" "\<not> has_flag sec EFI_IMAGE_SCN_MEM_DISCARDABLE" using l by (auto simp: loads_def)
    have "\<exists>b. section_base (ImageSize c) sec = Some b \<and> copy_section c d sec b mem = Some (Inr mem')"
      using r ns by (auto simp: load_section_def Let_def bindE_def split: if_splits option.splits sum.splits)
    then have cp: "copy_section c d sec (sh_VirtualAddress sec) mem = Some (Inr mem')"
      by (auto simp: section_base_def image_offset_def split: if_splits)
    have "raw_in (length d) sec" "sh_VirtualAddress sec + sh_VirtualSize sec \<le> length mem"
        "has_flag sec EFI_IMAGE_SCN_CNT_UNINITIALIZED_DATA \<or> SizeOfHeaders c \<le> sh_PointerToRawData sec"
      using copy_section_Inr [OF cp] in_ [OF l] by (auto simp: section_in_def)
    then show ?thesis using copy_section_exact [of d sec "sh_VirtualAddress sec" mem c] cp by simp
  qed
  show "\<not> loads sec \<Longrightarrow> mem' = mem"
    using r by (auto simp: load_section_def loads_def Let_def split: if_splits)
  show "rs' = rs \<or> rs' = Some sec \<and> sh_Name sec = lit ''.reloc'' @ [0, 0]"
    using r by (auto simp: load_section_def Let_def bindE_def split: if_splits option.splits sum.splits)
  show "\<not> skipped sec \<Longrightarrow> \<not> ptr_less (section_end (ImageSize c) sec) (section_base (ImageSize c) sec)"
    using r by (auto simp: load_section_def Let_def split: if_splits)
  show "loads sec \<Longrightarrow> write_execute sec \<Longrightarrow> mok_policy pe AND MOK_POLICY_REQUIRE_NX = 0"
    using r by (auto simp: load_section_def Let_def loads_def split: if_splits)
qed

text \<open>The whole loop.\<close>

lemma load_fold:
  assumes "foldE (load_section pe c d rel) secs (mem, found, rs) = Some (Inr (mem', found', rs'))"
    and "\<And>sec. sec \<in> set secs \<Longrightarrow> \<exists>k. read_section d k = Some sec" and "ImageSize c < 2 ^ 32"
  shows "mem' = fold (put_section d) secs mem \<and> length mem' = length mem \<and>
    (rs' = rs \<or> (\<exists>sec \<in> set secs. rs' = Some sec \<and> sh_Name sec = lit ''.reloc'' @ [0, 0])) \<and>
    (\<forall>sec \<in> set secs.
      (loads sec \<longrightarrow> section_in c sec \<and> raw_in (length d) sec \<and>
        sh_VirtualAddress sec + sh_VirtualSize sec \<le> length mem \<and>
        (write_execute sec \<longrightarrow> mok_policy pe AND MOK_POLICY_REQUIRE_NX = 0)) \<and>
      (\<not> skipped sec \<longrightarrow> \<not> ptr_less (section_end (ImageSize c) sec) (section_base (ImageSize c) sec)))"
  using assms(1,2)
proof (induction secs arbitrary: mem found rs)
  case Nil
  then show ?case by simp
next
  case (Cons sec secs)
  obtain mem1 f1 rs1 where s: "load_section pe c d rel sec (mem, found, rs) = Some (Inr (mem1, f1, rs1))"
    and rest: "foldE (load_section pe c d rel) secs (mem1, f1, rs1) = Some (Inr (mem', found', rs'))"
    using Cons.prems(1) by (auto simp: bindE_def split: option.splits sum.splits)
  obtain k where k: "read_section d k = Some sec" using Cons.prems(2) by auto
  note l = load_section_loaded [OF s k assms(3)]
  have m1: "mem1 = put_section d sec mem" using l(2,3) by (auto simp: put_section_def)
  moreover have "length mem1 = length mem"
    using l(2,3) by (cases "loads sec") (auto simp: length_section_image)
  ultimately show ?case
    using Cons.IH [OF rest] Cons.prems(2) l by (simp, blast)
qed

text \<open>The bytes of a section that no later section overlaps.\<close>

definition sections_apart :: "section_header \<Rightarrow> section_header \<Rightarrow> bool" where
  "sections_apart x y \<longleftrightarrow> sh_VirtualAddress x + sh_VirtualSize x \<le> sh_VirtualAddress y \<or>
     sh_VirtualAddress y + sh_VirtualSize y \<le> sh_VirtualAddress x"

definition section_bytes :: "section_header \<Rightarrow> buf \<Rightarrow> buf" where
  "section_bytes sec mem = take (sh_VirtualSize sec) (drop (sh_VirtualAddress sec) mem)"

lemma section_bytes_put:
  assumes "sh_VirtualAddress x + sh_VirtualSize x \<le> length mem" and "length s = sh_VirtualSize x"
  shows "section_bytes x (put mem (sh_VirtualAddress x) s) = s"
    and "sections_apart x y \<Longrightarrow> sh_VirtualAddress y + sh_VirtualSize y \<le> length mem \<Longrightarrow>
      section_bytes y (put mem (sh_VirtualAddress x) s) = section_bytes y mem"
proof -
  show "section_bytes x (put mem (sh_VirtualAddress x) s) = s"
    using assms by (simp add: section_bytes_def put_def)
  show "section_bytes y (put mem (sh_VirtualAddress x) s) = section_bytes y mem"
    if "sections_apart x y" "sh_VirtualAddress y + sh_VirtualSize y \<le> length mem"
    using that assms
    by (intro nth_equalityI) (auto simp: section_bytes_def sections_apart_def nth_put)
qed

lemma fold_put_section:
  assumes "\<And>sec. sec \<in> set secs \<Longrightarrow> loads sec \<Longrightarrow>
      raw_in (length d) sec \<and> sh_VirtualAddress sec + sh_VirtualSize sec \<le> length mem"
    and "i < length secs" and "loads (secs ! i)"
    and "\<And>j. i < j \<Longrightarrow> j < length secs \<Longrightarrow> loads (secs ! j) \<Longrightarrow> sections_apart (secs ! j) (secs ! i)"
  shows "section_bytes (secs ! i) (fold (put_section d) secs mem) = section_image d (secs ! i)"
  using assms
proof (induction secs arbitrary: mem i rule: rev_induct)
  case Nil
  then show ?case by simp
next
  case (snoc x xs)
  have len: "length (fold (put_section d) ys mem) = length mem" if "set ys \<subseteq> set (xs @ [x])" for ys
    using that snoc.prems(1)
  proof (induction ys arbitrary: mem)
    case (Cons y ys)
    have "length (put_section d y mem) = length mem"
      using Cons.prems by (auto simp: put_section_def length_section_image)
    then show ?case using Cons by simp
  qed simp
  have lx: "length (fold (put_section d) xs mem) = length mem" by (rule len) auto
  have x: "loads x \<Longrightarrow> raw_in (length d) x \<and> sh_VirtualAddress x + sh_VirtualSize x \<le> length mem"
    using snoc.prems(1) by simp
  show ?case
  proof (cases "i < length xs")
    case True
    have i: "raw_in (length d) (xs ! i) \<and> sh_VirtualAddress (xs ! i) + sh_VirtualSize (xs ! i) \<le> length mem"
      using snoc.prems(1,3) True by (simp add: nth_append)
    have "sections_apart (xs ! j) (xs ! i)" if "i < j" "j < length xs" "loads (xs ! j)" for j
      using snoc.prems(4) [of j] that True by (simp add: nth_append)
    then have "section_bytes (xs ! i) (fold (put_section d) xs mem) = section_image d (xs ! i)"
      using snoc.prems(1,3) True by (intro snoc.IH) (auto simp: nth_append)
    moreover have "sections_apart x (xs ! i)" if "loads x"
      using snoc.prems(4) [of "length xs"] True that by (simp add: nth_append)
    ultimately show ?thesis
      using True x i lx section_bytes_put(2) [of x "fold (put_section d) xs mem" "section_image d x" "xs ! i"]
      by (cases "loads x") (auto simp: nth_append put_section_simps length_section_image)
  next
    case False
    then have "i = length xs" using snoc.prems(2) by simp
    then show ?thesis
      using snoc.prems(3) x lx section_bytes_put(1) [of x "fold (put_section d) xs mem" "section_image d x"]
      by (simp add: put_section_simps length_section_image)
  qed
qed

section \<open>What the hash guarantees\<close>

text \<open>An image that could be hashed lies in the file: its headers and the data of all its sections.\<close>

lemma generate_hash_Inr:
  assumes "generate_hash cr p d n c = Some (Inr (c', digests), p')"
  shows "\<exists>ctx off. e_magic d = Some EFI_IMAGE_DOS_SIGNATURE \<and> hash_headers cr d n c = Some (Inr ctx) \<and>
    hash_first_section d n off c = Some (Inr c') \<and> hash_contents cr d n c' ctx = Some (Inr digests)"
proof -
  have n: "\<not> n \<le> 64" using assms by (auto simp: generate_hash_def)
  obtain off where m: "e_magic d = Some EFI_IMAGE_DOS_SIGNATURE" "e_lfanew d = Some off"
    using assms n by (auto simp: generate_hash_def bind_Some_iff split: if_splits)
  obtain a1 p1 a2 p2 where al: "AllocatePool p (h_size (fst cr)) = (a1, p1)" "AllocatePool p1 (h_size (snd cr)) = (a2, p2)"
    by (metis surj_pair)
  have ok: "a1" "a2" using assms n m al by (auto simp: generate_hash_def split: if_splits)
  obtain hh where "hash_headers cr d n c = Some hh" using assms n m al ok by (auto simp: generate_hash_def bind_Some_iff)
  then obtain ctx where h: "hash_headers cr d n c = Some (Inr ctx)"
    using assms n m al ok by (cases hh) (auto simp: generate_hash_def)
  obtain ff where "hash_first_section d n off c = Some ff"
    using assms n m al ok h by (auto simp: generate_hash_def bind_Some_iff)
  then obtain c1 where f: "hash_first_section d n off c = Some (Inr c1)"
    using assms n m al ok h by (cases ff) (auto simp: generate_hash_def)
  obtain r where r: "hash_contents cr d n c1 ctx = Some r" "map_sum id (Pair c1) r = Inr (c', digests)"
    using assms n m al ok h f by (auto simp: generate_hash_def AllocatePool_def bind_Some_iff split: if_splits)
  then have "c1 = c'" "r = Inr digests" by (cases r; simp)+
  then show ?thesis using m h f r by blast
qed

lemma verify_buffer_hashed:
  assumes "verify_buffer rt w v cr sbat ip addr d n c pv s = Some (st, c', s')" and "\<not> EFI_ERROR st"
  shows "\<exists>h p. generate_hash cr (vpool s) d n c = Some (Inr (c', h), p)"
proof -
  obtain st1 s1 where a: "verify_buffer_authenticode rt w v cr d n c pv s = Some (st1, c', s1)" "\<not> EFI_ERROR st1"
    using assms by (auto simp: verify_buffer_def bind_Some_iff split: if_splits)
  have n: "\<not> n \<ge> 2 ^ 31" using a by (auto simp: verify_buffer_authenticode_def status_simps)
  obtain h p where "generate_hash cr (vpool s) d n c = Some (h, p)"
    using a n by (auto simp: verify_buffer_authenticode_def bind_Some_iff)
  then obtain c1 x y where g: "generate_hash cr (vpool s) d n c = Some (Inr (c1, x, y), p)"
    using a n generate_hash_error [of cr "vpool s" d n c] by (cases h) (auto simp: verify_buffer_authenticode_def)
  moreover have "c1 = c'"
    using a(1) n g by (auto simp: verify_buffer_authenticode_def bind_Some_iff split: if_splits option.splits)
  ultimately show ?thesis by blast
qed

lemma hash_sections_in:
  assumes "hash_sections cr d n secs hashed ctx = Some (Inr r)" and "n < 2 ^ 32" and "sec \<in> set secs"
  shows "sh_SizeOfRawData sec = 0 \<or> sh_PointerToRawData sec + sh_SizeOfRawData sec \<le> n"
  using assms
proof (induction secs arbitrary: hashed ctx)
  case (Cons x xs)
  have x: "sh_SizeOfRawData x = 0 \<or> sh_PointerToRawData x + sh_SizeOfRawData x \<le> n"
    using Cons.prems(1,2)
    by (auto simp: image_offset_def sub32_le split: if_splits)
  have "\<exists>hashed ctx. hash_sections cr d n xs hashed ctx = Some (Inr r)"
    using Cons.prems(1) by (cases ctx) (auto simp: image_offset_def split: if_splits dest!: bindE_InrD)
  then show ?case using Cons.IH Cons.prems(2,3) x by auto
qed simp

lemma sort_sections_in:
  assumes "sort_sections d n c hashed i summed table = Some (Inr (st, table'))" and "\<not> EFI_ERROR st"
  shows "set table \<subseteq> set table' \<and> (\<forall>j. i \<le> j \<and> j < NumberOfSections c \<longrightarrow>
    (\<exists>b e sec. get_section_vma j d c = Some (Inr (b, e, sec)) \<and> sec \<in> set table'))"
  using assms
proof (induction "NumberOfSections c - i" arbitrary: i summed table)
  case 0
  then show ?case by (subst (asm) sort_sections.simps) auto
next
  case (Suc m)
  then have i: "i < NumberOfSections c" by simp
  have "\<exists>r. get_section_vma i d c = Some r" using Suc.prems(1) i
    by (subst (asm) sort_sections.simps) (auto split: option.splits)
  then obtain b e sec where g: "get_section_vma i d c = Some (Inr (b, e, sec))"
    using Suc.prems i errs_get_section_vma [of i d c]
    by (subst (asm) sort_sections.simps) (auto split: sum.splits if_splits)
  then have rest: "sort_sections d n c hashed (Suc i) (add32 summed (sh_SizeOfRawData sec)) (insert_section sec table) =
      Some (Inr (st, table'))"
    using Suc.prems(1) i by (subst (asm) sort_sections.simps) (auto split: if_splits)
  have "m = NumberOfSections c - Suc i" using Suc.hyps(2) by simp
  note IH = Suc.hyps(1) [OF this rest Suc.prems(2)]
  have "set (insert_section sec table) = insert sec (set table)"
    using mset_insert_section [of sec table] by (metis set_mset_add_mset_insert set_mset_mset)
  then show ?case using IH g i by (auto simp: Suc_le_eq nat_less_le)
qed

lemma hash_contents_in:
  assumes "hash_contents cr d n c ctx = Some (Inr r)" and "n < 2 ^ 32" and "j < NumberOfSections c"
  shows "\<exists>b e sec. get_section_vma j d c = Some (Inr (b, e, sec)) \<and>
    (sh_SizeOfRawData sec = 0 \<or> sh_PointerToRawData sec + sh_SizeOfRawData sec \<le> n)"
proof -
  obtain st table where t: "sort_sections d n c (SizeOfHeaders c) 0 0 [] = Some (Inr (st, table))"
    and rest: "bindE (hash_sections cr d n (rev table) (SizeOfHeaders c) ctx) (\<lambda>(hashed, ctx).
     bindE (hash_to_secdir cr d n c hashed ctx) (\<lambda>(hashed, ctx).
     bindE (hash_rest cr d n c hashed ctx) (\<lambda>ctx.
     bindE (or_resources (digest_final cr ctx)) (\<lambda>digests.
       Some (if EFI_ERROR st then Inl st else Inr digests))))) = Some (Inr r)"
    using assms(1) by (auto simp: hash_contents_def dest!: bindE_InrD)
  obtain hashed ctx' where h: "hash_sections cr d n (rev table) (SizeOfHeaders c) ctx = Some (Inr (hashed, ctx'))"
    using bindE_InrD [OF rest] by auto
  have "\<not> EFI_ERROR st" using rest by (auto dest!: bindE_InrD split: if_splits)
  then show ?thesis
    using sort_sections_in [OF t] hash_sections_in [OF h assms(2)] assms(3) by fastforce
qed

lemma hash_headers_in:
  assumes "hash_headers cr d n c = Some (Inr ctx)" and "SizeOfHeaders c < 2 ^ 32" and "n < 2 ^ 32"
    and "SecDir c + 8 \<le> n"
  shows "SizeOfHeaders c \<le> n"
proof (cases "SecDir c + 8 \<le> SizeOfHeaders c")
  case True
  then have "sub32 (SizeOfHeaders c) (SecDir c + 8) = SizeOfHeaders c - (SecDir c + 8)"
    using assms(2) by (simp add: sub32_le)
  then show ?thesis
    using assms(1) True
    by (auto simp: hash_headers_def Let_def hash_range_def dest!: bindE_InrD split: if_splits)
next
  case False
  then show ?thesis using assms(4) by simp
qed

text \<open>The files that the loader may copy from.\<close>

definition contents_in :: "buf \<Rightarrow> pe_context \<Rightarrow> bool" where
  "contents_in d c \<longleftrightarrow> SizeOfHeaders c \<le> length d \<and>
     (\<exists>secs. section_list d c secs \<and> list_all (raw_in (length d)) secs)"

definition load_ok :: "buf \<Rightarrow> pe_context \<Rightarrow> bool" where
  "load_ok d c \<longleftrightarrow> SecDir c + 8 \<le> length d \<and> RelocDir c + 8 \<le> length d \<and> SizeOfHeaders c \<le> ImageSize c \<and>
     ImageSize c < 2 ^ 32 \<and> 0 < SectionAlignment c \<and> SectionAlignment c < 2 ^ 32"

lemma load_ok_context: "context_ok d (length d) c \<Longrightarrow> load_ok d c"
  by (simp add: context_ok_def load_ok_def)

lemma generate_hash_in:
  assumes g: "generate_hash cr p d (length d) c = Some (Inr (c', digests), p')"
    and n: "length d < 2 ^ 32" and c: "load_ok d c"
  shows "contents_in d c'" and "load_ok d c'"
proof -
  obtain ctx off where h: "hash_headers cr d (length d) c = Some (Inr ctx)"
      "hash_first_section d (length d) off c = Some (Inr c')" "hash_contents cr d (length d) c' ctx = Some (Inr digests)"
    using generate_hash_Inr [OF g] by blast
  have f: "SecDir c' = SecDir c \<and> RelocDir c' = RelocDir c \<and> SizeOfHeaders c' = SizeOfHeaders c \<and>
      ImageSize c' = ImageSize c \<and> SectionAlignment c' = SectionAlignment c"
    using h(2) by (auto simp: hash_first_section_def bind_Some_iff Let_def split: if_splits option.splits)
  then show "load_ok d c'" using c by (simp add: load_ok_def)
  have sz: "SizeOfHeaders c' \<le> length d"
    using hash_headers_in [OF h(1)] f c n by (simp add: load_ok_def)
  have vma: "\<exists>first sec. FirstSection c' = Some first \<and> read_section d (first + 40 * i) = Some sec \<and>
      (sh_SizeOfRawData sec = 0 \<or> sh_PointerToRawData sec + sh_SizeOfRawData sec \<le> length d)"
    if i: "i < NumberOfSections c'" for i
    using hash_contents_in [OF h(3) n i] i
    by (fastforce simp: get_section_vma_def bind_Some_iff Let_def split: option.splits if_splits)
  then obtain secs where s: "section_list d c' secs" using section_list_ex [of c' d] by blast
  have "raw_in (length d) (secs ! i)" if "i < length secs" for i
    using s vma [of i] that by (fastforce simp: section_list_def raw_in_def)
  then show "contents_in d c'" using sz s by (auto simp: contents_in_def list_all_length)
qed

lemma verify_and_measure_in:
  assumes v: "verify_and_measure rt w e cr d (length d) pv s = Some (Inr c, s')" and n: "length d < 2 ^ 32"
  shows "\<not> pv \<or> secure_mode rt (le_insecure e) w \<Longrightarrow> contents_in d c" and "load_ok d c"
proof -
  obtain h where "read_header (le_pe e) d (length d) True = Some h"
    using v by (auto simp: verify_and_measure_def bind_Some_iff)
  then obtain c0 where c0: "read_header (le_pe e) d (length d) True = Some (Inr c0)"
    using v by (cases h) (auto simp: verify_and_measure_def)
  have ok0: "load_ok d c0"
    using read_header_spec [of "length d" d "le_pe e" True] c0 by (auto intro: load_ok_context)
  obtain st c1 s1 where vb: "(if secure_mode rt (le_insecure e) w then
      verify_buffer rt w (le_v e) cr (le_sbat e) (in_protocol (le_pe e)) (le_data e) d (length d) c0 pv s
      else Some (EFI_SUCCESS, c0, s)) = Some (st, c1, s1)" and st: "\<not> EFI_ERROR st"
    using v c0 by (auto simp: verify_and_measure_def bind_Some_iff split: if_splits)
  have 1: "load_ok d c1 \<and> (secure_mode rt (le_insecure e) w \<longrightarrow> contents_in d c1)"
  proof (cases "secure_mode rt (le_insecure e) w")
    case True
    then obtain h p where "generate_hash cr (vpool s) d (length d) c0 = Some (Inr (c1, h), p)"
      using vb st verify_buffer_hashed by (metis (full_types))
    then show ?thesis using generate_hash_in [OF _ n ok0] by blast
  qed (use vb ok0 in simp)
  have run: "(if pv then Some (Inr c1, s1) else do {
      (h, p) \<leftarrow> generate_hash cr (vpool s1) d (length d) c1;
      case h of
        Inl st \<Rightarrow> Some (Inl st, s1\<lparr>vpool := p\<rparr>)
      | Inr (c2, sha256hash, sha1hash) \<Rightarrow>
          Some (Inr c2, log_event (LogPe (take (length d) d) (ImageAddr c2) sha1hash) (s1\<lparr>vpool := p\<rparr>)) }) =
      Some (Inr c, s')"
    using v c0 st unfolding verify_and_measure_def by (simp add: vb)
  have "(\<not> pv \<or> secure_mode rt (le_insecure e) w \<longrightarrow> contents_in d c) \<and> load_ok d c"
  proof (cases pv)
    case True
    then show ?thesis using run 1 by simp
  next
    case False
    obtain g p where g: "generate_hash cr (vpool s1) d (length d) c1 = Some (g, p)"
      using run False by (auto simp: bind_Some_iff)
    then obtain x y where "generate_hash cr (vpool s1) d (length d) c1 = Some (Inr (c, x, y), p)"
      using run False by (cases g) auto
    then show ?thesis using generate_hash_in [OF _ n] 1 by blast
  qed
  then show "\<not> pv \<or> secure_mode rt (le_insecure e) w \<Longrightarrow> contents_in d c" and "load_ok d c" by simp_all
qed

section \<open>The contents of the image\<close>

text \<open>The headers and the sections before the relocation, and the memory after it.\<close>

definition loaded_memory :: "buf \<Rightarrow> pe_context \<Rightarrow> section_header list \<Rightarrow> buf \<Rightarrow> buf" where
  "loaded_memory d c secs mem = fold (put_section d) secs (put mem 0 (take (SizeOfHeaders c) d))"

definition relocated :: "buf \<Rightarrow> pe_context \<Rightarrow> nat \<Rightarrow> section_header list \<Rightarrow> buf \<Rightarrow> buf \<Rightarrow> bool" where
  "relocated d c buffer secs mem mem' \<longleftrightarrow> mem' = mem \<or>
     (\<exists>sec \<in> set secs. \<exists>st. sh_Name sec = lit ''.reloc'' @ [0, 0] \<and>
        relocate_coff c sec d buffer mem = Some (st, mem') \<and> \<not> EFI_ERROR st)"

definition sections_loaded :: "pe_env \<Rightarrow> buf \<Rightarrow> pe_context \<Rightarrow> nat \<Rightarrow> section_header list \<Rightarrow> bool" where
  "sections_loaded pe d c n secs \<longleftrightarrow> section_list d c secs \<and>
     (\<forall>sec \<in> set secs.
      (loads sec \<longrightarrow> section_in c sec \<and> raw_in (length d) sec \<and>
        sh_VirtualAddress sec + sh_VirtualSize sec \<le> n \<and>
        (write_execute sec \<longrightarrow> mok_policy pe AND MOK_POLICY_REQUIRE_NX = 0)) \<and>
      (\<not> skipped sec \<longrightarrow> \<not> ptr_less (section_end (ImageSize c) sec) (section_base (ImageSize c) sec)))"

lemma load_contents_loaded:
  assumes r: "load_contents pe c d buffer mem = Some (Inr (mem', found))" and img: "ImageSize c < 2 ^ 32"
  shows "\<exists>secs. sections_loaded pe d c (length mem) secs \<and>
    length (loaded_memory d c secs mem) = length mem \<and> relocated d c buffer secs (loaded_memory d c secs mem) mem'"
proof -
  obtain hd where hd: "rdn d 0 (SizeOfHeaders c) = Some hd" using r by (auto simp: load_contents_def bind_Some_iff)
  obtain mem1 where m1: "wrn mem 0 hd = Some mem1" using r hd by (auto simp: load_contents_def bind_Some_iff)
  have mem1: "mem1 = put mem 0 (take (SizeOfHeaders c) d)" "length mem1 = length mem"
    using hd m1 by (auto simp: rdn_def wrn_def split: if_splits)
  have e: "image_offset (ImageSize c) (EntryPoint c) \<noteq> None"
    using r hd m1 by (cases "image_offset (ImageSize c) (EntryPoint c)") (auto simp: load_contents_def)
  obtain rel where rel: "reloc_range d c = Some rel" using r hd m1 e by (auto simp: load_contents_def bind_Some_iff)
  obtain mem2 f2 rs where l: "load_sections pe c d rel 0 (mem1, 0, None) = Some (Inr (mem2, f2, rs))"
    using r hd m1 e rel by (auto simp: load_contents_def dest!: bindE_InrD)
  obtain secs where secs: "section_list d c secs" using load_sections_list [OF l] by blast
  have "foldE (load_section pe c d rel) secs (mem1, 0, None) = Some (Inr (mem2, f2, rs))"
    using l load_sections_fold [OF secs, of 0] by simp
  note lf = load_fold [OF this section_list_in [OF secs] img]
  have mem2: "mem2 = loaded_memory d c secs mem" using lf mem1 by (simp add: loaded_memory_def)
  have "relocated d c buffer secs mem2 mem'"
    using r hd m1 e rel l lf
    by (auto simp: load_contents_def relocated_def bind_Some_iff split: if_splits option.splits)
  then show ?thesis
    using lf secs mem1 mem2 by (intro exI [of _ secs]) (auto simp: sections_loaded_def)
qed

lemma loaded_memory_section:
  assumes "sections_loaded pe d c (length mem) secs" and "SizeOfHeaders c \<le> length mem" "SizeOfHeaders c \<le> length d"
    and "i < length secs" and "loads (secs ! i)"
    and "\<And>j. i < j \<Longrightarrow> j < length secs \<Longrightarrow> loads (secs ! j) \<Longrightarrow> sections_apart (secs ! j) (secs ! i)"
  shows "section_bytes (secs ! i) (loaded_memory d c secs mem) = section_image d (secs ! i)"
  unfolding loaded_memory_def
  using assms by (intro fold_put_section) (auto simp: sections_loaded_def)

section \<open>Staying in bounds\<close>

lemma load_section_returns:
  assumes "read_section d k = Some sec" and "ImageSize c < 2 ^ 32" and "raw_in (length d) sec"
    and "ImageSize c \<le> length mem"
  shows "returns (load_section pe c d rel sec (mem, found, rs))"
proof -
  note b = read_section_bounds [OF assms(1)]
  have "returns (copy_section c d sec x mem)"
    if "section_base (ImageSize c) sec = Some x" "section_end (ImageSize c) sec \<noteq> None"
      "\<not> ptr_less (section_end (ImageSize c) sec) (section_base (ImageSize c) sec)"
      "\<not> (\<not> has_flag sec EFI_IMAGE_SCN_CNT_UNINITIALIZED_DATA \<and>
        (sh_VirtualAddress sec < SizeOfHeaders c \<or> sh_PointerToRawData sec < SizeOfHeaders c))" for x
  proof -
    have "x + sh_VirtualSize sec \<le> ImageSize c"
      using that b assms(2) section_end_base [of "sh_VirtualAddress sec" "sh_VirtualSize sec" "ImageSize c"]
      by (auto simp: section_base_def section_end_def image_offset_def split: if_splits)
    then show ?thesis
      using copy_section_exact [OF assms(3), of x mem c] that(4) assms(4) by (auto simp: returns_def)
  qed
  then show ?thesis
    unfolding load_section_def Let_def prod.case by (intro returns_intros) auto
qed

lemma load_fold_returns:
  assumes "\<And>sec. sec \<in> set secs \<Longrightarrow> (\<exists>k. read_section d k = Some sec) \<and> raw_in (length d) sec"
    and "ImageSize c < 2 ^ 32" and "ImageSize c \<le> length mem"
  shows "returns (foldE (load_section pe c d rel) secs (mem, found, rs))"
  using assms(1,3)
proof (induction secs arbitrary: mem found rs)
  case (Cons sec secs)
  obtain k where k: "read_section d k = Some sec" "raw_in (length d) sec"
    using Cons.prems(1) [of sec] by auto
  have "returns (foldE (load_section pe c d rel) secs st)"
    if "load_section pe c d rel sec (mem, found, rs) = Some (Inr st)" for st
  proof -
    obtain m f r where st: "st = (m, f, r)" by (cases st)
    have "length m = length mem"
      using load_section_loaded(2,3) [OF that [unfolded st] k(1) assms(2)]
      by (cases "loads sec") (auto simp: length_section_image)
    then show ?thesis using Cons.IH [of m f r] Cons.prems st by simp
  qed
  then show ?case
    unfolding foldE.simps by (rule returns_bindE [OF load_section_returns [OF k(1) assms(2) k(2) Cons.prems(2)]])
qed (simp add: returns_def)

text \<open>An image with a relocation table that names fields of the image, and without a discardable section
  outside the image that would be cached.\<close>

definition sections_ok :: "buf \<Rightarrow> pe_context \<Rightarrow> section_header list \<Rightarrow> bool" where
  "sections_ok d c secs \<longleftrightarrow>
     (\<forall>sec \<in> set secs.
        (sh_Name sec = lit ''.reloc'' @ [0, 0] \<longrightarrow> Dir_Size d (RelocDir c) = Some 0 \<or>
          (\<exists>tab. table_ok c sec d (ImageSize c) tab)) \<and>
        (cacheable sec \<and> \<not> skipped sec \<and> has_flag sec EFI_IMAGE_SCN_MEM_DISCARDABLE \<longrightarrow>
          sh_VirtualAddress sec < ImageSize c))"

lemma table_ok_mono: "table_ok c sec d n tab \<Longrightarrow> n \<le> n' \<Longrightarrow> table_ok c sec d n' tab"
  by (fastforce simp: table_ok_def list_all_iff block_ok_def fixup_in_def)

lemma load_contents_returns:
  assumes c: "contents_in d c" "load_ok d c" and secs: "section_list d c secs" "sections_ok d c secs"
    and m: "ImageSize c \<le> length mem"
  shows "returns (load_contents pe c d buffer mem)"
proof -
  have img: "ImageSize c < 2 ^ 32" "SizeOfHeaders c \<le> length d" "SizeOfHeaders c \<le> length mem"
      "RelocDir c + 8 \<le> length d"
    using c m by (auto simp: contents_in_def load_ok_def)
  have raw: "list_all (raw_in (length d)) secs"
  proof -
    obtain secs' where "section_list d c secs'" "list_all (raw_in (length d)) secs'"
      using c(1) by (auto simp: contents_in_def)
    moreover then have "secs' = secs"
      using secs(1) by (intro nth_equalityI) (auto simp: section_list_def)
    ultimately show ?thesis by simp
  qed
  have rel: "returns (reloc_range d c)" "returns (Dir_Size d (RelocDir c))"
    using img(4) unfolding reloc_range_def pe_reads by (auto intro!: returns_intros)
  have ls: "returns (load_sections pe c d rel 0 (mem1, 0, None))" if "length mem1 = length mem" for rel mem1
    using load_fold_returns [of secs d c mem1 pe rel 0 None] load_sections_fold [OF secs(1), of 0 pe rel]
      section_list_in [OF secs(1)] raw img(1) m that
    by (auto simp: list_all_iff)
  have rc: "returns (relocate_coff c sec d buffer mem2)"
    if l: "load_sections pe c d rel 0 (mem1, 0, None) = Some (Inr (mem2, f, Some sec))"
      "length mem1 = length mem" "Dir_Size d (RelocDir c) = Some sz" "sz \<noteq> 0" for rel mem1 mem2 f sec sz
  proof -
    have "foldE (load_section pe c d rel) secs (mem1, 0, None) = Some (Inr (mem2, f, Some sec))"
      using l(1) load_sections_fold [OF secs(1), of 0] by simp
    from load_fold [OF this section_list_in [OF secs(1)] img(1)]
    have "length mem2 = length mem" "sec \<in> set secs" "sh_Name sec = lit ''.reloc'' @ [0, 0]"
      using l(2) by auto
    then obtain tab where "table_ok c sec d (length mem2) tab"
      using secs(2) l(3,4) m table_ok_mono by (fastforce simp: sections_ok_def)
    then show ?thesis using relocate_coff_table by (simp add: returns_def)
  qed
  have hd: "rdn d 0 (SizeOfHeaders c) = Some (take (SizeOfHeaders c) d)" using img by (simp add: rdn_def)
  let ?mem1 = "put mem 0 (take (SizeOfHeaders c) d)"
  have m1: "wrn mem 0 (take (SizeOfHeaders c) d) = Some ?mem1" "length ?mem1 = length mem"
    using img by (simp_all add: wrn_def)
  show ?thesis
    unfolding load_contents_def hd bind.simps m1
    using rel ls [OF m1(2)] rc [OF _ m1(2)] by (auto intro!: returns_intros)
qed

lemma reloc_entries_length:
  "reloc_entries adjust orig fixup_base r_end r mem = Some (st, mem') \<Longrightarrow> length mem' = length mem"
proof (induction "r_end - r" arbitrary: r mem rule: less_induct)
  case less
  have "length m = length mem" if "reloc_fixup adjust k t mem = Some (Some m)" for k t m
    using that by (auto simp: reloc_fixup_def add_le_def bind_Some_iff wrn_def split: if_splits)
  moreover have "length mem' = length m"
    if "r < r_end" "reloc_entries adjust orig fixup_base r_end (r + 2) m = Some (st, mem')" for m
    using less.hyps [of "r + 2" m] that by simp
  ultimately show ?case
    using less.prems [unfolded reloc_entries.simps [of _ _ _ _ r mem]]
    by (auto split: if_splits option.splits)
qed

lemma relocate_coff_length:
  assumes "relocate_coff c sec d buffer mem = Some (st, mem')"
  shows "length mem' = length mem"
proof -
  have "length mem' = length mem" if "reloc_blocks adjust orig img dirsize rb_end rb mem = Some (st, mem')"
    for adjust orig img dirsize rb_end rb mem
    using that
  proof (induction "rb_end - rb" arbitrary: rb mem rule: less_induct)
    case less
    have "length mem' = length m"
      if "rb < rb_end" "block \<noteq> 0" "reloc_blocks adjust orig img dirsize rb_end (rb + block) m = Some (st, mem')"
      for m block
      using less.hyps [of "rb + block" m] that by simp
    then show ?case
      using less.prems [unfolded reloc_blocks.simps [of _ _ _ _ _ rb mem]]
      by (auto split: if_splits option.splits prod.splits dest!: reloc_entries_length)
  qed
  then show ?thesis
    using assms by (auto simp: relocate_coff_def bind_Some_iff Let_def split: option.splits if_splits)
qed

lemma protect_section_returns:
  assumes "\<not> skipped sec \<Longrightarrow> \<not> ptr_less (section_end (ImageSize c) sec) (section_base (ImageSize c) sec)"
    and "cacheable sec \<Longrightarrow> \<not> skipped sec \<Longrightarrow> sh_VirtualAddress sec < ImageSize c"
    and "ImageSize c \<le> length mem" and "buffer + ImageSize c < 2 ^ 64"
  shows "returns (protect_section H c h buffer mem pv sec s)"
proof (cases "cacheable sec \<and> \<not> skipped sec")
  case False
  then show ?thesis by (auto simp: protect_section_def Let_def returns_def)
next
  case True
  then have b: "section_base (ImageSize c) sec = Some (sh_VirtualAddress sec)"
    using assms(2) by (simp add: section_base_def image_offset_def)
  then obtain e where e: "section_end (ImageSize c) sec = Some e" "sh_VirtualAddress sec \<le> e"
    using assms(1) True by (cases "section_end (ImageSize c) sec") auto
  then have "e < ImageSize c" by (auto simp: section_end_def image_offset_def split: if_splits)
  then have "add64 (sub64 (ptr_addr buffer (section_end (ImageSize c) sec))
      (ptr_addr buffer (section_base (ImageSize c) sec))) 1 = e - sh_VirtualAddress sec + 1"
    using b e assms(4) by (simp add: ptr_addr_def sub64_le add64_def)
  then have "sh_VirtualAddress sec + add64 (sub64 (ptr_addr buffer (section_end (ImageSize c) sec))
      (ptr_addr buffer (section_base (ImageSize c) sec))) 1 \<le> length mem"
    using \<open>e < ImageSize c\<close> e(2) assms(3) by simp
  then show ?thesis
    unfolding protect_section_def Let_def b by (intro returns_intros; simp add: returns_def)
qed

lemma protect_fold_returns:
  assumes "\<And>sec s. sec \<in> set secs \<Longrightarrow> returns (f sec s)"
  shows "returns (foldS f secs s)"
  using assms
proof (induction secs arbitrary: s)
  case (Cons x xs)
  then show ?case by (auto intro!: returns_intros)
qed (simp add: returns_def)

text \<open>The space for the image: the sum of the sizes must fit in 32 bits.\<close>

lemma alloc_size_ge:
  assumes "ImageSize c + SectionAlignment c + 4095 < 2 ^ 32"
  shows "ImageSize c + SectionAlignment c \<le> 4096 * (alloc_size c div PAGE_SIZE)"
proof -
  define n where "n = ImageSize c + SectionAlignment c"
  define q r where "q = n div 4096" and "r = n mod 4096"
  have n: "n = 4096 * q + r" "r < 4096" by (simp_all add: q_def r_def)
  have m: "x mod 2 ^ 64 mod 4096 = x mod (4096 :: nat)" for x by (rule mod_mod_cancel) simp
  have "(x :: nat) AND 4095 = x mod 4096" for x
    using take_bit_eq_mask [of 12 x] by (simp add: take_bit_eq_mod mask_eq_exp_minus_1)
  moreover have "4096 + 2 ^ 64 - n = 4096 * (2 ^ 52 - q) + (4096 - r)" using n assms by (simp add: n_def)
  then have "sub64 4096 n mod 4096 = (4096 - r) mod 4096" by (simp only: sub64_def m mod_mult_self4)
  moreover have "sub64 4096 1 = 4095" by (simp add: sub64_def)
  ultimately have "ALIGN_VALUE n 4096 = (n + (4096 - r) mod 4096) mod 2 ^ 64"
    by (simp add: ALIGN_VALUE_def add64_def)
  moreover have "n + (4096 - r) mod 4096 = 4096 * (if r = 0 then q else q + 1)" using n by auto
  moreover have "(4096 - r) mod 4096 < 4096" by simp
  ultimately have "alloc_size c = 4096 * (if r = 0 then q else q + 1)"
    using assms by (simp add: alloc_size_def PAGE_SIZE_def n_def)
  then show ?thesis using n by (auto simp: PAGE_SIZE_def n_def)
qed

text \<open>The alignment moves the buffer by less than the alignment, whether that is a power of two or not.\<close>

lemma ALIGN_VALUE_offset:
  assumes "addr + a < 2 ^ 64" and "0 < a"
  shows "addr \<le> ALIGN_VALUE addr a \<and> ALIGN_VALUE addr a < addr + a \<and>
    sub64 (ALIGN_VALUE addr a) addr = ALIGN_VALUE addr a - addr"
proof -
  define x where "x = (sub64 a addr AND sub64 a 1)"
  have "int x \<le> int (sub64 a 1)" unfolding x_def by (simp only: of_nat_and_eq AND_upper2 of_nat_0_le_iff)
  then have x: "x < a" using assms by (simp add: sub64_le)
  then have "ALIGN_VALUE addr a = addr + x"
    unfolding ALIGN_VALUE_def x_def [symmetric] add64_def using assms by simp
  then show ?thesis using x assms by (simp add: sub64_le)
qed

section \<open>Properties of the loader\<close>

text \<open>The contract of the page allocator: it gives as many bytes as asked for, below the end of the address
  space.\<close>

definition allocator_ok :: "load_env \<Rightarrow> bool" where
  "allocator_ok e \<longleftrightarrow> (\<forall>n addr memory. le_AllocatePages e n = Some (addr, memory) \<longrightarrow>
     length memory = 4096 * n \<and> addr + 4096 * n < 2 ^ 64)"

lemma buffer_space:
  assumes "allocator_ok e" and "load_ok d c" and "ImageSize c + SectionAlignment c + 4095 < 2 ^ 32"
    and "le_AllocatePages e (alloc_size c div PAGE_SIZE) = Some (addr, memory)"
  shows "ImageSize c \<le> length (drop (sub64 (ALIGN_VALUE addr (SectionAlignment c)) addr) memory)"
    and "ALIGN_VALUE addr (SectionAlignment c) + ImageSize c < 2 ^ 64"
proof -
  have m: "ImageSize c + SectionAlignment c \<le> length memory" "addr + length memory < 2 ^ 64"
    using alloc_size_ge [OF assms(3)] assms(1,4) by (auto simp: allocator_ok_def)
  have a: "0 < SectionAlignment c" using assms(2) by (simp add: load_ok_def)
  have "addr + SectionAlignment c < 2 ^ 64" using m by simp
  from ALIGN_VALUE_offset [OF this a] show
    "ImageSize c \<le> length (drop (sub64 (ALIGN_VALUE addr (SectionAlignment c)) addr) memory)"
    "ALIGN_VALUE addr (SectionAlignment c) + ImageSize c < 2 ^ 64"
    using m by auto
qed

lemma protect_sections_returns:
  assumes l: "sections_loaded pe d c n secs" "sections_ok d c secs" and m: "ImageSize c \<le> length mem"
    and b: "buffer + ImageSize c < 2 ^ 64"
  shows "returns (protect_sections H c d h buffer mem pv 0 s)"
proof -
  have secs: "section_list d c secs" using l by (simp add: sections_loaded_def)
  have "returns (protect_section H c h buffer mem pv sec s)" if "sec \<in> set secs" for sec s
  proof (rule protect_section_returns [OF _ _ m b])
    show "\<not> skipped sec \<Longrightarrow> \<not> ptr_less (section_end (ImageSize c) sec) (section_base (ImageSize c) sec)"
      using l that by (auto simp: sections_loaded_def)
    show "cacheable sec \<Longrightarrow> \<not> skipped sec \<Longrightarrow> sh_VirtualAddress sec < ImageSize c"
      using l that by (cases "loads sec") (force simp: sections_loaded_def sections_ok_def section_in_def loads_def)+
  qed
  then show ?thesis
    using protect_sections_fold [OF secs, of 0 H h buffer mem pv s]
      protect_fold_returns [of secs "protect_section H c h buffer mem pv" s] by simp
qed

text \<open>What a call that succeeds has done.\<close>

lemma handle_image_Inr:
  assumes "handle_image rt w e cr d n h pv s = Some (Inr r, s')"
  shows "\<exists>c v addr memory st s1 s2. verify_and_measure rt w e cr d n pv (ls_v s) = Some (Inr c, v) \<and>
    le_AllocatePages e (lr_alloc_pages r) = Some (addr, memory) \<and> lr_alloc_address r = addr \<and>
    load_contents (le_pe e) c d (lr_buffer r) (drop (sub64 (lr_buffer r) addr) memory) = Some (Inr (lr_mem r, 1)) \<and>
    s1 = update_mem_attrs_log (lr_buffer r) (alloc_size c) (MEM_ATTR_R + MEM_ATTR_W) MEM_ATTR_X
      (s\<lparr>ls_v := v, ls_pages := (addr, lr_alloc_pages r) # ls_pages s\<rparr>) \<and>
    protect_sections (fst cr) c d h (lr_buffer r) (lr_mem r) pv 0 s1 = Some (st, s2) \<and> \<not> EFI_ERROR st \<and>
    lr_entry_point r = lr_buffer r + EntryPoint c \<and>
    s' = s2\<lparr>ls_li := \<lparr>li_ImageBase = lr_buffer r, li_ImageSize = ImageSize c, li_LoadOptions = le_options e\<rparr>\<rparr>"
proof -
  obtain q v where "verify_and_measure rt w e cr d n pv (ls_v s) = Some (q, v)"
    using assms by (auto simp: handle_image_def bind_Some_iff)
  then obtain c where v: "verify_and_measure rt w e cr d n pv (ls_v s) = Some (Inr c, v)"
    using assms by (cases q) (auto simp: handle_image_def)
  let ?p = "alloc_size c div PAGE_SIZE" and ?a = "if SectionAlignment c = 0 then 4096 else SectionAlignment c"
  obtain addr memory where a: "le_AllocatePages e ?p = Some (addr, memory)"
    using assms v by (auto simp: handle_image_def Let_def split: option.splits)
  let ?b = "ALIGN_VALUE addr ?a"
  let ?s1 = "update_mem_attrs_log ?b (alloc_size c) (MEM_ATTR_R + MEM_ATTR_W) MEM_ATTR_X
      (s\<lparr>ls_v := v, ls_pages := (addr, ?p) # ls_pages s\<rparr>)"
  obtain l where "load_contents (le_pe e) c d ?b (drop (sub64 ?b addr) memory) = Some l"
    using assms v a by (auto simp: handle_image_def Let_def bind_Some_iff)
  then obtain mem' found where l: "load_contents (le_pe e) c d ?b (drop (sub64 ?b addr) memory) = Some (Inr (mem', found))"
    using assms v a by (cases l) (auto simp: handle_image_def Let_def)
  obtain st s2 where p: "protect_sections (fst cr) c d h ?b mem' pv 0 ?s1 = Some (st, s2)"
    using assms v a l by (auto simp: handle_image_def Let_def bind_Some_iff)
  have "\<not> EFI_ERROR st" "found = 1"
      "r = \<lparr>lr_buffer = ?b, lr_mem = mem', lr_entry_point = ?b + EntryPoint c, lr_alloc_address = addr,
        lr_alloc_pages = ?p, lr_alloc_alignment = ?a\<rparr>"
      "s' = s2\<lparr>ls_li := \<lparr>li_ImageBase = ?b, li_ImageSize = ImageSize c, li_LoadOptions = le_options e\<rparr>\<rparr>"
    using assms v a l p by (auto simp: handle_image_def Let_def split: if_splits)
  then show ?thesis using v a l p by (intro exI [of _ c] exI [of _ v] exI [of _ addr] exI [of _ memory] exI [of _ st]) simp
qed

lemma protect_section_keeps:
  assumes "protect_section H c h buffer mem pv sec s = Some (st, s')"
  shows "ls_pages s' = ls_pages s \<and> (\<exists>us. ls_attrs s' = ls_attrs s @ us \<and>
    (\<forall>u \<in> set us. \<not> skipped sec \<and> au_set u = fst (section_attrs sec)))"
  using assms
  by (auto simp: protect_section_def update_mem_attrs_log_def Let_def bind_Some_iff case_prod_beta split: if_splits)

lemma protect_sections_pages:
  "protect_sections H c d h buffer mem pv i s = Some (st, s') \<Longrightarrow> ls_pages s' = ls_pages s"
proof (induction "NumberOfSections c - i" arbitrary: i s)
  case 0
  then show ?case by (subst (asm) protect_sections.simps) simp
next
  case (Suc m)
  then have i: "i < NumberOfSections c" by simp
  obtain sec st1 s1 where s: "protect_section H c h buffer mem pv sec s = Some (st1, s1)"
      "(if EFI_ERROR st1 then Some (st1, s1)
        else protect_sections H c d h buffer mem pv (i + 1) s1) = Some (st, s')"
    using Suc.prems [unfolded protect_sections.simps [of _ _ _ _ _ _ _ i]] i by (auto simp: bind_Some_iff)
  then show ?case
    using protect_section_keeps [OF s(1)] Suc.hyps(1) [of "Suc i" s1] Suc.hyps(2) by (auto split: if_splits)
qed

text \<open>The pages that are allocated after a computation.\<close>

definition keeps_pages :: "(nat \<times> nat) list \<Rightarrow> ((efi_status + load_result) \<times> load_state) option \<Rightarrow> bool" where
  "keeps_pages P m \<longleftrightarrow> (\<forall>r s. m = Some (r, s) \<longrightarrow> ls_pages s = (case r of Inl st \<Rightarrow> P
     | Inr l \<Rightarrow> (lr_alloc_address l, lr_alloc_pages l) # P))"

lemma keeps_pages_intros:
  "(\<And>x. m = Some x \<Longrightarrow> keeps_pages P (f x)) \<Longrightarrow> keeps_pages P (do { x \<leftarrow> m; f x })"
  "(\<And>x y. p = (x, y) \<Longrightarrow> keeps_pages P (g x y)) \<Longrightarrow> keeps_pages P (case p of (x, y) \<Rightarrow> g x y)"
  "(\<And>x. t = Inl x \<Longrightarrow> keeps_pages P (k x)) \<Longrightarrow> (\<And>y. t = Inr y \<Longrightarrow> keeps_pages P (l y)) \<Longrightarrow>
    keeps_pages P (case t of Inl x \<Rightarrow> k x | Inr y \<Rightarrow> l y)"
  "keeps_pages P a \<Longrightarrow> (\<And>x. q = Some x \<Longrightarrow> keeps_pages P (u x)) \<Longrightarrow>
    keeps_pages P (case q of None \<Rightarrow> a | Some x \<Rightarrow> u x)"
  "(B \<Longrightarrow> keeps_pages P a) \<Longrightarrow> (\<not> B \<Longrightarrow> keeps_pages P b) \<Longrightarrow> keeps_pages P (if B then a else b)"
  by (auto simp: keeps_pages_def bind_Some_iff split: prod.splits sum.splits option.splits)

text \<open>The request for the permissions of a section.\<close>

definition section_update :: "pe_context \<Rightarrow> nat \<Rightarrow> section_header \<Rightarrow> attr_update" where
  "section_update c buffer sec =
     (let addr = ptr_addr buffer (section_base (ImageSize c) sec);
          last_addr = ptr_addr buffer (section_end (ImageSize c) sec)
      in \<lparr>au_addr = addr, au_len = ALIGN_VALUE (add64 (sub64 last_addr addr) 1) PAGE_SIZE,
          au_set = fst (section_attrs sec), au_clear = snd (section_attrs sec)\<rparr>)"

lemma protect_section_attrs:
  assumes "protect_section H c h buffer mem pv sec s = Some (st, s')"
  shows "ls_attrs s' = ls_attrs s @ (if skipped sec then [] else [section_update c buffer sec])"
  using assms
  by (auto simp: protect_section_def update_mem_attrs_log_def section_update_def Let_def bind_Some_iff case_prod_beta
      split: if_splits)

lemma protect_fold_attrs:
  assumes "foldS (protect_section H c h buffer mem pv) secs s = Some (st, s')" and "\<not> EFI_ERROR st"
  shows "ls_attrs s' = ls_attrs s @ map (section_update c buffer) (filter (Not \<circ> skipped) secs)"
  using assms(1)
proof (induction secs arbitrary: s)
  case (Cons x xs)
  obtain st1 s1 where s: "protect_section H c h buffer mem pv x s = Some (st1, s1)"
      "foldS (protect_section H c h buffer mem pv) xs s1 = Some (st, s')"
    using Cons.prems assms(2) by (auto simp: bind_Some_iff split: if_splits)
  show ?case using protect_section_attrs [OF s(1)] Cons.IH [OF s(2)] by simp
qed simp

lemma section_update_loaded:
  assumes "section_in c sec" and "ImageSize c < 2 ^ 32"
  shows "au_addr (section_update c buffer sec) = buffer + sh_VirtualAddress sec"
    and "au_len (section_update c buffer sec) = ALIGN_VALUE (sh_VirtualSize sec) PAGE_SIZE"
proof -
  let ?va = "sh_VirtualAddress sec" and ?vs = "sh_VirtualSize sec"
  have i: "0 < ?vs" "?va + ?vs \<le> ImageSize c" using assms(1) by (simp_all add: section_in_def)
  have "sub32 (add32 ?va ?vs) 1 = ?va + ?vs - 1" using i assms(2) by (simp add: add32_def sub32_le)
  then have b: "section_base (ImageSize c) sec = Some ?va" "section_end (ImageSize c) sec = Some (?va + ?vs - 1)"
    using i by (simp_all add: section_base_def section_end_def image_offset_def)
  obtain k where "?vs = Suc k" using i(1) by (cases ?vs) auto
  then have "sub64 (buffer + (?va + ?vs - 1)) (buffer + ?va) = ?vs - 1" using i assms(2) by (simp add: sub64_def)
  moreover have "add64 (?vs - 1) 1 = ?vs" using i assms(2) by (simp add: add64_def)
  ultimately show "au_addr (section_update c buffer sec) = buffer + ?va"
    "au_len (section_update c buffer sec) = ALIGN_VALUE ?vs PAGE_SIZE"
    by (simp_all add: section_update_def b ptr_addr_def)
qed

text \<open>The sample image, loaded in secure mode with an allocator that has one page of zeros, at 4096.\<close>

definition sample_load_env :: load_env where
  "sample_load_env = \<lparr>le_pe = sample_env, le_v = sample_config, le_insecure = 0, le_sbat = ([], []), le_data = 0,
     le_options = [], le_AllocatePages = (\<lambda>n. if n = 1 then Some (4096, replicate 4096 0) else None)\<rparr>"

definition sample_load_state :: load_state where
  "sample_load_state = \<lparr>ls_v = sample_vstate, ls_cache = empty_cache, ls_attrs = [], ls_pages = [],
     ls_li = \<lparr>li_ImageBase = 0, li_ImageSize = 0, li_LoadOptions = []\<rparr>\<rparr>"

lemma sample_load_context: "load_ok sample_image sample_pe_context" "section_list sample_image sample_pe_context [sample_text]"
proof -
  show "load_ok sample_image sample_pe_context"
    by (simp add: load_ok_def sample_pe_context_def length_sample_image)
  have "read_section sample_image 328 = Some sample_text"
    unfolding sample_text_def sample_image_def by (rule read_section_sample) simp_all
  then show "section_list sample_image sample_pe_context [sample_text]"
    by (simp add: section_list_def sample_pe_context_def)
qed

lemma sample_text_flags:
  "\<not> skipped sample_text" "loads sample_text" "\<not> write_execute sample_text" "cacheable sample_text"
  "\<not> has_flag sample_text EFI_IMAGE_SCN_MEM_DISCARDABLE" "\<not> has_flag sample_text EFI_IMAGE_SCN_CNT_UNINITIALIZED_DATA"
  by code_simp+

lemma sample_sections_ok: "sections_ok sample_image sample_pe_context [sample_text]"
proof -
  have "sh_Name sample_text \<noteq> lit ''.reloc'' @ [0, 0]" by code_simp
  then show ?thesis by (simp add: sections_ok_def sample_text_flags)
qed

lemma sample_verify:
  "\<exists>v. verify_and_measure mock_rt0 secure_store sample_load_env sum_digests sample_image 392 False sample_vstate =
    Some (Inr sample_pe_context, v) \<and> pool_ok (vpool v)"
proof -
  have "pool_ok (vpool sample_vstate)" by (simp add: sample_vstate_def pool_ok_def)
  then obtain s1 where v: "verify_buffer mock_rt0 secure_store sample_config sum_digests ([], [])
      (in_protocol sample_env) 0 sample_image 392 sample_pe_context False sample_vstate =
      Some (EFI_SUCCESS, sample_pe_context, s1)" and p: "pool_ok (vpool s1)"
    using sample_verify_buffer by blast
  obtain x y p' where g: "generate_hash sum_digests (vpool s1) sample_image 392 sample_pe_context =
      Some (Inr (sample_pe_context, replicate 32 x, replicate 20 y), p')"
    using sample_image_hash [OF p] by blast
  then show ?thesis
    using sample_image_header generate_hash_pool [OF g p] v secure_store_secure
    by (simp add: verify_and_measure_def sample_load_env_def status_simps)
qed

lemma sample_alloc: "alloc_size sample_pe_context = 4096" "ALIGN_VALUE 4096 8 = 4096" "ALIGN_VALUE 8 4096 = 4096"
  by (simp_all add: alloc_size_def sample_pe_context_def) code_simp+

lemma sample_allocator_ok: "allocator_ok sample_load_env"
  by (simp add: allocator_ok_def sample_load_env_def)

lemma sample_reloc_dir: "Dir_VirtualAddress sample_image 240 = Some 0" "Dir_Size sample_image 240 = Some 0"
  by (simp_all add: pe_fields sample_image_def sample_header_def rd_le_app pe_constants del: replicate.simps)

definition sample_memory :: buf where
  "sample_memory = loaded_memory sample_image sample_pe_context [sample_text] (replicate 4096 0)"

lemma sample_load_contents:
  "load_contents sample_env sample_pe_context sample_image 4096 (replicate 4096 0) = Some (Inr (sample_memory, 1))"
  "length sample_memory = 4096"
proof -
  let ?c = sample_pe_context and ?d = sample_image
  let ?mem = "put (replicate 4096 0) 0 (take 368 ?d)"
  have f: "SizeOfHeaders ?c = 368" "ImageSize ?c = 408" "EntryPoint ?c = 400" "RelocDir ?c = 240"
      "NumberOfRvaAndSizes ?c = 16"
    by (simp_all add: sample_pe_context_def)
  have hd: "rdn ?d 0 368 = Some (take 368 ?d)" by (simp add: rdn_def length_sample_image)
  have m: "wrn (replicate 4096 0) 0 (take 368 ?d) = Some ?mem" "length ?mem = 4096"
    by (simp_all add: wrn_def length_sample_image del: replicate.simps)
  have r: "raw_in (length ?d) sample_text" by (simp add: raw_in_def sample_text_fields length_sample_image)
  have cp: "copy_section ?c ?d sample_text 400 ?mem = Some (Inr (put ?mem 400 (section_image ?d sample_text)))"
    using r m(2) f by (intro copy_section_exact) (simp_all add: sample_text_fields)
  have n: "sh_Name sample_text \<noteq> lit ''.reloc'' @ [0, 0]" by code_simp
  have b: "section_base 408 sample_text = Some 400" "section_end 408 sample_text = Some 407"
    by (simp_all add: section_base_def section_end_def image_offset_def add32_def sub32_def sample_text_fields)
  have e: "holds_entry ?c sample_text" by (simp add: holds_entry_def sample_text_fields f add32_def sub32_def)
  have mem: "put ?mem 400 (section_image ?d sample_text) = sample_memory"
    by (simp add: sample_memory_def loaded_memory_def put_section_simps sample_text_flags sample_text_fields f)
  have l: "load_sections sample_env ?c ?d rel 0 (?mem, 0, None) = Some (Inr (sample_memory, 1, None))" for rel
    using load_sections_fold [OF sample_load_context(2), of 0 sample_env rel "(?mem, 0, None)"] cp n b e mem
    by (simp add: load_section_def sample_text_flags f sample_text_fields)
  have rr: "reloc_range ?d ?c = Some (Some 0, None)"
    by (simp add: reloc_range_def f sample_reloc_dir image_offset_def add32_def sub32_def)
  show "load_contents sample_env ?c ?d 4096 (replicate 4096 0) = Some (Inr (sample_memory, 1))"
    unfolding load_contents_def f hd bind.simps m(1) rr
    using l by (simp add: image_offset_def sample_reloc_dir EFI_IMAGE_DIRECTORY_ENTRY_BASERELOC_def)
  show "length sample_memory = 4096"
    unfolding mem [symmetric] using m(2) r by (simp add: length_section_image sample_text_fields)
qed

lemma sample_handle_image:
  "\<exists>r s'. handle_image mock_rt0 secure_store sample_load_env sum_digests sample_image 392 7 False sample_load_state =
    Some (Inr r, s') \<and> lr_mem r = sample_memory \<and> lr_buffer r = 4096"
proof -
  let ?c = sample_pe_context and ?e = sample_load_env
  obtain v where v: "verify_and_measure mock_rt0 secure_store ?e sum_digests sample_image 392 False
      (ls_v sample_load_state) = Some (Inr ?c, v)" "pool_ok (vpool v)"
    using sample_verify by (auto simp: sample_load_state_def)
  have f: "SectionAlignment ?c = 8" "ImageSize ?c = 408" by (simp_all add: sample_pe_context_def)
  have a: "le_AllocatePages ?e (alloc_size ?c div PAGE_SIZE) = Some (4096, replicate 4096 0)"
      "sub64 (ALIGN_VALUE 4096 8) 4096 = 0" "le_pe ?e = sample_env"
    by (simp_all add: sample_alloc PAGE_SIZE_def sample_load_env_def sub64_le)
  have b: "section_base 408 sample_text = Some 400" "section_end 408 sample_text = Some 407"
    by (simp_all add: section_base_def section_end_def image_offset_def add32_def sub32_def sample_text_fields)
  have cs: "\<exists>cache p'. cache_section (sum_hash n) (vpool v) k name x cache0 = (EFI_SUCCESS, cache, p')"
    for n k name x cache0
    using v(2) AllocatePool_ok [OF v(2)] AllocatePool_ok [OF pool_ok_Suc [OF v(2)]]
    by (simp add: cache_section_def do_sha256_sum_def sum_hash_def Let_def)
  have "\<exists>s'. protect_sections (fst sum_digests) ?c sample_image 7 4096 sample_memory False 0 s = Some (EFI_SUCCESS, s')"
    if "vpool (ls_v s) = vpool v" for s
    using protect_sections_fold [OF sample_load_context(2), of 0 "fst sum_digests" 7 4096 sample_memory False s]
      cs [of SHA256_DIGEST_SIZE 7 "sh_Name sample_text" "take 8 (drop 400 sample_memory)" "ls_cache s"] b
      sample_load_contents(2) that
    by (auto simp: protect_section_def sample_text_flags f ptr_addr_def sub64_le add64_def rdn_def
        update_mem_attrs_log_def sum_digests_def status_simps)
  then obtain s' where "protect_sections (fst sum_digests) ?c sample_image 7 4096 sample_memory False 0
      (update_mem_attrs_log 4096 (alloc_size ?c) (MEM_ATTR_R + MEM_ATTR_W) MEM_ATTR_X
        (sample_load_state\<lparr>ls_v := v, ls_pages := (4096, alloc_size ?c div PAGE_SIZE) # ls_pages sample_load_state\<rparr>)) =
      Some (EFI_SUCCESS, s')"
    by (fastforce simp: update_mem_attrs_log_def)
  then show ?thesis
    using v a f sample_load_contents(1) sample_alloc(2)
    by (simp add: handle_image_def Let_def status_simps)
qed



lemma handle_image_keeps_pages: "keeps_pages (ls_pages s) (handle_image rt w e cr d n h pv s)"
  unfolding handle_image_def Let_def
  by (intro keeps_pages_intros)
    (auto simp: keeps_pages_def FreePages_def update_mem_attrs_log_def dest!: protect_sections_pages)

text \<open>C10. No leak and no dangling allocation: whatever the image, when \<^verbatim>\<open>handle_image\<close> fails the pages that are
  allocated are those that were allocated before the call; when it succeeds there is one allocation more,
  the one that it returns.\<close>

theorem handle_image_pages:
  assumes "handle_image rt w e cr d n h pv s = Some (r, s')"
  shows "ls_pages s' = (case r of Inl st \<Rightarrow> ls_pages s
    | Inr l \<Rightarrow> (lr_alloc_address l, lr_alloc_pages l) # ls_pages s)"
  using handle_image_keeps_pages [of s rt w e cr d n h pv] assms by (auto simp: keeps_pages_def)

theorem handle_image_pages_witness:
  "\<exists>r s'. handle_image mock_rt0 secure_store sample_load_env sum_digests sample_image 392 7 False sample_load_state =
    Some (Inr r, s') \<and> ls_pages s' = [(lr_alloc_address r, lr_alloc_pages r)]"
proof -
  obtain r s' where "handle_image mock_rt0 secure_store sample_load_env sum_digests sample_image 392 7 False
      sample_load_state = Some (Inr r, s')"
    using sample_handle_image by blast
  then show ?thesis using handle_image_pages by (fastforce simp: sample_load_state_def)
qed

lemma sample_section_list:
  assumes "section_list sample_image sample_pe_context secs"
  shows "secs = [sample_text]"
proof -
  have "length secs = 1" "secs ! 0 = sample_text"
    using assms sample_load_context(2) by (auto simp: section_list_def sample_pe_context_def)
  then show ?thesis by (cases secs) auto
qed

text \<open>C3. What is in memory after a successful \<^verbatim>\<open>handle_image\<close>: up to the fixups of \<^verbatim>\<open>relocate_coff\<close>, the range of
  each section that is loaded and that no later section overlaps lies in the image and holds the data of the
  section, cut off at the virtual size and filled up with zeros (only zeros if the section is
  uninitialised).\<close>

theorem handle_image_loads:
  assumes h: "handle_image rt w e cr d (length d) handle pv s = Some (Inr r, s')" and n: "length d < 2 ^ 32"
  shows "\<exists>c v secs mem. verify_and_measure rt w e cr d (length d) pv (ls_v s) = Some (Inr c, v) \<and>
    section_list d c secs \<and> length mem = length (lr_mem r) \<and> relocated d c (lr_buffer r) secs mem (lr_mem r) \<and>
    (\<forall>i < length secs. loads (secs ! i) \<and>
       (\<forall>j. i < j \<and> j < length secs \<and> loads (secs ! j) \<longrightarrow> sections_apart (secs ! j) (secs ! i)) \<longrightarrow>
       section_in c (secs ! i) \<and> section_bytes (secs ! i) mem = section_image d (secs ! i))"
proof -
  obtain c v addr memory where v: "verify_and_measure rt w e cr d (length d) pv (ls_v s) = Some (Inr c, v)"
    and l: "load_contents (le_pe e) c d (lr_buffer r) (drop (sub64 (lr_buffer r) addr) memory) = Some (Inr (lr_mem r, 1))"
    using handle_image_Inr [OF h] by blast
  let ?mem = "drop (sub64 (lr_buffer r) addr) memory"
  have ok: "load_ok d c" using verify_and_measure_in(2) [OF v n] .
  then have img: "ImageSize c < 2 ^ 32" by (simp add: load_ok_def)
  obtain secs where s: "sections_loaded (le_pe e) d c (length ?mem) secs"
      "length (loaded_memory d c secs ?mem) = length ?mem"
      "relocated d c (lr_buffer r) secs (loaded_memory d c secs ?mem) (lr_mem r)"
    using load_contents_loaded [OF l img] by blast
  have hd: "SizeOfHeaders c \<le> length ?mem" "SizeOfHeaders c \<le> length d"
    using l by (auto simp: load_contents_def bind_Some_iff rdn_def wrn_def min_def split: if_splits)
  have "length (loaded_memory d c secs ?mem) = length (lr_mem r)"
    using s(2,3) relocate_coff_length by (fastforce simp: relocated_def)
  moreover have "section_in c (secs ! i)" if "i < length secs" "loads (secs ! i)" for i
    using s(1) that by (auto simp: sections_loaded_def)
  moreover have "section_list d c secs" using s(1) by (simp add: sections_loaded_def)
  ultimately show ?thesis
    using v s(3) loaded_memory_section [OF s(1) hd]
    by (intro exI [of _ c] exI [of _ v] exI [of _ secs] exI [of _ "loaded_memory d c secs ?mem"]) auto
qed

theorem handle_image_loads_witness:
  "\<exists>r s' mem. handle_image mock_rt0 secure_store sample_load_env sum_digests sample_image 392 7 False sample_load_state =
    Some (Inr r, s') \<and> length mem = 4096 \<and> section_bytes sample_text mem = [1, 2, 3, 4, 5, 6, 7, 8]"
proof -
  obtain r s' where h: "handle_image mock_rt0 secure_store sample_load_env sum_digests sample_image 392 7 False
      sample_load_state = Some (Inr r, s')" "lr_mem r = sample_memory"
    using sample_handle_image by blast
  obtain v0 where v0: "verify_and_measure mock_rt0 secure_store sample_load_env sum_digests sample_image 392 False
      (ls_v sample_load_state) = Some (Inr sample_pe_context, v0)"
    using sample_verify by (auto simp: sample_load_state_def)
  obtain secs mem where s: "section_list sample_image sample_pe_context secs" "length mem = length (lr_mem r)"
      "\<forall>i < length secs. loads (secs ! i) \<and>
       (\<forall>j. i < j \<and> j < length secs \<and> loads (secs ! j) \<longrightarrow> sections_apart (secs ! j) (secs ! i)) \<longrightarrow>
       section_in sample_pe_context (secs ! i) \<and> section_bytes (secs ! i) mem = section_image sample_image (secs ! i)"
    using handle_image_loads [of mock_rt0 secure_store sample_load_env sum_digests sample_image 7 False
        sample_load_state r s'] h(1) v0
    by (auto simp: length_sample_image)
  have "secs = [sample_text]" using sample_section_list [OF s(1)] .
  moreover have "section_image sample_image sample_text = [1, 2, 3, 4, 5, 6, 7, 8]"
    by (simp add: section_image_def sample_text_flags sample_text_fields) (simp add: sample_image_def)
  ultimately show ?thesis
    using s(2,3) h sample_load_contents(2) by (auto simp: sample_text_flags)
qed

definition update_wx :: "attr_update \<Rightarrow> bool" where
  "update_wx u \<longleftrightarrow> au_set u AND MEM_ATTR_W \<noteq> 0 \<and> au_set u AND MEM_ATTR_X \<noteq> 0"

lemma section_attrs_wx:
  "au_set u = fst (section_attrs sec) \<Longrightarrow> update_wx u \<longleftrightarrow> write_execute sec"
  "au_set u = MEM_ATTR_R + MEM_ATTR_W \<Longrightarrow> \<not> update_wx u"
proof -
  have "(7 :: nat) AND 2 \<noteq> 0" "(7 :: nat) AND 1 \<noteq> 0" "(6 :: nat) AND 1 = 0" "(5 :: nat) AND 2 = 0" "(4 :: nat) AND 2 = 0"
    by code_simp+
  then show "au_set u = fst (section_attrs sec) \<Longrightarrow> update_wx u \<longleftrightarrow> write_execute sec"
    "au_set u = MEM_ATTR_R + MEM_ATTR_W \<Longrightarrow> \<not> update_wx u"
    by (simp_all add: update_wx_def section_attrs_def write_execute_def MEM_ATTR_R_def MEM_ATTR_W_def MEM_ATTR_X_def
        del: One_nat_def)
qed



section \<open>What the loader does not check\<close>

text \<open>A discardable section may be writable and executable whatever the policy, a cacheable one may lie
  outside the image, and then memory at NULL is hashed; and the sum of the image size and the alignment may
  wrap around to less than the image size.\<close>

lemma discardable_wx:
  "load_section sample_env sample_pe_context sample_image rel (sample_text\<lparr>sh_Characteristics := 0xE2000020\<rparr>) (mem, 0, None) =
    Some (Inr (mem, 1, None)) \<and>
   update_wx \<lparr>au_addr = a, au_len = n, au_set = fst (section_attrs (sample_text\<lparr>sh_Characteristics := 0xE2000020\<rparr>)), au_clear = k\<rparr>"
  apply (simp add: load_section_def)
  by code_simp

lemma discardable_null:
  "load_section sample_env sample_pe_context sample_image rel
     (sample_text\<lparr>sh_VirtualAddress := 500, sh_Characteristics := 0x62000020\<rparr>) (mem, 0, None) = Some (Inr (mem, 0, None))"
  "protect_section H sample_pe_context h buffer mem False
     (sample_text\<lparr>sh_VirtualAddress := 500, sh_Characteristics := 0x62000020\<rparr>) s = None"
proof -
  let ?sec = "sample_text\<lparr>sh_VirtualAddress := 500, sh_Characteristics := 0x62000020\<rparr>"
  have "\<not> skipped ?sec" "section_base (ImageSize sample_pe_context) ?sec = None" "cacheable ?sec"
      "has_flag ?sec EFI_IMAGE_SCN_MEM_DISCARDABLE" "\<not> holds_entry sample_pe_context ?sec"
      "sh_Name ?sec \<noteq> lit ''.reloc'' @ [0, 0]" "\<not> ptr_less (section_end (ImageSize sample_pe_context) ?sec) None"
    by code_simp+
  then show "load_section sample_env sample_pe_context sample_image rel ?sec (mem, 0, None) = Some (Inr (mem, 0, None))"
    "protect_section H sample_pe_context h buffer mem False ?sec s = None"
    by (simp_all add: load_section_def protect_section_def)
qed

lemma alloc_size_wraps:
  "alloc_size (sample_pe_context\<lparr>ImageSize := 0xFFFFF000, SectionAlignment := 0x2000\<rparr>) = 0x1000"
  by code_simp

end
