(* ===== verification/Loader_Proto.thy ===== *)
theory Loader_Proto
  imports Pe_Load "HOL-Library.Multiset"
begin

text \<open>
  The loader protocol: \<^verbatim>\<open>loader-proto.c\<close>. While a boot loader runs, shim replaces \<^verbatim>\<open>LoadImage\<close>, \<^verbatim>\<open>StartImage\<close>,
  \<^verbatim>\<open>UnloadImage\<close> and \<^verbatim>\<open>Exit\<close> of the firmware by functions of its own.

  The heap of \<^verbatim>\<open>SHIM_LOADED_IMAGE\<close> structures is a list of addresses and structures, and a handle leads to an
  address, so that a handle whose structure has been freed is a value of the model; reading through it has
  no defined result. Device paths are opaque addresses. The file protocols of the firmware are parameters,
  as is what a started image does: it makes calls of its own, and then returns or exits. A run of the
  protocol is therefore a sequence of steps over the state and the stack of running images.

  The lemmas show by rule induction that in every reachable state the allocated pages and pool blocks are
  those of the loaded images, and that control only passes to the entry point of an image that a \<^verbatim>\<open>LoadImage\<close>
  call of the run created and whose bytes \<^verbatim>\<open>handle_image\<close> accepted in the state of that call.
\<close>

section \<open>State\<close>

text \<open>\<^verbatim>\<open>SHIM_LOADED_IMAGE\<close>; \<open>si_path\<close> is \<^verbatim>\<open>loaded_image_device_path\<close>.\<close>

record shim_image =
  si_ParentHandle :: nat
  si_DeviceHandle :: "nat option"
  si_FilePath :: "nat option"
  si_path :: "nat option"
  si_li :: loaded_image
  si_entry_point :: nat
  si_alloc_address :: nat
  si_alloc_pages :: nat
  si_alloc_alignment :: nat
  si_exit_status :: efi_status
  si_exit_data_size :: nat
  si_exit_data :: "nat option"
  si_started :: bool

text \<open>\<open>ps_blocks\<close> is the number of pool blocks that this code has allocated and not freed. \<open>ps_foreign\<close> are the
  handles of the firmware without shim's protocol.\<close>

record proto_state =
  ps_ld :: load_state
  ps_blocks :: nat
  ps_images :: "(nat \<times> shim_image) list"
  ps_handles :: "nat \<Rightarrow> nat option"
  ps_foreign :: "nat \<Rightarrow> bool"

record buffer_properties =
  bp_hnd :: "nat option"
  bp_dp :: "nat option"
  bp_buffer :: "buf option"
  bp_size :: nat
  bp_allocated_buffer :: bool

text \<open>The file protocols of the firmware: the status of each call, and what it returns. \<^verbatim>\<open>LocateDevicePath\<close> gives
  the rest of the path and a handle; \<open>fe_file_path\<close> says whether a path is a file path of a medium.\<close>

record file_env =
  fe_LocateSfs :: "nat \<Rightarrow> efi_status \<times> nat \<times> nat"
  fe_file_path :: "nat \<Rightarrow> bool"
  fe_HandleProtocolSfs :: "nat \<Rightarrow> efi_status"
  fe_OpenVolume :: "nat \<Rightarrow> efi_status"
  fe_Open :: "nat \<Rightarrow> efi_status"
  fe_SetEnd :: efi_status
  fe_GetPosition :: "efi_status \<times> nat"
  fe_SetStart :: efi_status
  fe_Read :: "nat \<Rightarrow> efi_status \<times> buf"
  fe_LocateLf2 :: "nat \<Rightarrow> efi_status \<times> nat \<times> nat"
  fe_HandleProtocolLf2 :: "nat \<Rightarrow> efi_status"
  fe_LoadFileSize :: "efi_status \<times> nat"
  fe_LoadFile :: "nat \<Rightarrow> efi_status \<times> buf"
  fe_LocateDp :: "nat \<Rightarrow> efi_status \<times> nat \<times> nat"

definition set_pool :: "pool \<Rightarrow> proto_state \<Rightarrow> proto_state" where
  "set_pool p s = s\<lparr>ps_ld := (ps_ld s)\<lparr>ls_v := (ls_v (ps_ld s))\<lparr>vpool := p\<rparr>\<rparr>\<rparr>"

definition get_pool :: "proto_state \<Rightarrow> pool" where
  "get_pool s = vpool (ls_v (ps_ld s))"

definition alloc_block :: "nat \<Rightarrow> proto_state \<Rightarrow> bool \<times> proto_state" where
  "alloc_block n s =
     (case AllocatePool (get_pool s) n of
        (ok, p) \<Rightarrow> (ok, (set_pool p s)\<lparr>ps_blocks := (if ok then ps_blocks s + 1 else ps_blocks s)\<rparr>))"

definition free_blocks :: "nat \<Rightarrow> proto_state \<Rightarrow> proto_state" where
  "free_blocks n s = s\<lparr>ps_blocks := ps_blocks s - n\<rparr>"

section \<open>Sources of an image\<close>

text \<open>\<^verbatim>\<open>try_load_from_cached_section\<close>: the buffer is compared with the cached sections of the parent.\<close>

definition try_load_from_cached_section ::
    "'h hash_alg \<Rightarrow> nat \<Rightarrow> nat option \<Rightarrow> buf \<Rightarrow> buffer_properties \<Rightarrow> proto_state \<Rightarrow> efi_status \<times> buffer_properties \<times> proto_state" where
  "try_load_from_cached_section H parent dp x b s =
     (case validate_cached_section H (get_pool s) parent x (ls_cache (ps_ld s)) of
        (st, p) \<Rightarrow>
          if EFI_ERROR st then (st, b, set_pool p s)
          else (EFI_SUCCESS, b\<lparr>bp_allocated_buffer := False, bp_dp := dp\<rparr>, set_pool p s))"

text \<open>\<^verbatim>\<open>try_load_from_sfs\<close>: the file and the root directory that it opens are closed on every path.\<close>

definition try_load_from_sfs ::
    "file_env \<Rightarrow> nat \<Rightarrow> buffer_properties \<Rightarrow> proto_state \<Rightarrow> efi_status \<times> buffer_properties \<times> proto_state" where
  "try_load_from_sfs fe dp b s =
     (let b0 = b\<lparr>bp_buffer := None, bp_dp := Some dp\<rparr>;
          (st, dp1, hnd) = fe_LocateSfs fe dp
      in if EFI_ERROR st then (st, b0, s)
         else let b1 = b0\<lparr>bp_dp := Some dp1, bp_hnd := Some hnd\<rparr> in
           if \<not> fe_file_path fe dp1 then (EFI_LOAD_ERROR, b1, s)
           else if EFI_ERROR (fe_HandleProtocolSfs fe hnd) then (fe_HandleProtocolSfs fe hnd, b1, s)
           else if EFI_ERROR (fe_OpenVolume fe hnd) then (fe_OpenVolume fe hnd, b1, s)
           else if EFI_ERROR (fe_Open fe dp1) then (fe_Open fe dp1, b1, s)
           else if EFI_ERROR (fe_SetEnd fe) then (fe_SetEnd fe, b1, s)
           else if EFI_ERROR (fst (fe_GetPosition fe)) then (fst (fe_GetPosition fe), b1, s)
           else
             let n = snd (fe_GetPosition fe); b2 = b1\<lparr>bp_size := n\<rparr> in
             if EFI_ERROR (fe_SetStart fe) then (fe_SetStart fe, b2, s)
             else case alloc_block n s of
               (False, s1) \<Rightarrow> (EFI_OUT_OF_RESOURCES, b2, s1)
             | (True, s1) \<Rightarrow>
                 let (st, x) = fe_Read fe n;
                     b3 = b2\<lparr>bp_buffer := Some x, bp_size := length x, bp_allocated_buffer := True\<rparr>
                 in (st, b3, if EFI_ERROR st then free_blocks 1 s1 else s1))"

definition try_load_from_lf2 ::
    "file_env \<Rightarrow> nat \<Rightarrow> buffer_properties \<Rightarrow> proto_state \<Rightarrow> efi_status \<times> buffer_properties \<times> proto_state" where
  "try_load_from_lf2 fe dp b s =
     (let b0 = b\<lparr>bp_buffer := None, bp_dp := Some dp\<rparr>;
          (st, dp1, hnd) = fe_LocateLf2 fe dp
      in if EFI_ERROR st then (st, b0, s)
         else let b1 = b0\<lparr>bp_dp := Some dp1, bp_hnd := Some hnd\<rparr> in
           if EFI_ERROR (fe_HandleProtocolLf2 fe hnd) then (fe_HandleProtocolLf2 fe hnd, b1, s)
           else
             let (st, n) = fe_LoadFileSize fe; b2 = b1\<lparr>bp_size := n\<rparr> in
             if EFI_ERROR st \<and> st \<noteq> EFI_BUFFER_TOO_SMALL then (EFI_LOAD_ERROR, b2, s)
             else case alloc_block n s of
               (False, s1) \<Rightarrow> (EFI_OUT_OF_RESOURCES, b2, s1)
             | (True, s1) \<Rightarrow>
                 let (st, x) = fe_LoadFile fe n;
                     b3 = b2\<lparr>bp_buffer := Some x, bp_size := length x, bp_allocated_buffer := True\<rparr>
                 in (st, b3, if EFI_ERROR st then free_blocks 1 s1 else s1))"

section \<open>LoadImage\<close>

text \<open>The arguments of a call, and what the firmware gives it: the structure's address, the status of
  installing the protocols and the new handle.\<close>

record load_args =
  la_BootPolicy :: bool
  la_ParentImageHandle :: nat
  la_DevicePath :: "nat option"
  la_SourceBuffer :: "buf option"
  la_SourceSize :: nat
  la_image :: nat
  la_install :: efi_status
  la_handle :: nat

definition free_pages_alloc_image :: "shim_image \<Rightarrow> load_state \<Rightarrow> load_state" where
  "free_pages_alloc_image im s =
     (if si_alloc_address im = 0 \<or> si_alloc_pages im = 0 then s
      else
        let buffer = ALIGN_VALUE (si_alloc_address im) (si_alloc_alignment im)
        in FreePages (si_alloc_address im) (si_alloc_pages im)
          (update_mem_attrs_log buffer (si_alloc_pages im * PAGE_SIZE) (MEM_ATTR_R + MEM_ATTR_W) MEM_ATTR_X s))"

text \<open>The values that a failed \<^verbatim>\<open>handle_image\<close> leaves in its output parameters: it sets them when the pages are
  allocated and does not reset them when it frees the pages.\<close>

definition alloc_outputs ::
    "'w efi_rt \<Rightarrow> 'w \<Rightarrow> load_env \<Rightarrow> ('h, 'g) digests \<Rightarrow> buf \<Rightarrow> nat \<Rightarrow> bool \<Rightarrow> load_state \<Rightarrow> (nat \<times> nat \<times> nat) option" where
  "alloc_outputs rt w e cr d datasize parent_verified s =
     (case verify_and_measure rt w e cr d datasize parent_verified (ls_v s) of
        Some (Inr c, v) \<Rightarrow>
          (case le_AllocatePages e (alloc_size c div PAGE_SIZE) of
             Some (addr, memory) \<Rightarrow>
               Some (addr, alloc_size c div PAGE_SIZE, if SectionAlignment c = 0 then 4096 else SectionAlignment c)
           | None \<Rightarrow> None)
      | _ \<Rightarrow> None)"

definition empty_image :: shim_image where
  "empty_image = \<lparr>si_ParentHandle = 0, si_DeviceHandle = None, si_FilePath = None, si_path = None,
     si_li = \<lparr>li_ImageBase = 0, li_ImageSize = 0, li_LoadOptions = []\<rparr>, si_entry_point = 0, si_alloc_address = 0,
     si_alloc_pages = 0, si_alloc_alignment = 0, si_exit_status = EFI_SUCCESS, si_exit_data_size = 0,
     si_exit_data = None, si_started = False\<rparr>"

text \<open>The pool blocks of a structure: itself and the copies of the two paths.\<close>

definition image_blocks :: "shim_image \<Rightarrow> nat" where
  "image_blocks im = 1 + (if si_FilePath im = None then 0 else 1) + (if si_path im = None then 0 else 1)"

definition free_buffer :: "buffer_properties \<Rightarrow> proto_state \<Rightarrow> proto_state" where
  "free_buffer b s = (if bp_buffer b \<noteq> None \<and> bp_allocated_buffer b then free_blocks 1 s else s)"

text \<open>\<^verbatim>\<open>DuplicateDevicePath\<close> of a path that may be NULL; the first component says whether it failed.\<close>

definition duplicate_path :: "nat option \<Rightarrow> proto_state \<Rightarrow> bool \<times> proto_state" where
  "duplicate_path dp s = (case dp of None \<Rightarrow> (False, s)
     | Some x \<Rightarrow> (case alloc_block x s of (ok, s1) \<Rightarrow> (\<not> ok, s1)))"

text \<open>The part of \<^verbatim>\<open>shim_load_image\<close> that finds the bytes to load: whether the parent vouches for them, the
  bytes, their number, and the properties of the buffer.\<close>

definition no_buffer :: buffer_properties where
  "no_buffer = \<lparr>bp_hnd = None, bp_dp = None, bp_buffer = None, bp_size = 0, bp_allocated_buffer = False\<rparr>"

definition load_source ::
    "'h hash_alg \<Rightarrow> file_env \<Rightarrow> load_args \<Rightarrow> proto_state
      \<Rightarrow> ((efi_status + bool \<times> buf \<times> nat \<times> buffer_properties) \<times> proto_state) option" where
  "load_source H fe a s =
     (if la_SourceSize a = 0 \<or> la_SourceBuffer a = None then
        case la_DevicePath a of
          None \<Rightarrow> Some (Inl EFI_NOT_FOUND, s)
        | Some dp \<Rightarrow>
            let (st, b, s1) = try_load_from_sfs fe dp no_buffer s in
            if st = EFI_SUCCESS then do { x \<leftarrow> bp_buffer b; Some (Inr (False, x, bp_size b, b), s1) }
            else
              let (st, b, s2) = try_load_from_lf2 fe dp b s1 in
              if st = EFI_SUCCESS then do { x \<leftarrow> bp_buffer b; Some (Inr (False, x, bp_size b, b), s2) }
              else Some (Inl EFI_LOAD_ERROR, s2)
      else do {
        d \<leftarrow> la_SourceBuffer a;
        x \<leftarrow> rdn d 0 (la_SourceSize a);
        let (st, b, s1) = try_load_from_cached_section H (la_ParentImageHandle a) (la_DevicePath a) x
          (no_buffer\<lparr>bp_buffer := Some d, bp_size := la_SourceSize a\<rparr>) s in
        if \<not> EFI_ERROR st then Some (Inr (True, d, la_SourceSize a, b), s1)
        else if st \<noteq> EFI_NOT_FOUND then Some (Inl EFI_LOAD_ERROR, s1)
        else
          let b1 = b\<lparr>bp_buffer := None, bp_dp := la_DevicePath a\<rparr>;
              b2 = (case la_DevicePath a of
                  None \<Rightarrow> b1
                | Some dp \<Rightarrow>
                    let (st, dp1, hnd) = fe_LocateDp fe dp in
                    if st \<noteq> EFI_SUCCESS then b1\<lparr>bp_hnd := None\<rparr> else b1\<lparr>bp_dp := Some dp1, bp_hnd := Some hnd\<rparr>)
          in Some (Inr (False, d, la_SourceSize a, b2), s1)
      })"

text \<open>The structure of the image, with the copies of the paths, and the protocols.\<close>

definition make_image ::
    "load_args \<Rightarrow> buffer_properties \<Rightarrow> proto_state \<Rightarrow> (efi_status + shim_image) \<times> proto_state" where
  "make_image a b s =
     (case alloc_block 0 s of
        (False, s1) \<Rightarrow> (Inl EFI_OUT_OF_RESOURCES, s1)
      | (True, s1) \<Rightarrow>
          let im = empty_image\<lparr>si_ParentHandle := la_ParentImageHandle a, si_DeviceHandle := bp_hnd b\<rparr>;
              (failed, s2) = duplicate_path (bp_dp b) s1
          in if failed then (Inl EFI_OUT_OF_RESOURCES, free_blocks (image_blocks im) s2)
             else
               let im1 = im\<lparr>si_FilePath := bp_dp b\<rparr>;
                   (failed, s3) = duplicate_path (la_DevicePath a) s2
               in if failed then (Inl EFI_OUT_OF_RESOURCES, free_blocks (image_blocks im1) s3)
                  else
                    let im2 = im1\<lparr>si_path := la_DevicePath a\<rparr>
                    in if EFI_ERROR (la_install a) then (Inl (la_install a), free_blocks (image_blocks im2) s3)
                       else (Inr im2, s3))"

text \<open>\<^verbatim>\<open>shim_load_image\<close>. The size is passed on as an \<^verbatim>\<open>unsigned int\<close>. The handle is only visible to others when the
  call has succeeded.\<close>

definition shim_load_image ::
    "'w efi_rt \<Rightarrow> 'w \<Rightarrow> load_env \<Rightarrow> ('h, 'g) digests \<Rightarrow> file_env \<Rightarrow> load_args \<Rightarrow> proto_state
      \<Rightarrow> ((efi_status + nat) \<times> proto_state) option" where
  "shim_load_image rt w e cr fe a s =
     (if la_BootPolicy a then Some (Inl EFI_UNSUPPORTED, s)
      else do {
        (src, s1) \<leftarrow> load_source (fst cr) fe a s;
        case src of
          Inl st \<Rightarrow> Some (Inl st, s1)
        | Inr (parent_verified, d, n, b) \<Rightarrow>
            (case make_image a b s1 of
               (Inl st, s2) \<Rightarrow> Some (Inl st, free_buffer b s2)
             | (Inr im, s2) \<Rightarrow>
                 let e1 = e\<lparr>le_pe := (le_pe e)\<lparr>in_protocol := True\<rparr>\<rparr>; sz = n mod 2 ^ 32 in do {
                   (r, ld) \<leftarrow> handle_image rt w e1 cr d sz (la_handle a) parent_verified (ps_ld s2);
                   case r of
                     Inl st \<Rightarrow>
                       let im1 = (case alloc_outputs rt w e1 cr d sz parent_verified (ps_ld s2) of
                             None \<Rightarrow> im
                           | Some (addr, pages, al) \<Rightarrow>
                               im\<lparr>si_alloc_address := addr, si_alloc_pages := pages, si_alloc_alignment := al\<rparr>)
                       in Some (Inl st, free_buffer b (free_blocks (image_blocks im1)
                            (s2\<lparr>ps_ld := free_pages_alloc_image im1 ld\<rparr>)))
                   | Inr l \<Rightarrow>
                       let im1 = im\<lparr>si_li := ls_li ld, si_entry_point := lr_entry_point l,
                             si_alloc_address := lr_alloc_address l, si_alloc_pages := lr_alloc_pages l,
                             si_alloc_alignment := lr_alloc_alignment l\<rparr>
                       in Some (Inr (la_handle a), free_buffer b
                            (s2\<lparr>ps_ld := ld, ps_images := (la_image a, im1) # ps_images s2,
                                ps_handles := (ps_handles s2)(la_handle a \<mapsto> la_image a)\<rparr>))
                 })
      })"

section \<open>StartImage, UnloadImage and Exit\<close>

text \<open>What a call does: it returns a status, passes the call on to the firmware, enters the image at an address,
  or jumps back into the \<^verbatim>\<open>StartImage\<close> call of a structure.\<close>

datatype call = Done efi_status | System | Enter nat | Jump nat

text \<open>The handle of an image that shim has not loaded: \<^verbatim>\<open>HandleProtocol\<close> gives \<^verbatim>\<open>EFI_UNSUPPORTED\<close> for a handle of the
  firmware and \<^verbatim>\<open>EFI_INVALID_PARAMETER\<close> for anything else.\<close>

definition no_protocol :: "proto_state \<Rightarrow> nat \<Rightarrow> efi_status" where
  "no_protocol s h = (if ps_foreign s h then EFI_UNSUPPORTED else EFI_INVALID_PARAMETER)"

definition store_image :: "nat \<Rightarrow> shim_image \<Rightarrow> proto_state \<Rightarrow> proto_state" where
  "store_image x im s = s\<lparr>ps_images := map (\<lambda>(y, i). (y, if y = x then im else i)) (ps_images s)\<rparr>"

definition delete_image :: "nat \<Rightarrow> proto_state \<Rightarrow> proto_state" where
  "delete_image x s = s\<lparr>ps_images := filter (\<lambda>(y, i). y \<noteq> x) (ps_images s)\<rparr>"

text \<open>\<^verbatim>\<open>shim_start_image\<close> up to the call of the entry point.\<close>

definition start_enter :: "nat \<Rightarrow> proto_state \<Rightarrow> (call \<times> proto_state) option" where
  "start_enter h s =
     (case ps_handles s h of
        None \<Rightarrow> Some (if no_protocol s h = EFI_UNSUPPORTED then System else Done EFI_INVALID_PARAMETER, s)
      | Some x \<Rightarrow> do {
          im \<leftarrow> map_of (ps_images s) x;
          if si_started im then Some (Done EFI_INVALID_PARAMETER, s)
          else Some (Enter (si_entry_point im), store_image x (im\<lparr>si_started := True\<rparr>) s)
        })"

text \<open>\<^verbatim>\<open>shim_start_image\<close> from there on: the image has returned \<open>st\<close>, or has come back through \<^verbatim>\<open>shim_exit\<close>.\<close>

definition start_finish :: "nat \<Rightarrow> nat \<Rightarrow> efi_status option \<Rightarrow> proto_state \<Rightarrow> (efi_status \<times> proto_state) option" where
  "start_finish h x ret s = do {
     im \<leftarrow> map_of (ps_images s) x;
     let st = (case ret of Some st \<Rightarrow> st | None \<Rightarrow> si_exit_status im);
         ld = (ps_ld s)\<lparr>ls_cache := flush_cached_sections h (ls_cache (ps_ld s))\<rparr>
     in Some (st, delete_image x (free_blocks (image_blocks im)
          (s\<lparr>ps_ld := free_pages_alloc_image im ld, ps_handles := (ps_handles s)(h := None)\<rparr>)))
   }"

definition shim_unload_image :: "nat \<Rightarrow> proto_state \<Rightarrow> (call \<times> proto_state) option" where
  "shim_unload_image h s =
     (case ps_handles s h of
        None \<Rightarrow> Some (if no_protocol s h = EFI_UNSUPPORTED then System else Done (no_protocol s h), s)
      | Some x \<Rightarrow> do {
          im \<leftarrow> map_of (ps_images s) x;
          let ld = (ps_ld s)\<lparr>ls_cache := flush_cached_sections h (ls_cache (ps_ld s))\<rparr> in
          Some (Done EFI_SUCCESS, delete_image x (free_blocks (image_blocks im) (s\<lparr>ps_ld := free_pages_alloc_image im ld\<rparr>)))
        })"

definition shim_exit :: "nat \<Rightarrow> efi_status \<Rightarrow> nat \<Rightarrow> nat option \<Rightarrow> proto_state \<Rightarrow> (call \<times> proto_state) option" where
  "shim_exit h ExitStatus ExitDataSize ExitData s =
     (case ps_handles s h of
        None \<Rightarrow> Some (if no_protocol s h = EFI_UNSUPPORTED then System else Done (no_protocol s h), s)
      | Some x \<Rightarrow> do {
          im \<leftarrow> map_of (ps_images s) x;
          Some (Jump x, store_image x (im\<lparr>si_exit_status := ExitStatus, si_exit_data_size := ExitDataSize,
            si_exit_data := ExitData\<rparr>) s)
        })"

section \<open>The hooks\<close>

text \<open>The four services of the boot services table, and the saved ones; a service is shim's or the firmware's
  (a number). \<open>hk_systab\<close> says whether \<^verbatim>\<open>systab\<close> is set.\<close>

datatype service = Shim | Firmware nat

record boot_services =
  bs_LoadImage :: service
  bs_StartImage :: service
  bs_UnloadImage :: service
  bs_Exit :: service

record hooks =
  hk_systab :: bool
  hk_table :: boot_services
  hk_load :: service
  hk_start :: service
  hk_unload :: service
  hk_exit :: service

definition hook_system_services :: "hooks \<Rightarrow> hooks" where
  "hook_system_services s =
     (let t = hk_table s in
      s\<lparr>hk_systab := True, hk_load := bs_LoadImage t, hk_start := bs_StartImage t, hk_unload := bs_UnloadImage t,
        hk_table := t\<lparr>bs_LoadImage := Shim, bs_StartImage := Shim, bs_UnloadImage := Shim\<rparr>\<rparr>)"

definition unhook_system_services :: "hooks \<Rightarrow> hooks" where
  "unhook_system_services s =
     (if \<not> hk_systab s then s
      else s\<lparr>hk_table := (hk_table s)\<lparr>bs_LoadImage := hk_load s, bs_StartImage := hk_start s, bs_Exit := hk_exit s,
          bs_UnloadImage := hk_unload s\<rparr>\<rparr>)"

definition hook_exit :: "hooks \<Rightarrow> hooks" where
  "hook_exit s =
     s\<lparr>hk_systab := True, hk_exit := bs_Exit (hk_table s), hk_table := (hk_table s)\<lparr>bs_Exit := Shim\<rparr>\<rparr>"

definition unhook_exit :: "hooks \<Rightarrow> hooks" where
  "unhook_exit s = s\<lparr>hk_table := (hk_table s)\<lparr>bs_Exit := hk_exit s\<rparr>\<rparr>"

text \<open>What \<^verbatim>\<open>shim_init\<close> hooks, \<^verbatim>\<open>shim_fini\<close> gives back, both when the services are hooked (\<open>full\<close>) and when only
  \<^verbatim>\<open>Exit\<close> is.\<close>

lemma hooks_roundtrip:
  "hk_table (unhook_exit ((if full then unhook_system_services else id)
     (hook_exit ((if full then hook_system_services else id) s)))) = hk_table s"
  by (auto simp: hook_system_services_def unhook_system_services_def hook_exit_def unhook_exit_def Let_def)

section \<open>Runs of the protocol\<close>

text \<open>A running image is its handle and the address of its structure; the stack has the latest one first. An
  exit abandons the images that were started after the one it returns to.\<close>

type_synonym stack = "(nat \<times> nat) list"

text \<open>What the protocol relies on: the firmware gives fresh handles and addresses, and pages that are not in
  use, at an address other than zero. The statuses of the file protocols are success or errors.\<close>

definition plain :: "efi_status \<Rightarrow> bool" where
  "plain st \<longleftrightarrow> st = EFI_SUCCESS \<or> EFI_ERROR st"

definition firmware_ok :: "load_env \<Rightarrow> file_env \<Rightarrow> load_args \<Rightarrow> proto_state \<Rightarrow> bool" where
  "firmware_ok e fe a s \<longleftrightarrow>
     (\<forall>n addr memory. le_AllocatePages e n = Some (addr, memory) \<longrightarrow>
        addr \<noteq> 0 \<and> n \<noteq> 0 \<and> addr \<notin> fst ` set (ls_pages (ps_ld s))) \<and>
     la_image a \<notin> fst ` set (ps_images s) \<and> ps_handles s (la_handle a) = None \<and>
     (\<forall>n. plain (fst (fe_Read fe n)) \<and> plain (fst (fe_LoadFile fe n)))"

text \<open>A successful \<^verbatim>\<open>LoadImage\<close> call: the state of the firmware, the environment, the files, the arguments and the
  state of the protocol when it was made. The history of a run has the latest call first.\<close>

record 'w load_call =
  lc_w :: 'w
  lc_env :: load_env
  lc_files :: file_env
  lc_args :: load_args
  lc_before :: proto_state

definition record_load :: "'w load_call \<Rightarrow> efi_status + nat \<Rightarrow> 'w load_call list \<Rightarrow> 'w load_call list" where
  "record_load c r hist = (case r of Inl st \<Rightarrow> hist | Inr h \<Rightarrow> c # hist)"

lemma record_load_simps [simp]: "record_load c (Inl st) hist = hist" "record_load c (Inr h) hist = c # hist"
  by (simp_all add: record_load_def)

text \<open>The call that created the structure at an address.\<close>

definition created_by :: "nat \<Rightarrow> 'w load_call list \<Rightarrow> 'w load_call option" where
  "created_by x hist = find (\<lambda>c. la_image (lc_args c) = x) hist"

inductive proto_run ::
    "'w efi_rt \<Rightarrow> ('w \<Rightarrow> bool) \<Rightarrow> ('h, 'g) digests \<Rightarrow> (nat \<times> nat) list \<Rightarrow> 'w load_call list \<Rightarrow> proto_state \<Rightarrow> stack \<Rightarrow> bool"
  for rt winv cr pgs where
  init: "ls_pages (ps_ld s) = pgs \<Longrightarrow> ps_blocks s = 0 \<Longrightarrow> ps_images s = [] \<Longrightarrow> ps_handles s = (\<lambda>h. None) \<Longrightarrow>
    proto_run rt winv cr pgs [] s []"
| load: "proto_run rt winv cr pgs hist s stk \<Longrightarrow> firmware_ok e fe a s \<Longrightarrow> winv w \<Longrightarrow>
    shim_load_image rt w e cr fe a s = Some (r, s') \<Longrightarrow>
    proto_run rt winv cr pgs (record_load \<lparr>lc_w = w, lc_env = e, lc_files = fe, lc_args = a, lc_before = s\<rparr> r hist) s' stk"
| start: "proto_run rt winv cr pgs hist s stk \<Longrightarrow> start_enter h s = Some (Enter ep, s') \<Longrightarrow> ps_handles s h = Some x \<Longrightarrow>
    proto_run rt winv cr pgs hist s' ((h, x) # stk)"
| return: "proto_run rt winv cr pgs hist s ((h, x) # stk) \<Longrightarrow> start_finish h x (Some st) s = Some (st', s') \<Longrightarrow>
    proto_run rt winv cr pgs hist s' stk"
| exit: "proto_run rt winv cr pgs hist s (newer @ (h, x) # stk) \<Longrightarrow> shim_exit h st n data s = Some (Jump x, s1) \<Longrightarrow>
    start_finish h x None s1 = Some (st', s') \<Longrightarrow> proto_run rt winv cr pgs hist s' stk"
| unload: "proto_run rt winv cr pgs hist s stk \<Longrightarrow> shim_unload_image h s = Some (c, s') \<Longrightarrow>
    proto_run rt winv cr pgs hist s' stk"

section \<open>What has been accepted\<close>

text \<open>What the verification of a file in a state of the firmware establishes, when allocations succeed and the
  databases are well-formed lists: the header was accepted, no deny list has a digest of the file, an allow list
  has one or the certificate table has a signature that is accepted, and the SBAT section passed the check.\<close>

definition authorised ::
    "('w \<Rightarrow> var_map) \<Rightarrow> ('h, 'g) digests \<Rightarrow> 'w \<Rightarrow> load_env \<Rightarrow> buf \<Rightarrow> nat \<Rightarrow> vstate \<Rightarrow> bool" where
  "authorised vars cr w e d n s \<longleftrightarrow>
     (\<forall>dv. view_ok (le_v e) (vars w) dv \<and> digest_sizes cr \<and> pool_ok (vpool s) \<longrightarrow>
       (\<exists>c c' h256 h1 p1 base sz p2 st p3. read_header (le_pe e) d n True = Some (Inr c) \<and>
          generate_hash cr (vpool s) d n c = Some (Inr (c', h256, h1), p1) \<and>
          \<not> hash_denied dv h256 h1 \<and>
          (hash_allowed (le_v e) dv h256 h1 \<or>
            (\<exists>sig. in_table d (SecDir c') sig \<and> sig_accepted (le_v e) dv h256 sig)) \<and>
          find_sbat (le_data e) d n c' 0 None 0 = Some (Inr (base, sz)) \<and> pool_ok p2 \<and>
          verify_sbat_section (le_sbat e) (in_protocol (le_pe e)) d base sz p2 = Some (st, p3) \<and> \<not> EFI_ERROR st))"

text \<open>The image that a given \<^verbatim>\<open>LoadImage\<close> call created: the bytes of the call went through \<^verbatim>\<open>handle_image\<close> in the state of
  the call, and its entry point is the one found there. Either the section cache vouched for the bytes of the
  caller's buffer when the call was made, or the call was made outside secure mode, or the bytes were
  authorised.\<close>

definition call_env :: "'w load_call \<Rightarrow> load_env" where
  "call_env c = (lc_env c)\<lparr>le_pe := (le_pe (lc_env c))\<lparr>in_protocol := True\<rparr>\<rparr>"

definition accepted :: "'w efi_rt \<Rightarrow> ('w \<Rightarrow> var_map) \<Rightarrow> ('h, 'g) digests \<Rightarrow> 'w load_call \<Rightarrow> shim_image \<Rightarrow> bool" where
  "accepted rt vars cr c im \<longleftrightarrow>
     (\<exists>pv d n b s1 im0 s2 l ld.
        load_source (fst cr) (lc_files c) (lc_args c) (lc_before c) = Some (Inr (pv, d, n, b), s1) \<and>
        make_image (lc_args c) b s1 = (Inr im0, s2) \<and>
        handle_image rt (lc_w c) (call_env c) cr d (n mod 2 ^ 32) (la_handle (lc_args c)) pv (ps_ld s2) = Some (Inr l, ld) \<and>
        si_entry_point im = lr_entry_point l \<and>
        (if pv then \<exists>p'. validate_cached_section (fst cr) (get_pool (lc_before c)) (la_ParentImageHandle (lc_args c))
             (take n d) (ls_cache (ps_ld (lc_before c))) = (EFI_SUCCESS, p')
         else secure_mode rt (le_insecure (lc_env c)) (lc_w c) \<longrightarrow>
           authorised vars cr (lc_w c) (call_env c) d (n mod 2 ^ 32) (ls_v (ps_ld s2))))"

lemma verify_and_measure_secure:
  assumes "verify_and_measure rt w e cr d n False v = Some (Inr c, v')" and "secure_mode rt (le_insecure e) w"
  shows "\<exists>c0 c1 s1 st. read_header (le_pe e) d n True = Some (Inr c0) \<and>
    verify_buffer rt w (le_v e) cr (le_sbat e) (in_protocol (le_pe e)) (le_data e) d n c0 False v = Some (st, c1, s1) \<and>
    \<not> EFI_ERROR st"
proof -
  obtain hdr where h: "read_header (le_pe e) d n True = Some hdr"
    using assms(1) by (auto simp: verify_and_measure_def bind_Some_iff)
  then obtain c0 where c0: "read_header (le_pe e) d n True = Some (Inr c0)"
    using assms(1) by (cases hdr) (auto simp: verify_and_measure_def)
  then show ?thesis
    using assms by (auto simp: verify_and_measure_def bind_Some_iff split: if_splits)
qed

context variable_services
begin

lemma handle_image_authorised:
  assumes "inv w" and "handle_image rt w e cr d n h False s = Some (Inr r, s')" and "secure_mode rt (le_insecure e) w"
  shows "authorised vars cr w e d n (ls_v s)"
proof -
  obtain c v where "verify_and_measure rt w e cr d n False (ls_v s) = Some (Inr c, v)"
    using handle_image_Inr [OF assms(2)] by blast
  from verify_and_measure_secure [OF this assms(3)] obtain c0 c1 s1 st where
    r: "read_header (le_pe e) d n True = Some (Inr c0)"
    and v: "verify_buffer rt w (le_v e) cr (le_sbat e) (in_protocol (le_pe e)) (le_data e) d n c0 False (ls_v s) =
      Some (st, c1, s1)" "\<not> EFI_ERROR st"
    by blast
  show ?thesis
    unfolding authorised_def
  proof (intro allI impI, elim conjE)
    fix dv
    assume a: "view_ok (le_v e) (vars w) dv" "digest_sizes cr" "pool_ok (vpool (ls_v s))"
    from verify_buffer_sound [OF assms(1) a v] r v(2)
    show "\<exists>c c' h256 h1 p1 base sz p2 st p3. read_header (le_pe e) d n True = Some (Inr c) \<and>
          generate_hash cr (vpool (ls_v s)) d n c = Some (Inr (c', h256, h1), p1) \<and>
          \<not> hash_denied dv h256 h1 \<and>
          (hash_allowed (le_v e) dv h256 h1 \<or>
            (\<exists>sig. in_table d (SecDir c') sig \<and> sig_accepted (le_v e) dv h256 sig)) \<and>
          find_sbat (le_data e) d n c' 0 None 0 = Some (Inr (base, sz)) \<and> pool_ok p2 \<and>
          verify_sbat_section (le_sbat e) (in_protocol (le_pe e)) d base sz p2 = Some (st, p3) \<and> \<not> EFI_ERROR st"
      by blast
  qed
qed

end

section \<open>The invariant\<close>

definition image_pages :: "nat \<times> shim_image \<Rightarrow> nat \<times> nat" where
  "image_pages p = (si_alloc_address (snd p), si_alloc_pages (snd p))"

definition image_ok ::
    "'w efi_rt \<Rightarrow> ('w \<Rightarrow> var_map) \<Rightarrow> ('h, 'g) digests \<Rightarrow> 'w load_call list \<Rightarrow> nat \<times> shim_image \<Rightarrow> bool" where
  "image_ok rt vars cr hist p \<longleftrightarrow> si_alloc_address (snd p) \<noteq> 0 \<and> si_alloc_pages (snd p) \<noteq> 0 \<and>
     (\<exists>c. created_by (fst p) hist = Some c \<and> accepted rt vars cr c (snd p))"

definition proto_inv ::
    "'w efi_rt \<Rightarrow> ('w \<Rightarrow> var_map) \<Rightarrow> ('h, 'g) digests \<Rightarrow> (nat \<times> nat) list \<Rightarrow> 'w load_call list \<Rightarrow> proto_state \<Rightarrow> bool" where
  "proto_inv rt vars cr pgs hist s \<longleftrightarrow> distinct (map fst (ps_images s)) \<and>
     mset (ls_pages (ps_ld s)) = mset pgs + mset (map image_pages (ps_images s)) \<and>
     ps_blocks s = sum_list (map (image_blocks \<circ> snd) (ps_images s)) \<and>
     (\<forall>p \<in> set (ps_images s). image_ok rt vars cr hist p)"

text \<open>What the parts of \<^verbatim>\<open>shim_load_image\<close> before \<^verbatim>\<open>handle_image\<close> leave alone.\<close>

definition same_images :: "proto_state \<Rightarrow> proto_state \<Rightarrow> bool" where
  "same_images s s' \<longleftrightarrow> ls_pages (ps_ld s') = ls_pages (ps_ld s) \<and> ps_images s' = ps_images s \<and>
     ps_handles s' = ps_handles s"

lemma same_images_simps [simp]:
  "same_images s s" "same_images s (set_pool p s') = same_images s s'" "same_images s (free_blocks n s') = same_images s s'"
  "same_images s (s'\<lparr>ps_blocks := n\<rparr>) = same_images s s'" "ps_blocks (set_pool p s) = ps_blocks s"
  "ps_blocks (free_blocks n s) = ps_blocks s - n"
  by (simp_all add: same_images_def set_pool_def free_blocks_def)

lemma same_images_trans: "same_images s s' \<Longrightarrow> same_images s' s'' \<Longrightarrow> same_images s s''"
  by (simp add: same_images_def)

lemma alloc_block_same:
  "alloc_block n s = (ok, s') \<Longrightarrow> same_images s s' \<and> ps_blocks s' = (if ok then ps_blocks s + 1 else ps_blocks s)"
  by (auto simp: alloc_block_def split: prod.splits)

definition buffer_blocks :: "buffer_properties \<Rightarrow> nat" where
  "buffer_blocks b = (if bp_buffer b \<noteq> None \<and> bp_allocated_buffer b then 1 else 0)"

lemma free_buffer_same: "same_images s (free_buffer b s') = same_images s s'" "ps_blocks (free_buffer b s) = ps_blocks s - buffer_blocks b"
  by (simp_all add: free_buffer_def buffer_blocks_def)

lemma try_load_from_sfs_same:
  assumes "try_load_from_sfs fe dp b s = (st, b', s')" and "\<forall>n. plain (fst (fe_Read fe n))"
  shows "same_images s s' \<and> ps_blocks s' = ps_blocks s + (if st = EFI_SUCCESS then 1 else 0) \<and>
    (st = EFI_SUCCESS \<longrightarrow> buffer_blocks b' = 1)"
proof -
  have "st = EFI_SUCCESS" if "fe_Read fe n = (st, x)" "\<not> EFI_ERROR st" for n st x
    using assms(2) [rule_format, of n] that by (simp add: plain_def)
  then show ?thesis
    using assms(1)
    by (auto simp: try_load_from_sfs_def Let_def buffer_blocks_def status_simps split: prod.splits if_splits bool.splits
        dest!: alloc_block_same)
qed

lemma try_load_from_lf2_same:
  assumes "try_load_from_lf2 fe dp b s = (st, b', s')" and "\<forall>n. plain (fst (fe_LoadFile fe n))"
  shows "same_images s s' \<and> ps_blocks s' = ps_blocks s + (if st = EFI_SUCCESS then 1 else 0) \<and>
    (st = EFI_SUCCESS \<longrightarrow> buffer_blocks b' = 1)"
proof -
  have "st = EFI_SUCCESS" if "fe_LoadFile fe n = (st, x)" "\<not> EFI_ERROR st" for n st x
    using assms(2) [rule_format, of n] that by (simp add: plain_def)
  then show ?thesis
    using assms(1)
    by (auto simp: try_load_from_lf2_def Let_def buffer_blocks_def status_simps split: prod.splits if_splits bool.splits
        dest!: alloc_block_same)
qed

lemma validate_entries_status: "validate_entries H p parent s xs = (st, p') \<Longrightarrow> \<not> EFI_ERROR st \<Longrightarrow> st = EFI_SUCCESS"
proof (induction xs arbitrary: p)
  case (Cons x xs)
  obtain r p1 where r: "do_sha256_sum H p s = (r, p1)" by fastforce
  have "EFI_ERROR e" if "r = Inl e" for e
    using r that by (auto simp: do_sha256_sum_def status_simps split: prod.splits if_splits option.splits)
  then show ?case using Cons r by (auto split: if_splits sum.splits)
qed (auto simp: status_simps)

lemma validate_cached_section_status:
  "validate_cached_section H p parent x cache = (st, p') \<Longrightarrow> \<not> EFI_ERROR st \<Longrightarrow> st = EFI_SUCCESS"
  unfolding validate_cached_section_def by (rule validate_entries_status)

text \<open>A source: its buffer is the only new block, and if the parent vouches for it, it is in the section cache.\<close>

lemma load_source_same:
  assumes r: "load_source H fe a s = Some (r, s')" and fw: "firmware_ok e fe a s"
  shows "same_images s s' \<and> ps_blocks s' = ps_blocks s + (case r of Inl st \<Rightarrow> 0 | Inr (pv, d, n, b) \<Rightarrow> buffer_blocks b) \<and>
    (case r of Inl st \<Rightarrow> True | Inr (pv, d, n, b) \<Rightarrow> pv \<longrightarrow>
      (\<exists>p'. validate_cached_section H (get_pool s) (la_ParentImageHandle a) (take n d) (ls_cache (ps_ld s)) = (EFI_SUCCESS, p')))"
proof (cases "la_SourceSize a = 0 \<or> la_SourceBuffer a = None")
  case True
  show ?thesis
  proof (cases "la_DevicePath a")
    case None
    then show ?thesis using r True by (auto simp: load_source_def)
  next
    case (Some dp)
    obtain st b s1 where f: "try_load_from_sfs fe dp no_buffer s = (st, b, s1)" by (cases "try_load_from_sfs fe dp no_buffer s")
    obtain st2 b2 s2 where l: "try_load_from_lf2 fe dp b s1 = (st2, b2, s2)" by (cases "try_load_from_lf2 fe dp b s1")
    have "same_images s s1 \<and> ps_blocks s1 = ps_blocks s + (if st = EFI_SUCCESS then 1 else 0) \<and>
        (st = EFI_SUCCESS \<longrightarrow> buffer_blocks b = 1)"
      using try_load_from_sfs_same [OF f] fw by (simp add: firmware_ok_def)
    moreover have "same_images s1 s2 \<and> ps_blocks s2 = ps_blocks s1 + (if st2 = EFI_SUCCESS then 1 else 0) \<and>
        (st2 = EFI_SUCCESS \<longrightarrow> buffer_blocks b2 = 1)"
      using try_load_from_lf2_same [OF l] fw by (simp add: firmware_ok_def)
    ultimately show ?thesis
      using r True Some f l same_images_trans by (auto simp: load_source_def bind_Some_iff split: if_splits)
  qed
next
  case False
  then obtain d x where d: "la_SourceBuffer a = Some d" "rdn d 0 (la_SourceSize a) = Some x" "x = take (la_SourceSize a) d"
    using r by (auto simp: load_source_def bind_Some_iff rdn_Some_iff)
  let ?b = "no_buffer\<lparr>bp_buffer := Some d, bp_size := la_SourceSize a\<rparr>"
  obtain st p where v: "validate_cached_section H (get_pool s) (la_ParentImageHandle a) x (ls_cache (ps_ld s)) = (st, p)"
    by fastforce
  have st: "st = EFI_SUCCESS" if "\<not> EFI_ERROR st"
    using v that validate_cached_section_status by metis
  have val: "\<exists>p'. validate_cached_section H (get_pool s) (la_ParentImageHandle a) (take (la_SourceSize a) d)
      (ls_cache (ps_ld s)) = (EFI_SUCCESS, p')" if "st = EFI_SUCCESS"
    using v that d(3) by blast
  show ?thesis
    using r False d v st val
    by (auto simp: load_source_def try_load_from_cached_section_def no_buffer_def buffer_blocks_def Let_def
        split: if_splits prod.splits option.splits)
qed

lemma duplicate_path_same:
  "duplicate_path dp s = (failed, s') \<Longrightarrow>
    same_images s s' \<and> ps_blocks s' = ps_blocks s + (if failed \<or> dp = None then 0 else 1)"
  by (auto simp: duplicate_path_def split: option.splits prod.splits dest: alloc_block_same)

lemma make_image_same:
  assumes "make_image a b s = (r, s')"
  shows "same_images s s' \<and> ps_blocks s' = ps_blocks s + (case r of Inl st \<Rightarrow> 0 | Inr im \<Rightarrow> image_blocks im) \<and>
    (case r of Inl st \<Rightarrow> True | Inr im \<Rightarrow> si_ParentHandle im = la_ParentImageHandle a \<and> si_alloc_address im = 0)"
proof -
  obtain ok s1 where a1: "alloc_block 0 s = (ok, s1)" by fastforce
  obtain f1 s2 where a2: "duplicate_path (bp_dp b) s1 = (f1, s2)" by fastforce
  obtain f2 s3 where a3: "duplicate_path (la_DevicePath a) s2 = (f2, s3)" by fastforce
  note same = alloc_block_same [OF a1] duplicate_path_same [OF a2] duplicate_path_same [OF a3]
  show ?thesis
    using assms a1 a2 a3 same same_images_trans [of s s1 s2] same_images_trans [of s s2 s3]
    by (auto simp: make_image_def image_blocks_def empty_image_def Let_def split: if_splits bool.splits)
qed

lemma free_pages_alloc_image_pages:
  "ls_pages (free_pages_alloc_image im ld) =
     (if si_alloc_address im = 0 \<or> si_alloc_pages im = 0 then ls_pages ld
      else remove1 (si_alloc_address im, si_alloc_pages im) (ls_pages ld))"
  by (simp add: free_pages_alloc_image_def FreePages_def update_mem_attrs_log_def Let_def)

lemma alloc_outputs_fresh:
  assumes "alloc_outputs rt w e cr d n pv ld = Some (addr, pages, al)"
  shows "\<exists>memory. le_AllocatePages e pages = Some (addr, memory)"
  using assms by (auto simp: alloc_outputs_def split: option.splits sum.splits prod.splits)

context variable_services
begin

lemma load_inv:
  assumes pinv: "proto_inv rt vars cr pgs hist s" and fw: "firmware_ok e fe a s" and w: "inv w"
    and r: "shim_load_image rt w e cr fe a s = Some (r, s')"
  shows "proto_inv rt vars cr pgs
    (record_load \<lparr>lc_w = w, lc_env = e, lc_files = fe, lc_args = a, lc_before = s\<rparr> r hist) s'"
proof (cases "la_BootPolicy a")
  case True
  then show ?thesis using r pinv by (auto simp: shim_load_image_def)
next
  case False
  obtain src s1 where src: "load_source (fst cr) fe a s = Some (src, s1)"
    using r False by (auto simp: shim_load_image_def bind_Some_iff)
  note same1 = load_source_same [OF src fw]
  show ?thesis
  proof (cases src)
    case (Inl st)
    then show ?thesis
      using r False src same1 pinv by (auto simp: shim_load_image_def proto_inv_def same_images_def)
  next
    case (Inr y)
    obtain pv d n b where y: "y = (pv, d, n, b)" by (cases y)
    obtain mk s2 where mk: "make_image a b s1 = (mk, s2)" by fastforce
    note same2 = make_image_same [OF mk]
    have same: "same_images s s2" using same1 same2 same_images_trans by blast
    show ?thesis
    proof (cases mk)
      case (Inl st)
      then show ?thesis
        using r False src \<open>src = Inr y\<close> y mk same1 same2 same pinv
        by (auto simp: shim_load_image_def proto_inv_def same_images_def free_buffer_def buffer_blocks_def free_blocks_def
            split: if_splits)
    next
      case (Inr im)
      let ?e = "e\<lparr>le_pe := (le_pe e)\<lparr>in_protocol := True\<rparr>\<rparr>"
      obtain q ld where q: "handle_image rt w ?e cr d (n mod 2 ^ 32) (la_handle a) pv (ps_ld s2) = Some (q, ld)"
        using r False src \<open>src = Inr y\<close> y mk Inr by (auto simp: shim_load_image_def bind_Some_iff Let_def)
      have pages: "ls_pages ld = (case q of Inl st \<Rightarrow> ls_pages (ps_ld s2)
          | Inr l \<Rightarrow> (lr_alloc_address l, lr_alloc_pages l) # ls_pages (ps_ld s2))"
        using handle_image_keeps_pages [of "ps_ld s2" rt w ?e cr d "n mod 2 ^ 32" "la_handle a" pv] q
        by (auto simp: keeps_pages_def)
      have blocks: "ps_blocks s2 = ps_blocks s + buffer_blocks b + image_blocks im"
        using same1 same2 \<open>src = Inr y\<close> y Inr by simp
      show ?thesis
      proof (cases q)
        case (Inl st)
        define im1 where "im1 = (case alloc_outputs rt w ?e cr d (n mod 2 ^ 32) pv (ps_ld s2) of None \<Rightarrow> im
          | Some (addr, pages, al) \<Rightarrow> im\<lparr>si_alloc_address := addr, si_alloc_pages := pages, si_alloc_alignment := al\<rparr>)"
        have s': "s' = free_buffer b (free_blocks (image_blocks im1) (s2\<lparr>ps_ld := free_pages_alloc_image im1 ld\<rparr>))"
          using r False src \<open>src = Inr y\<close> y mk \<open>mk = Inr im\<close> q Inl by (simp add: shim_load_image_def Let_def im1_def)
        have ib: "image_blocks im1 = image_blocks im" by (auto simp: im1_def image_blocks_def split: option.split)
        have "si_alloc_address im1 = 0 \<or> si_alloc_address im1 \<notin> fst ` set (ls_pages (ps_ld s2))"
        proof (cases "alloc_outputs rt w ?e cr d (n mod 2 ^ 32) pv (ps_ld s2)")
          case None
          then show ?thesis using same2 \<open>mk = Inr im\<close> by (simp add: im1_def)
        next
          case (Some z)
          obtain addr pages al where z: "z = (addr, pages, al)" by (cases z)
          then obtain memory where "le_AllocatePages ?e pages = Some (addr, memory)"
            using alloc_outputs_fresh [OF Some [unfolded z]] by blast
          then have "addr \<notin> fst ` set (ls_pages (ps_ld s))" using fw unfolding firmware_ok_def by simp blast
          then show ?thesis using same Some z by (simp add: im1_def same_images_def)
        qed
        then have "si_alloc_address im1 = 0 \<or> (si_alloc_address im1, si_alloc_pages im1) \<notin> set (ls_pages (ps_ld s2))"
          by force
        then have "ls_pages (free_pages_alloc_image im1 ld) = ls_pages (ps_ld s2)"
          using pages Inl by (auto simp: free_pages_alloc_image_pages remove1_idem)
        then have "ls_pages (ps_ld s') = ls_pages (ps_ld s2)" "ps_images s' = ps_images s2" "ps_blocks s' = ps_blocks s"
          using s' ib blocks by (auto simp: free_buffer_def free_blocks_def buffer_blocks_def)
        moreover have "r = Inl st"
          using r False src \<open>src = Inr y\<close> y mk \<open>mk = Inr im\<close> q Inl by (simp add: shim_load_image_def Let_def)
        ultimately show ?thesis using pinv same by (simp add: proto_inv_def same_images_def)
      next
        case (Inr l)
        define im1 where "im1 = im\<lparr>si_li := ls_li ld, si_entry_point := lr_entry_point l,
            si_alloc_address := lr_alloc_address l, si_alloc_pages := lr_alloc_pages l,
            si_alloc_alignment := lr_alloc_alignment l\<rparr>"
        have s': "s' = free_buffer b (s2\<lparr>ps_ld := ld, ps_images := (la_image a, im1) # ps_images s2,
            ps_handles := (ps_handles s2)(la_handle a \<mapsto> la_image a)\<rparr>)"
          using r False src \<open>src = Inr y\<close> y mk \<open>mk = Inr im\<close> q Inr by (simp add: shim_load_image_def Let_def im1_def)
        have hi: "handle_image rt w ?e cr d (n mod 2 ^ 32) (la_handle a) pv (ps_ld s2) = Some (Inr l, ld)"
          using q Inr by simp
        obtain memory where "le_AllocatePages ?e (lr_alloc_pages l) = Some (lr_alloc_address l, memory)"
          using handle_image_Inr [OF hi] by auto
        then have al: "lr_alloc_address l \<noteq> 0" "lr_alloc_pages l \<noteq> 0" using fw by (auto simp: firmware_ok_def)
        define c where "c = \<lparr>lc_w = w, lc_env = e, lc_files = fe, lc_args = a, lc_before = s\<rparr>"
        have "accepted rt vars cr c im1"
          unfolding accepted_def
        proof (intro exI conjI)
          show "load_source (fst cr) (lc_files c) (lc_args c) (lc_before c) = Some (Inr (pv, d, n, b), s1)"
            using src \<open>src = Inr y\<close> y by (simp add: c_def)
          show "make_image (lc_args c) b s1 = (Inr im, s2)" using mk \<open>mk = Inr im\<close> by (simp add: c_def)
          show "handle_image rt (lc_w c) (call_env c) cr d (n mod 2 ^ 32) (la_handle (lc_args c)) pv (ps_ld s2) = Some (Inr l, ld)"
            using hi by (simp add: c_def call_env_def)
          show "si_entry_point im1 = lr_entry_point l" by (simp add: im1_def)
          show "if pv then \<exists>p'. validate_cached_section (fst cr) (get_pool (lc_before c)) (la_ParentImageHandle (lc_args c))
                (take n d) (ls_cache (ps_ld (lc_before c))) = (EFI_SUCCESS, p')
              else secure_mode rt (le_insecure (lc_env c)) (lc_w c) \<longrightarrow>
                authorised vars cr (lc_w c) (call_env c) d (n mod 2 ^ 32) (ls_v (ps_ld s2))"
          proof (cases pv)
            case True
            then show ?thesis using same1 \<open>src = Inr y\<close> y by (simp add: c_def)
          next
            case False
            then show ?thesis
              using handle_image_authorised [OF w hi [simplified False]] by (simp add: c_def call_env_def)
          qed
        qed
        then have new: "image_ok rt vars cr (c # hist) (la_image a, im1)"
          using al by (simp add: image_ok_def created_by_def c_def im1_def)
        have old: "image_ok rt vars cr (c # hist) p" if "p \<in> set (ps_images s)" for p
          using pinv fw that by (fastforce simp: proto_inv_def firmware_ok_def image_ok_def created_by_def c_def)
        have r': "record_load c r hist = c # hist"
          using r False src \<open>src = Inr y\<close> y mk \<open>mk = Inr im\<close> q Inr
          by (auto simp: shim_load_image_def Let_def)
        have "image_blocks im1 = image_blocks im" by (simp add: im1_def image_blocks_def)
        moreover have "ps_blocks s' = ps_blocks s + image_blocks im" "ls_pages (ps_ld s') = ls_pages ld"
            "ps_images s' = (la_image a, im1) # ps_images s2"
          using s' blocks by (auto simp: free_buffer_def free_blocks_def buffer_blocks_def)
        ultimately show ?thesis
          using pinv same fw pages Inr new [unfolded c_def] old [unfolded c_def]
          by (auto simp: proto_inv_def same_images_def image_pages_def im1_def firmware_ok_def r' [unfolded c_def])
      qed
    qed
  qed
qed

end

text \<open>The other calls: what becomes of the list of structures.\<close>

lemma map_of_split:
  assumes "distinct (map fst xs)" and "map_of xs x = Some im"
  shows "mset xs = add_mset (x, im) (mset (filter (\<lambda>(y, i). y \<noteq> x) xs))"
  using assms
proof (induction xs)
  case (Cons p xs)
  obtain y i where p: "p = (y, i)" by (cases p)
  show ?case
  proof (cases "y = x")
    case True
    then have "filter (\<lambda>(y, i). y \<noteq> x) xs = xs" using Cons.prems p by (intro filter_True) force
    then show ?thesis using True p Cons.prems by simp
  next
    case False
    then show ?thesis using Cons p by simp
  qed
qed simp

lemma store_image_inv:
  assumes "proto_inv rt vars cr pgs hist s" and "map_of (ps_images s) x = Some im"
    and "image_pages (x, im') = image_pages (x, im)" "image_blocks im' = image_blocks im"
      "si_entry_point im' = si_entry_point im"
  shows "proto_inv rt vars cr pgs hist (store_image x im' s)"
proof -
  let ?f = "\<lambda>(y, i). (y, if y = x then im' else i)"
  have acc: "accepted rt vars cr c im' = accepted rt vars cr c im" for c unfolding accepted_def assms(5) ..
  have f: "fst (?f p) = fst p" "image_pages (?f p) = image_pages p" "image_blocks (snd (?f p)) = image_blocks (snd p)"
      "image_ok rt vars cr hist (?f p) = image_ok rt vars cr hist p"
    if "p \<in> set (ps_images s)" for p
  proof -
    obtain y i where p: "p = (y, i)" by (cases p)
    have "distinct (map fst (ps_images s))" using assms(1) by (simp add: proto_inv_def)
    then have "y = x \<Longrightarrow> i = im" using assms(2) that p map_of_eq_Some_iff [of "ps_images s" y i] by simp
    then show "fst (?f p) = fst p" "image_pages (?f p) = image_pages p" "image_blocks (snd (?f p)) = image_blocks (snd p)"
        "image_ok rt vars cr hist (?f p) = image_ok rt vars cr hist p"
      using assms(3,4) acc p by (auto simp: image_pages_def image_ok_def)
  qed
  have maps: "map fst (map ?f (ps_images s)) = map fst (ps_images s)"
      "map image_pages (map ?f (ps_images s)) = map image_pages (ps_images s)"
      "map (image_blocks \<circ> snd) (map ?f (ps_images s)) = map (image_blocks \<circ> snd) (ps_images s)"
    using f by (auto simp del: split_paired_All)
  have st: "ps_images (store_image x im' s) = map ?f (ps_images s)" "ps_ld (store_image x im' s) = ps_ld s"
      "ps_blocks (store_image x im' s) = ps_blocks s"
    by (simp_all add: store_image_def)
  have "\<forall>p \<in> set (map ?f (ps_images s)). image_ok rt vars cr hist p"
    using assms(1) f(4) by (auto simp: proto_inv_def simp del: split_paired_All)
  then show ?thesis using assms(1) unfolding proto_inv_def st maps by blast
qed

text \<open>Freeing a structure, its pages and its blocks.\<close>

lemma delete_image_inv:
  assumes pinv: "proto_inv rt vars cr pgs hist s" and im: "map_of (ps_images s) x = Some im"
    and ld: "ls_pages ld = ls_pages (ps_ld s)"
    and s': "ps_images s' = filter (\<lambda>(y, i). y \<noteq> x) (ps_images s)" "ps_blocks s' = ps_blocks s - image_blocks im"
      "ps_ld s' = free_pages_alloc_image im ld"
  shows "proto_inv rt vars cr pgs hist s'"
proof -
  have m: "mset (ps_images s) = add_mset (x, im) (mset (ps_images s'))"
    using map_of_split [OF _ im] pinv s'(1) by (simp add: proto_inv_def)
  have "(x, im) \<in> set (ps_images s)" using im by (rule map_of_SomeD)
  then have nz: "si_alloc_address im \<noteq> 0" "si_alloc_pages im \<noteq> 0" using pinv by (auto simp: proto_inv_def image_ok_def)
  have "mset (map image_pages (ps_images s)) = add_mset (image_pages (x, im)) (mset (map image_pages (ps_images s')))"
    using arg_cong [OF m, of "image_mset image_pages"] by simp
  then have "mset (ls_pages (ps_ld s')) = mset pgs + mset (map image_pages (ps_images s'))"
    using pinv ld nz s'(3) by (simp add: proto_inv_def free_pages_alloc_image_pages image_pages_def)
  moreover have "sum_list (map (image_blocks \<circ> snd) (ps_images s)) =
      image_blocks im + sum_list (map (image_blocks \<circ> snd) (ps_images s'))"
    using arg_cong [OF m, of "\<lambda>m. \<Sum>p \<in># m. image_blocks (snd p)"]
    by (simp add: comp_def flip: sum_mset_sum_list)
  ultimately show ?thesis
    using pinv s'(1,2) distinct_map_filter [of fst "ps_images s" "\<lambda>(y, i). y \<noteq> x"] by (auto simp: proto_inv_def)
qed

lemma start_enter_inv:
  assumes "proto_inv rt vars cr pgs hist s" and "start_enter h s = Some (c, s')"
  shows "proto_inv rt vars cr pgs hist s'"
  using assms by (auto simp: start_enter_def bind_Some_iff image_pages_def image_blocks_def split: option.splits if_splits
      intro!: store_image_inv)

lemma start_finish_inv:
  assumes "proto_inv rt vars cr pgs hist s" and "start_finish h x ret s = Some (st, s')"
  shows "proto_inv rt vars cr pgs hist s'"
proof -
  obtain im where im: "map_of (ps_images s) x = Some im" using assms(2) by (auto simp: start_finish_def bind_Some_iff)
  show ?thesis
    by (rule delete_image_inv [OF assms(1) im, where ld = "(ps_ld s)\<lparr>ls_cache := flush_cached_sections h (ls_cache (ps_ld s))\<rparr>"])
      (use assms(2) im in \<open>auto simp: start_finish_def Let_def delete_image_def free_blocks_def\<close>)
qed

lemma shim_exit_inv:
  assumes "proto_inv rt vars cr pgs hist s" and "shim_exit h st n data s = Some (c, s')"
  shows "proto_inv rt vars cr pgs hist s'"
  using assms by (auto simp: shim_exit_def bind_Some_iff image_pages_def image_blocks_def split: option.splits
      intro!: store_image_inv)

lemma shim_unload_image_inv:
  assumes "proto_inv rt vars cr pgs hist s" and "shim_unload_image h s = Some (c, s')"
  shows "proto_inv rt vars cr pgs hist s'"
proof (cases "ps_handles s h")
  case None
  then show ?thesis using assms by (auto simp: shim_unload_image_def)
next
  case (Some x)
  obtain im where im: "map_of (ps_images s) x = Some im" using assms(2) Some by (auto simp: shim_unload_image_def bind_Some_iff)
  show ?thesis
    by (rule delete_image_inv [OF assms(1) im, where ld = "(ps_ld s)\<lparr>ls_cache := flush_cached_sections h (ls_cache (ps_ld s))\<rparr>"])
      (use assms(2) Some im in \<open>auto simp: shim_unload_image_def Let_def delete_image_def free_blocks_def\<close>)
qed

context variable_services
begin

lemma proto_run_inv: "proto_run rt inv cr pgs hist s stk \<Longrightarrow> proto_inv rt vars cr pgs hist s"
proof (induction rule: proto_run.induct)
  case (init s)
  then show ?case by (simp add: proto_inv_def)
next
  case (load hist s stk e fe a w r s')
  then show ?case using load_inv [OF load.IH load.hyps(2,3,4)] by simp
next
  case (start hist s stk h ep s' x)
  then show ?case using start_enter_inv [OF start.IH start.hyps(2)] by simp
next
  case (return hist s h x stk st st' s')
  then show ?case using start_finish_inv [OF return.IH return.hyps(2)] by simp
next
  case (exit hist s newer h x stk st n data s1 st' s')
  then show ?case using start_finish_inv [OF shim_exit_inv [OF exit.IH exit.hyps(2)] exit.hyps(3)] by simp
next
  case (unload hist s stk h c s')
  then show ?case using shim_unload_image_inv [OF unload.IH unload.hyps(2)] by simp
qed

end

section \<open>Properties\<close>

lemma start_enter_EnterD:
  "start_enter h s = Some (Enter ep, s') \<Longrightarrow> \<exists>x im. ps_handles s h = Some x \<and> map_of (ps_images s) x = Some im \<and>
    \<not> si_started im \<and> ep = si_entry_point im \<and> s' = store_image x (im\<lparr>si_started := True\<rparr>) s"
  by (auto simp: start_enter_def bind_Some_iff split: option.splits if_splits)

lemma map_of_store: "map_of (ps_images s) x = Some im \<Longrightarrow> map_of (ps_images (store_image x im' s)) x = Some im'"
proof -
  have "map_of (map (\<lambda>(y, i). (y, if y = x then im' else i)) xs) x = Some im'" if "map_of xs x = Some im" for xs
    using that by (induction xs) (auto split: if_splits)
  then show "map_of (ps_images s) x = Some im \<Longrightarrow> map_of (ps_images (store_image x im' s)) x = Some im'"
    by (simp add: store_image_def)
qed

lemma map_of_delete: "map_of (ps_images (delete_image x s)) x = None"
proof -
  have "map_of (filter (\<lambda>(y, i). y \<noteq> x) xs) x = None" for xs :: "(nat \<times> shim_image) list"
    by (induction xs) auto
  then show ?thesis by (simp add: delete_image_def)
qed

text \<open>A run for the witnesses: the sample image is loaded from memory.\<close>

definition sample_proto :: proto_state where
  "sample_proto = \<lparr>ps_ld = sample_load_state, ps_blocks = 0, ps_images = [], ps_handles = (\<lambda>h. None), ps_foreign = (\<lambda>h. False)\<rparr>"

definition sample_files :: file_env where
  "sample_files = \<lparr>fe_LocateSfs = (\<lambda>dp. (EFI_NOT_FOUND, 0, 0)), fe_file_path = (\<lambda>dp. False),
     fe_HandleProtocolSfs = (\<lambda>h. EFI_NOT_FOUND), fe_OpenVolume = (\<lambda>h. EFI_NOT_FOUND), fe_Open = (\<lambda>h. EFI_NOT_FOUND),
     fe_SetEnd = EFI_NOT_FOUND, fe_GetPosition = (EFI_NOT_FOUND, 0), fe_SetStart = EFI_NOT_FOUND,
     fe_Read = (\<lambda>n. (EFI_NOT_FOUND, [])), fe_LocateLf2 = (\<lambda>dp. (EFI_NOT_FOUND, 0, 0)),
     fe_HandleProtocolLf2 = (\<lambda>h. EFI_NOT_FOUND), fe_LoadFileSize = (EFI_NOT_FOUND, 0),
     fe_LoadFile = (\<lambda>n. (EFI_NOT_FOUND, [])), fe_LocateDp = (\<lambda>dp. (EFI_NOT_FOUND, 0, 0))\<rparr>"

definition sample_args :: load_args where
  "sample_args = \<lparr>la_BootPolicy = False, la_ParentImageHandle = 3, la_DevicePath = None, la_SourceBuffer = Some sample_image,
     la_SourceSize = 392, la_image = 100, la_install = EFI_SUCCESS, la_handle = 7\<rparr>"

lemma sample_env_protocol:
  "handle_image rt w (sample_load_env\<lparr>le_pe := (le_pe sample_load_env)\<lparr>in_protocol := True\<rparr>\<rparr>) cr d n h pv s =
    handle_image rt w sample_load_env cr d n h pv s"
proof -
  let ?e = "sample_load_env\<lparr>le_pe := (le_pe sample_load_env)\<lparr>in_protocol := True\<rparr>\<rparr>"
  have f: "allow_64_bit (le_pe ?e) = allow_64_bit (le_pe sample_load_env)" "allow_32_bit (le_pe ?e) = allow_32_bit (le_pe sample_load_env)"
      "machine_type (le_pe ?e) = machine_type (le_pe sample_load_env)" "mok_policy (le_pe ?e) = mok_policy (le_pe sample_load_env)"
    by (simp_all add: allow_64_bit_def allow_32_bit_def machine_type_def sample_env_def sample_load_env_def)
  have l: "image_is_loadable (le_pe ?e) = image_is_loadable (le_pe sample_load_env)" unfolding image_is_loadable_def [abs_def] f ..
  have r: "read_header (le_pe ?e) = read_header (le_pe sample_load_env)"
    unfolding read_header_def [abs_def] read_header_start_def l f ..
  have ls: "load_section (le_pe ?e) = load_section (le_pe sample_load_env)" unfolding load_section_def [abs_def] f ..
  have lss: "load_sections (le_pe ?e) c d rel i st = load_sections (le_pe sample_load_env) c d rel i st" for c d rel i st
  proof (induction "NumberOfSections c - i" arbitrary: i st)
    case 0
    then show ?case by (simp add: load_sections.simps [of _ c d rel i st])
  next
    case (Suc k)
    have "load_sections (le_pe ?e) c d rel (i + 1) = load_sections (le_pe sample_load_env) c d rel (i + 1)"
      using Suc by (intro ext) simp
    then show ?case unfolding load_sections.simps [of _ c d rel i st] ls by simp
  qed
  have lc: "load_contents (le_pe ?e) = load_contents (le_pe sample_load_env)" unfolding load_contents_def [abs_def] lss ..
  have vs: "verify_sbat_section (le_sbat sample_load_env) (in_protocol (le_pe ?e)) =
      verify_sbat_section (le_sbat sample_load_env) (in_protocol (le_pe sample_load_env))"
    by (intro ext) (simp add: verify_sbat_section_def sample_load_env_def)
  have vb: "verify_buffer rt w v cr (le_sbat sample_load_env) (in_protocol (le_pe ?e)) =
      verify_buffer rt w v cr (le_sbat sample_load_env) (in_protocol (le_pe sample_load_env))" for v
    unfolding verify_buffer_def [abs_def] verify_buffer_sbat_def vs ..
  have le: "le_AllocatePages ?e = le_AllocatePages sample_load_env" "le_options ?e = le_options sample_load_env"
      "le_insecure ?e = le_insecure sample_load_env" "le_v ?e = le_v sample_load_env" "le_sbat ?e = le_sbat sample_load_env"
      "le_data ?e = le_data sample_load_env"
    by simp_all
  show ?thesis unfolding handle_image_def verify_and_measure_def r lc le vb ..
qed

lemma sample_load:
  "\<exists>s'. shim_load_image mock_rt0 secure_store sample_load_env sum_digests sample_files sample_args sample_proto =
    Some (Inr 7, s') \<and> firmware_ok sample_load_env sample_files sample_args sample_proto"
proof -
  obtain r ld where h: "handle_image mock_rt0 secure_store sample_load_env sum_digests sample_image 392 7 False sample_load_state =
      Some (Inr r, ld)"
    using sample_handle_image by blast
  have p: "set_pool (\<lambda>_ _. True) sample_proto = sample_proto"
    by (simp add: set_pool_def sample_proto_def sample_load_state_def sample_vstate_def)
  have v: "validate_cached_section (fst sum_digests) (get_pool sample_proto) 3 x (ls_cache (ps_ld sample_proto)) =
      (EFI_NOT_FOUND, \<lambda>_ _. True)" for x
    by (simp add: validate_cached_section_def sample_proto_def sample_load_state_def empty_cache_def get_pool_def sample_vstate_def)
  have r: "rdn sample_image 0 392 = Some sample_image" by (simp add: rdn_def length_sample_image)
  have src: "\<exists>b. load_source (fst sum_digests) sample_files sample_args sample_proto =
      Some (Inr (False, sample_image, 392, b), sample_proto) \<and> bp_dp b = None"
    using v r p by (simp add: load_source_def sample_args_def try_load_from_cached_section_def status_simps no_buffer_def)
  then obtain b where b: "load_source (fst sum_digests) sample_files sample_args sample_proto =
      Some (Inr (False, sample_image, 392, b), sample_proto)" "bp_dp b = None" by blast
  have a: "alloc_block 0 sample_proto = (True, sample_proto\<lparr>ps_blocks := 1\<rparr>)"
    using p by (simp add: alloc_block_def AllocatePool_def get_pool_def sample_proto_def sample_load_state_def sample_vstate_def set_pool_def)
  obtain im where m: "make_image sample_args b sample_proto = (Inr im, sample_proto\<lparr>ps_blocks := 1\<rparr>)"
    using a b(2) by (simp add: make_image_def duplicate_path_def sample_args_def Let_def status_simps)
  have f: "la_BootPolicy sample_args = False" "la_handle sample_args = 7" "ps_ld sample_proto = sample_load_state"
    by (simp_all add: sample_args_def sample_proto_def)
  have "firmware_ok sample_load_env sample_files sample_args sample_proto"
    by (simp add: firmware_ok_def sample_args_def sample_proto_def sample_load_env_def sample_files_def plain_def status_simps
        sample_load_state_def)
  then show ?thesis
    unfolding shim_load_image_def f using b(1) m h
    by (simp add: sample_env_protocol f Let_def)
qed

lemma sample_run: "proto_run mock_rt0 mock_inv sum_digests [] [] sample_proto []"
  by (rule proto_run.init) (simp_all add: sample_proto_def sample_load_state_def)

text \<open>An image that has just been loaded can be started.\<close>

lemma loaded_starts:
  assumes "shim_load_image rt w e cr fe a s = Some (Inr h, s')"
  shows "\<exists>ep s''. start_enter h s' = Some (Enter ep, s'')"
proof -
  have b: "\<not> la_BootPolicy a" using assms by (auto simp: shim_load_image_def)
  obtain src s1 where src: "load_source (fst cr) fe a s = Some (src, s1)"
    using assms b by (auto simp: shim_load_image_def bind_Some_iff)
  then obtain pv d n b where y: "src = Inr (pv, d, n, b)"
    using assms \<open>\<not> la_BootPolicy a\<close> by (cases src) (auto simp: shim_load_image_def)
  obtain mk s2 where mk: "make_image a b s1 = (mk, s2)" by fastforce
  then obtain im where im: "mk = Inr im" using assms src y \<open>\<not> la_BootPolicy a\<close> by (cases mk) (auto simp: shim_load_image_def)
  have ns: "\<not> si_started im"
    using mk im by (auto simp: make_image_def empty_image_def Let_def split: prod.splits bool.splits if_splits)
  obtain q ld where q: "handle_image rt w (e\<lparr>le_pe := (le_pe e)\<lparr>in_protocol := True\<rparr>\<rparr>) cr d (n mod 2 ^ 32) (la_handle a) pv
      (ps_ld s2) = Some (q, ld)"
    using assms src y mk im \<open>\<not> la_BootPolicy a\<close> by (auto simp: shim_load_image_def bind_Some_iff Let_def)
  then obtain l where "q = Inr l"
    using assms src y mk im \<open>\<not> la_BootPolicy a\<close> by (cases q) (auto simp: shim_load_image_def Let_def)
  then show ?thesis
    using assms src y mk im q ns \<open>\<not> la_BootPolicy a\<close>
    by (auto simp: shim_load_image_def Let_def start_enter_def free_buffer_def free_blocks_def)
qed

lemma sample_enter:
  "shim_load_image mock_rt0 secure_store sample_load_env sum_digests sample_files sample_args sample_proto = Some (Inr 7, s') \<Longrightarrow>
    \<exists>ep s''. start_enter 7 s' = Some (Enter ep, s'')"
  by (rule loaded_starts)

text \<open>C33. Mediation: whatever sequence of \<^verbatim>\<open>LoadImage\<close>, \<^verbatim>\<open>StartImage\<close>, \<^verbatim>\<open>Exit\<close> and \<^verbatim>\<open>UnloadImage\<close> calls has been made, when
  \<^verbatim>\<open>shim_start_image\<close> passes control to an address for a handle, the structure behind the handle was created by a
  successful \<^verbatim>\<open>LoadImage\<close> call of that very sequence, and the address is the entry point that \<^verbatim>\<open>handle_image\<close> found
  for the bytes of that call. When the call was made, the section cache vouched for the bytes of the caller's
  buffer, or the firmware was not in secure mode, or, with well-formed databases and with allocations that
  succeed, no deny list had a digest of the bytes, an allow list had one or a signature of theirs was accepted,
  and their SBAT section passed. The image is then marked as started, and starting it again is refused.\<close>

theorem start_image_mediated:
  assumes run: "proto_run (mock_rt gt) mock_inv cr pgs hist s stk" and enter: "start_enter h s = Some (Enter ep, s')"
  shows "\<exists>x im c. ps_handles s h = Some x \<and> map_of (ps_images s) x = Some im \<and> si_entry_point im = ep \<and>
    created_by x hist = Some c \<and> accepted (mock_rt gt) mock_vars cr c im \<and>
    start_enter h s' = Some (Done EFI_INVALID_PARAMETER, s')"
proof -
  obtain x im where x: "ps_handles s h = Some x" "map_of (ps_images s) x = Some im" "ep = si_entry_point im"
      "s' = store_image x (im\<lparr>si_started := True\<rparr>) s"
    using start_enter_EnterD [OF enter] by blast
  have "image_ok (mock_rt gt) mock_vars cr hist (x, im)"
    using mock.proto_run_inv [OF run] map_of_SomeD [OF x(2)] by (auto simp: proto_inv_def)
  then obtain c where "created_by x hist = Some c" "accepted (mock_rt gt) mock_vars cr c im"
    by (auto simp: image_ok_def)
  moreover have "ps_handles s' h = Some x" using x by (simp add: store_image_def)
  then have "start_enter h s' = Some (Done EFI_INVALID_PARAMETER, s')"
    using map_of_store [OF x(2)] x(4) by (simp add: start_enter_def)
  ultimately show ?thesis using x by blast
qed

text \<open>The call of the witness: the sample image, in secure mode.\<close>

definition sample_call :: "mock_state load_call" where
  "sample_call = \<lparr>lc_w = secure_store, lc_env = sample_load_env, lc_files = sample_files, lc_args = sample_args,
     lc_before = sample_proto\<rparr>"

lemma sample_call_run:
  "\<exists>s'. shim_load_image mock_rt0 secure_store sample_load_env sum_digests sample_files sample_args sample_proto =
      Some (Inr 7, s') \<and> proto_run mock_rt0 mock_inv sum_digests [] [sample_call] s' []"
proof -
  obtain s' where l: "shim_load_image mock_rt0 secure_store sample_load_env sum_digests sample_files sample_args sample_proto =
      Some (Inr 7, s')" "firmware_ok sample_load_env sample_files sample_args sample_proto"
    using sample_load by blast
  then show ?thesis
    using proto_run.load [OF sample_run l(2) secure_store_inv l(1)] by (auto simp: sample_call_def)
qed

theorem start_image_mediated_witness:
  "\<exists>s' ep s'' im. shim_load_image mock_rt0 secure_store sample_load_env sum_digests sample_files sample_args sample_proto =
      Some (Inr 7, s') \<and> start_enter 7 s' = Some (Enter ep, s'') \<and> accepted mock_rt0 mock_vars sum_digests sample_call im \<and>
    si_entry_point im = ep \<and> secure_mode mock_rt0 (le_insecure (lc_env sample_call)) (lc_w sample_call)"
proof -
  obtain s' where l: "shim_load_image mock_rt0 secure_store sample_load_env sum_digests sample_files sample_args sample_proto =
      Some (Inr 7, s')" and run: "proto_run mock_rt0 mock_inv sum_digests [] [sample_call] s' []"
    using sample_call_run by blast
  obtain ep s'' where e: "start_enter 7 s' = Some (Enter ep, s'')" using sample_enter [OF l] by blast
  have c: "c = sample_call" if "created_by x [sample_call] = Some c" for x c
    using that by (auto simp: created_by_def split: if_splits)
  have "secure_mode mock_rt0 (le_insecure (lc_env sample_call)) (lc_w sample_call)"
    using secure_store_secure by (simp add: sample_call_def sample_load_env_def)
  then show ?thesis using l e start_image_mediated [OF run e] c by blast
qed

text \<open>C34. Accounting: in every reachable state the allocated pages are those of before and those of the loaded
  images, and the pool blocks in use are the structures of the loaded images and the copies of their paths,
  on every error path of the loader as well.\<close>

theorem loader_accounting:
  assumes "proto_run (mock_rt gt) mock_inv cr pgs hist s stk"
  shows "mset (ls_pages (ps_ld s)) = mset pgs + mset (map image_pages (ps_images s)) \<and>
    ps_blocks s = sum_list (map (image_blocks \<circ> snd) (ps_images s))"
  using mock.proto_run_inv [OF assms] by (simp add: proto_inv_def)

theorem loader_accounting_witness:
  "\<exists>s'. shim_load_image mock_rt0 secure_store sample_load_env sum_digests sample_files sample_args sample_proto =
      Some (Inr 7, s') \<and> ps_blocks s' = sum_list (map (image_blocks \<circ> snd) (ps_images s'))"
  using sample_call_run loader_accounting by blast

text \<open>What the protocol does not prevent: an unloaded image keeps its handle, through which its freed structure is
  read again; an image may be unloaded while it runs, and its return then uses the freed structure; and after
  a failed load the pages, which \<^verbatim>\<open>handle_image\<close> has freed, have their permissions changed and are freed again.\<close>

lemma unload_dangling:
  assumes "ps_handles s h = Some x" and "shim_unload_image h s = Some (Done EFI_SUCCESS, s')"
  shows "start_enter h s' = None" and "start_finish h x ret s' = None"
proof -
  have "ps_handles s' h = Some x" "map_of (ps_images s') x = None"
    using assms map_of_delete
    by (auto simp: shim_unload_image_def bind_Some_iff Let_def delete_image_def free_blocks_def)
  then show "start_enter h s' = None" and "start_finish h x ret s' = None"
    by (simp_all add: start_enter_def start_finish_def)
qed

lemma failed_load_frees_twice:
  assumes "alloc_outputs rt w e cr d n pv s = Some (addr, pages, al)" and "addr \<noteq> 0" and "pages \<noteq> 0"
    and "handle_image rt w e cr d n h pv s = Some (Inl st, ld)" and "(addr, pages) \<notin> set (ls_pages s)"
  shows "(addr, pages) \<notin> set (ls_pages ld)" and
    "ls_attrs (free_pages_alloc_image (im\<lparr>si_alloc_address := addr, si_alloc_pages := pages, si_alloc_alignment := al\<rparr>) ld) =
      ls_attrs ld @ [\<lparr>au_addr = ALIGN_VALUE addr al, au_len = pages * PAGE_SIZE, au_set = MEM_ATTR_R + MEM_ATTR_W,
        au_clear = MEM_ATTR_X\<rparr>]"
  using assms handle_image_keeps_pages [of s rt w e cr d n h pv]
  by (simp_all add: keeps_pages_def free_pages_alloc_image_def Let_def FreePages_def update_mem_attrs_log_def)

end
