(* ===== verification/Load_Options.thy ===== *)
theory Load_Options
  imports Shim_Base "HOL-Library.Monad_Syntax"
begin

text \<open>
  Paths and load options: \<^verbatim>\<open>include/ucs2.h\<close>, \<^verbatim>\<open>dp.c\<close>, \<^verbatim>\<open>generate_path\<close> of \<^verbatim>\<open>lib/execute.c\<close> and \<^verbatim>\<open>load-options.c\<close>.

  A \<^verbatim>\<open>CHAR16\<close> string that is only read is the list of its characters without the terminator; one that the
  code edits in place is a buffer of 16-bit words with bounds-checked accesses. The load options are a
  buffer of bytes, and the pointers into it are indices. \<^verbatim>\<open>DevicePathToStr\<close> belongs to the firmware's library:
  its result, which is NULL when memory runs out, is a parameter. Paths have fewer than \<open>2 ^ 31\<close> characters, so
  that the \<^verbatim>\<open>int\<close> counters of the path code do not overflow.
\<close>

section \<open>UCS-2 strings\<close>

definition upper :: "16 word \<Rightarrow> 16 word" where
  "upper c = (if 0x61 \<le> c \<and> c \<le> 0x7A then c - 32 else c)"

fun StrCaseCmp :: "ucs2 \<Rightarrow> ucs2 \<Rightarrow> int" where
  "StrCaseCmp [] [] = 0"
| "StrCaseCmp [] (y # t) = uint y"
| "StrCaseCmp (x # s) [] = - uint x"
| "StrCaseCmp (x # s) (y # t) = (if upper x \<noteq> upper y then uint (upper y) - uint (upper x) else StrCaseCmp s t)"

fun StrnCaseCmp :: "ucs2 \<Rightarrow> ucs2 \<Rightarrow> nat \<Rightarrow> int" where
  "StrnCaseCmp s t 0 = 0"
| "StrnCaseCmp [] [] (Suc n) = 0"
| "StrnCaseCmp [] (y # t) (Suc n) = uint y"
| "StrnCaseCmp (x # s) [] (Suc n) = - uint x"
| "StrnCaseCmp (x # s) (y # t) (Suc n) =
     (if upper x \<noteq> upper y then uint (upper y) - uint (upper x) else StrnCaseCmp s t n)"

fun StrCSpn :: "ucs2 \<Rightarrow> ucs2 \<Rightarrow> nat" where
  "StrCSpn [] reject = 0"
| "StrCSpn (c # s) reject = (if c \<in> set reject then 0 else Suc (StrCSpn s reject))"

text \<open>\<^verbatim>\<open>StrnCmp\<close> of the EFI library compares at most \<open>n\<close> characters.\<close>

definition StrnCmp :: "ucs2 \<Rightarrow> ucs2 \<Rightarrow> nat \<Rightarrow> int" where
  "StrnCmp s t n = StrCmp (take n s) (take n t)"

text \<open>A string in a buffer that is edited: the characters up to the first NUL, and the bounds-checked
  accesses to single characters. \<^verbatim>\<open>StrCat\<close> writes behind the end of the string that is there.\<close>

fun wstr :: "ucs2 \<Rightarrow> ucs2 option" where
  "wstr [] = None"
| "wstr (c # b) = (if c = 0 then Some [] else map_option ((#) c) (wstr b))"

definition rdw :: "ucs2 \<Rightarrow> nat \<Rightarrow> 16 word option" where
  "rdw b i = (if i < length b then Some (b ! i) else None)"

definition wrw :: "ucs2 \<Rightarrow> nat \<Rightarrow> 16 word \<Rightarrow> ucs2 option" where
  "wrw b i v = (if i < length b then Some (b[i := v]) else None)"

definition StrCat :: "ucs2 \<Rightarrow> ucs2 \<Rightarrow> ucs2 option" where
  "StrCat b s = do {
     t \<leftarrow> wstr b;
     if length t + length s + 1 \<le> length b then Some (t @ s @ 0 # drop (length t + length s + 1) b) else None
   }"

definition StrCpy :: "ucs2 \<Rightarrow> ucs2 \<Rightarrow> ucs2 option" where
  "StrCpy b s = (if length s + 1 \<le> length b then Some (s @ 0 # drop (length s + 1) b) else None)"

abbreviation backslash :: "16 word" where "backslash \<equiv> 0x5C"
abbreviation slash :: "16 word" where "slash \<equiv> 0x2F"

section \<open>Device paths as strings\<close>

text \<open>\<^verbatim>\<open>is_removable_media_path\<close>; the string is not compared with NULL before it is read.\<close>

definition efi_boot :: ucs2 where
  "efi_boot = wlit ''EFI'' @ backslash # wlit ''BOOT'' @ [backslash]"

definition is_removable_media_path :: "ucs2 option \<Rightarrow> bool option" where
  "is_removable_media_path dp = do {
     bootpath \<leftarrow> dp;
     Some (if StrnCaseCmp bootpath (backslash # efi_boot @ wlit ''BOOT'') 14 \<noteq> 0 \<and>
              StrnCaseCmp bootpath (backslash # efi_boot @ wlit ''/BOOT'') 15 \<noteq> 0 \<and>
              StrnCaseCmp bootpath (efi_boot @ wlit ''BOOT'') 13 \<noteq> 0 \<and>
              StrnCaseCmp bootpath (efi_boot @ wlit ''/BOOT'') 14 \<noteq> 0 then False
           else let pathlen = length bootpath in
             \<not> (pathlen < 5 \<or> StrCaseCmp (drop (pathlen - 4) bootpath) (wlit ''.EFI'') \<noteq> 0))
   }"

text \<open>\<^verbatim>\<open>generate_path\<close> of \<^verbatim>\<open>lib/execute.c\<close>. The first loop turns slashes into backslashes and remembers the last
  one; the second goes back over the backslashes before it, and reads the character before the string if
  they start the string. Then the string is cut off at the position found, and the name is appended. The
  contents of allocated memory are the parameter \<open>junk\<close>.\<close>

fun find_separator :: "nat \<Rightarrow> ucs2 \<Rightarrow> nat option \<Rightarrow> ucs2 \<times> nat option" where
  "find_separator i [] found = ([], found)"
| "find_separator i (c # s) found =
     (let c' = (if c = slash then backslash else c);
          (s', found') = find_separator (i + 1) s (if c' = backslash then Some i else found)
      in (c' # s', found'))"

fun back_over :: "ucs2 \<Rightarrow> nat \<Rightarrow> nat option" where
  "back_over s 0 = None"
| "back_over s (Suc i) = do {
     c \<leftarrow> rdw s i;
     if c = backslash then back_over s i else Some (Suc i)
   }"

definition generate_path :: "(nat \<Rightarrow> 16 word) \<Rightarrow> ucs2 \<Rightarrow> ucs2 option \<Rightarrow> pool \<Rightarrow> ((efi_status + ucs2) \<times> pool) option" where
  "generate_path junk name dp p = do {
     s \<leftarrow> dp;
     let (devpathstr, found) = find_separator 0 s None in do {
       (dir, pathlen) \<leftarrow> (case found of
           None \<Rightarrow> Some (devpathstr, 0)
         | Some i \<Rightarrow> do { j \<leftarrow> back_over devpathstr i; Some (take j devpathstr, j) });
       let sep = (name = [] \<or> hd name \<noteq> backslash);
           n = (if sep then pathlen + 1 else pathlen) + 1 + length name
       in case AllocatePool p (n * 2) of
            (False, p1) \<Rightarrow> Some (Inl EFI_OUT_OF_RESOURCES, p1)
          | (True, p1) \<Rightarrow> do {
              b1 \<leftarrow> StrCpy (map junk [0..<n]) dir;
              b2 \<leftarrow> (if sep then StrCat b1 [backslash] else Some b1);
              b3 \<leftarrow> StrCat b2 name;
              Some (Inr b3, p1)
            }
     }
   }"

section \<open>The path of the second stage\<close>

text \<open>The loops of \<^verbatim>\<open>generate_path_from_image_path\<close>: marking with a slash every backslash that follows another
  one, from the end on, which also finds the first of the last run of backslashes; removing the marks; and
  the start of the file name. \<^verbatim>\<open>last\<close> is -1 until a backslash is found.\<close>

fun mark_runs :: "nat \<Rightarrow> ucs2 \<Rightarrow> int \<Rightarrow> (ucs2 \<times> int) option" where
  "mark_runs 0 b lst = Some (b, lst)"
| "mark_runs (Suc k) b lst = do {
     x \<leftarrow> rdw b (Suc k);
     y \<leftarrow> rdw b k;
     if x = backslash \<and> y = backslash then mark_runs k (b[Suc k := slash]) lst
     else mark_runs k b (if lst = -1 \<and> x = backslash then int (Suc k) else lst)
   }"

function drop_marks :: "nat \<Rightarrow> nat \<Rightarrow> ucs2 \<Rightarrow> ucs2 option" where
  "drop_marks i j b =
     (case rdw b i of
        None \<Rightarrow> None
      | Some c \<Rightarrow>
          if c = 0 then wrw b j 0
          else if c \<noteq> slash then if j < length b then drop_marks (i + 1) (j + 1) (b[j := c]) else None
          else drop_marks (i + 1) j b)"
  by pat_completeness auto
termination
  by (relation "measure (\<lambda>(i, j, b). length b - i)") (auto simp: rdw_def split: if_splits)

declare drop_marks.simps [simp del]

fun file_name :: "nat \<Rightarrow> ucs2 \<Rightarrow> nat \<Rightarrow> nat" where
  "file_name i [] lst = lst"
| "file_name i (c # s) lst = file_name (i + 1) s (if c = backslash then i + 1 else lst)"

text \<open>The directory of the image, edited in the buffer of the string.\<close>

definition cut_path :: "ucs2 \<Rightarrow> ucs2 option" where
  "cut_path q = do {
     (b1, lst) \<leftarrow> mark_runs (length q) (q @ [0]) (-1);
     x \<leftarrow> rdw b1 0;
     let sep = (if lst = -1 \<and> x = backslash then 0 else lst) in do {
       b2 \<leftarrow> wrw b1 (nat (sep + 1)) 0;
       if sep > 0 then drop_marks 0 0 b2 else Some b2
     }
   }"

definition boot_dir :: "ucs2 \<Rightarrow> ucs2 option" where
  "boot_dir path = cut_path (map (\<lambda>c. if c = slash then backslash else c) path)"

definition generate_path_from_image_path ::
    "(nat \<Rightarrow> 16 word) \<Rightarrow> ucs2 option \<Rightarrow> ucs2 \<Rightarrow> pool \<Rightarrow> ((efi_status + ucs2) \<times> pool) option" where
  "generate_path_from_image_path junk dp ImagePath p =
     (if StrSize ImagePath > 5 \<and> StrnCmp ImagePath (backslash # wlit ''EFI'' @ [backslash]) 5 = 0 then
        case AllocatePool p (StrSize ImagePath) of
          (False, p1) \<Rightarrow> Some (Inl EFI_OUT_OF_RESOURCES, p1)
        | (True, p1) \<Rightarrow> Some (Inr (ImagePath @ [0]), p1)
      else do {
        path \<leftarrow> dp;
        buffer \<leftarrow> boot_dir path;
        bootpath \<leftarrow> wstr buffer;
        let name = drop (file_name 0 ImagePath 0) ImagePath in
        case AllocatePool p (StrSize bootpath + StrSize name) of
          (False, p1) \<Rightarrow> Some (Inl EFI_OUT_OF_RESOURCES, p1)
        | (True, p1) \<Rightarrow>
            let b = 0 # map junk [1..<(StrSize bootpath + StrSize name) div 2] in do {
              b1 \<leftarrow> (if StrnCaseCmp bootpath name (length bootpath) \<noteq> 0 then StrCat b bootpath else Some b);
              b2 \<leftarrow> StrCat b1 name;
              Some (Inr b2, p1)
            }
      })"

text \<open>\<^verbatim>\<open>is_our_path\<close> asks for the string of the device path twice.\<close>

definition is_our_path ::
    "(nat \<Rightarrow> 16 word) \<Rightarrow> ucs2 option \<Rightarrow> ucs2 option \<Rightarrow> ucs2 \<Rightarrow> pool \<Rightarrow> (bool \<times> pool) option" where
  "is_our_path junk dp dp' path p =
     (case dp of
        None \<Rightarrow> Some (False, p)
      | Some dppath \<Rightarrow> do {
          (r, p1) \<leftarrow> generate_path_from_image_path junk dp' path p;
          case r of
            Inl st \<Rightarrow> Some (True, p1)
          | Inr b \<Rightarrow> do {
              PathName \<leftarrow> wstr b;
              Some (StrnCaseCmp dppath PathName (length dppath) = 0, p1)
            }
        })"

section \<open>EFI\_LOAD\_OPTION\<close>

text \<open>The description of a load option, two bytes per character: the result is the index after its NUL, and
  an error if a high byte is not zero or the end is missing. \<open>cur\<close> is the address of the description.\<close>

function description_end :: "buf \<Rightarrow> nat \<Rightarrow> nat \<Rightarrow> nat \<Rightarrow> (efi_status + nat) option" where
  "description_end d cur limit i =
     (if \<not> i < limit then Some (Inr i)
      else do {
        c \<leftarrow> rd d (cur + i);
        if i mod 2 \<noteq> 0 then
          if c \<noteq> 0 then Some (Inl EFI_INVALID_PARAMETER) else description_end d cur limit (i + 1)
        else if c = 0 then
          if i + 1 \<ge> limit then Some (Inl EFI_INVALID_PARAMETER)
          else do {
            c' \<leftarrow> rd d (cur + (i + 1));
            Some (if c' \<noteq> 0 then Inl EFI_INVALID_PARAMETER else Inr (i + 1))
          }
        else description_end d cur limit (i + 1)
      })"
  by pat_completeness auto
termination
  by (relation "measure (\<lambda>(d, cur, limit, i). limit - i)") auto

declare description_end.simps [simp del]

text \<open>The walk over the device path. \<open>limit - i\<close> is computed in 32 bits, so that it is large when a node
  reaches behind the limit; the length of a node is compared with the limit and not with the rest.\<close>

partial_function (option) skip_nodes :: "buf \<Rightarrow> nat \<Rightarrow> nat \<Rightarrow> nat \<Rightarrow> (efi_status + nat) option" where
  "skip_nodes d cur limit i =
     (if \<not> sub32 limit i \<ge> 4 then Some (Inr i)
      else do {
        dp_type \<leftarrow> rd d (cur + i);
        dp_subtype \<leftarrow> rd d (cur + i + 1);
        dp_len \<leftarrow> rd16 d (cur + i + 2);
        if dp_len < 4 \<or> dp_len > limit then Some (Inl EFI_INVALID_PARAMETER)
        else if dp_type = 0x7f \<and> dp_subtype = 0xff then
          if dp_len \<noteq> 4 then Some (Inl EFI_INVALID_PARAMETER) else Some (Inr (add32 i dp_len))
        else skip_nodes d cur limit (add32 i dp_len)
      })"

declare skip_nodes.simps [code]

text \<open>The optional data: an address, or NULL, and a size. \<open>start\<close> is the address of the load option.\<close>

definition get_load_option_optional_data :: "buf \<Rightarrow> nat \<Rightarrow> nat \<Rightarrow> (efi_status + nat option \<times> nat) option" where
  "get_load_option_optional_data d start data_size =
     (if data_size < 4 + 2 + 2 + 4 then Some (Inl EFI_INVALID_PARAMETER)
      else do {
        fplistlen \<leftarrow> rd16 d (start + 4);
        if fplistlen > data_size - (4 + 2 + 4) then Some (Inl EFI_INVALID_PARAMETER)
        else let cur = start + 6; limit = data_size - 6 - fplistlen in do {
          e \<leftarrow> description_end d cur limit 0;
          case e of
            Inl st \<Rightarrow> Some (Inl st)
          | Inr i0 \<Rightarrow>
              let i = i0 + 1 in
              if i > limit then Some (Inl EFI_INVALID_PARAMETER)
              else if i = limit then Some (Inr (None, 0))
              else let cur' = cur + i; limit' = limit - i + fplistlen in do {
                n \<leftarrow> skip_nodes d cur' limit' 0;
                case n of
                  Inl st \<Rightarrow> Some (Inl st)
                | Inr k \<Rightarrow>
                    Some (if k > fplistlen then Inl EFI_INVALID_PARAMETER
                      else Inr (Some (cur' + fplistlen), limit' - fplistlen))
              }
        }
      })"

section \<open>parse\_load\_options\<close>

text \<open>A character of the options, and the string at an address of the options.\<close>

definition rdc :: "buf \<Rightarrow> nat \<Rightarrow> 16 word option" where
  "rdc d i = map_option word_of_nat (rd16 d i)"

function wcstr :: "buf \<Rightarrow> nat \<Rightarrow> ucs2 option" where
  "wcstr d i = (case rdc d i of
       None \<Rightarrow> None
     | Some c \<Rightarrow> if c = 0 then Some [] else map_option ((#) c) (wcstr d (i + 2)))"
  by pat_completeness auto
termination
  by (relation "measure (\<lambda>(d, i). length d - i)")
    (auto simp: rdc_def rd16_def rd_le_def rdn_def split: if_splits)

declare wcstr.simps [simp del]

text \<open>The two loops of \<^verbatim>\<open>split_load_options\<close>: \<open>n\<close> is the number of characters left. The second one gives the index
  of the first space or NUL.\<close>

fun skip_spaces :: "buf \<Rightarrow> nat \<Rightarrow> nat \<Rightarrow> nat option" where
  "skip_spaces d start 0 = Some start"
| "skip_spaces d start (Suc n) = do {
     c \<leftarrow> rdc d start;
     if c \<noteq> 0x20 then Some start else skip_spaces d (start + 2) n
   }"

fun find_end :: "buf \<Rightarrow> nat \<Rightarrow> nat \<Rightarrow> nat option option" where
  "find_end d p 0 = Some None"
| "find_end d p (Suc n) = do {
     c \<leftarrow> rdc d p;
     if c = 0x20 \<or> c = 0 then Some (Some 0) else map_option (map_option Suc) (find_end d (p + 2) n)
   }"

text \<open>The result is the options with the terminator, and if there is one the argument, the address of the
  rest, or NULL, and its size.\<close>

definition split_load_options :: "buf \<Rightarrow> nat option \<Rightarrow> nat \<Rightarrow> (buf \<times> (nat \<times> nat option \<times> nat) option) option" where
  "split_load_options d inp in_size =
     (case inp of
        None \<Rightarrow> if in_size div 2 = 0 then Some (d, None) else None
      | Some q \<Rightarrow> do {
          start \<leftarrow> skip_spaces d q (in_size div 2);
          let in_size' = in_size - (start - q) in do {
            e \<leftarrow> find_end d start (in_size' div 2);
            case e of
              None \<Rightarrow> Some (d, None)
            | Some i \<Rightarrow> do {
                d' \<leftarrow> wrn d (start + 2 * i) [0, 0];
                let skip = i + 1; remaining_size = in_size' - skip * 2 in
                Some (d', Some (start, if remaining_size > 0 then Some (start + skip * 2) else None, remaining_size))
              }
          }
        })"

text \<open>The options and the variables that \<^verbatim>\<open>parse_load_options\<close> sets: the fields of the loaded image, and the
  global variables, of which \<^verbatim>\<open>second_stage\<close> is NULL here as long as it has its default.\<close>

record options_state =
  os_buf :: buf
  os_LoadOptions :: "nat option"
  os_LoadOptionsSize :: nat
  os_second_stage :: "nat option"
  os_load_options :: "nat option"
  os_load_options_size :: nat

definition BDS_GUID :: efi_guid where
  "BDS_GUID = GUID 0x8108ac4e 0x9f11 0x4d59 0x85 0x0e 0xe2 0x1a 0x52 0x2c 0x59 0xb2"

text \<open>The second part of the function: an argument that names the loader.\<close>

definition set_second_stage_option :: "options_state \<Rightarrow> options_state option" where
  "set_second_stage_option s = do {
     windows \<leftarrow> (if os_LoadOptionsSize s \<ge> 8 then do {
         q \<leftarrow> os_LoadOptions s;
         x \<leftarrow> rdn (os_buf s) q 8;
         Some (x = lit ''WINDOWS'' @ [0])
       } else Some False);
     if windows then Some s
     else do {
       (d, r) \<leftarrow> split_load_options (os_buf s) (os_LoadOptions s) (os_LoadOptionsSize s);
       case r of
         None \<Rightarrow> Some (s\<lparr>os_buf := d\<rparr>)
       | Some (loader_str, remaining, remaining_size) \<Rightarrow> do {
           c \<leftarrow> rdc d loader_str;
           Some (s\<lparr>os_buf := d, os_second_stage := (if c \<noteq> 0 then Some loader_str else os_second_stage s),
             os_load_options := remaining, os_load_options_size := remaining_size\<rparr>)
         }
     }
   }"

definition parse_load_options ::
    "(nat \<Rightarrow> 16 word) \<Rightarrow> ucs2 option \<Rightarrow> ucs2 option \<Rightarrow> pool \<Rightarrow> options_state \<Rightarrow> (efi_status \<times> options_state \<times> pool) option" where
  "parse_load_options junk dp dp' p s =
     (case os_LoadOptions s of
        None \<Rightarrow> Some (EFI_SUCCESS, s, p)
      | Some q \<Rightarrow>
          let n = os_LoadOptionsSize s in
          if n = 0 then Some (EFI_SUCCESS, s, p)
          else if n mod 2 \<noteq> 0 then Some (EFI_SUCCESS, s, p)
          else if n < 2 then Some (EFI_BAD_BUFFER_SIZE, s, p)
          else do {
            guid \<leftarrow> (if n > 16 then do { x \<leftarrow> rdn (os_buf s) (q + (n - 16)) 16; Some (x = guid_bytes BDS_GUID) } else Some False);
            let n1 = (if guid then n - 16 else n); s1 = s\<lparr>os_LoadOptionsSize := n1\<rparr> in do {
              c \<leftarrow> rdc (os_buf s) q;
              if c = 0 then Some (EFI_SUCCESS, s1, p)
              else do {
                o1 \<leftarrow> get_load_option_optional_data (os_buf s) q n1;
                (s2, p2) \<leftarrow> (case o1 of
                    Inr (od, ods) \<Rightarrow> Some (s1\<lparr>os_LoadOptions := od, os_LoadOptionsSize := ods\<rparr>, p)
                  | Inl st \<Rightarrow> do {
                      (d, r) \<leftarrow> split_load_options (os_buf s1) (Some q) n1;
                      case r of
                        None \<Rightarrow> Some (s1\<lparr>os_buf := d\<rparr>, p)
                      | Some (loader_str, remaining, remaining_size) \<Rightarrow> do {
                          path \<leftarrow> wcstr d loader_str;
                          (ours, p1) \<leftarrow> is_our_path junk dp dp' path p;
                          Some (if ours then s1\<lparr>os_buf := d, os_LoadOptions := remaining, os_LoadOptionsSize := remaining_size\<rparr>
                            else s1\<lparr>os_buf := d\<rparr>, p1)
                        }
                    });
                s3 \<leftarrow> set_second_stage_option s2;
                Some (EFI_SUCCESS, s3, p2)
              }
            }
          })"

section \<open>The path of the second stage: reference definition\<close>

text \<open>The directory of a path: slashes count as backslashes, a run of backslashes as one, and everything
  behind the last one is cut off. The name of a file: what follows the last backslash.\<close>

fun squeeze :: "ucs2 \<Rightarrow> ucs2" where
  "squeeze [] = []"
| "squeeze [c] = [c]"
| "squeeze (x # y # s) = (if x = backslash \<and> y = backslash then squeeze (y # s) else x # squeeze (y # s))"

definition dir_of :: "ucs2 \<Rightarrow> ucs2" where
  "dir_of path = squeeze (rev (dropWhile ((\<noteq>) backslash) (rev (map (\<lambda>c. if c = slash then backslash else c) path))))"

definition base_name :: "ucs2 \<Rightarrow> ucs2" where
  "base_name s = rev (takeWhile ((\<noteq>) backslash) (rev s))"

lemma squeeze_snoc:
  "squeeze (t @ [x]) = squeeze t @ (if x = backslash \<and> t \<noteq> [] \<and> last t = backslash then [] else [x])"
  by (induction t rule: squeeze.induct) auto

lemma squeeze_run: "squeeze (t @ replicate (Suc n) backslash) = squeeze (t @ [backslash])"
proof (induction n)
  case 0
  then show ?case by simp
next
  case (Suc n)
  have "t @ replicate (Suc (Suc n)) backslash = (t @ replicate (Suc n) backslash) @ [backslash]"
    by (simp add: replicate_append_same)
  moreover have "last (t @ replicate (Suc n) backslash) = backslash" by simp
  ultimately show ?case using Suc squeeze_snoc [of "t @ replicate (Suc n) backslash" backslash] by (simp del: replicate.simps)
qed

text \<open>What \<^verbatim>\<open>mark_runs\<close> computes, on the reversed string.\<close>

fun marked :: "ucs2 \<Rightarrow> ucs2" where
  "marked [] = []"
| "marked [c] = [c]"
| "marked (x # y # r) = (if x = backslash \<and> y = backslash then slash else x) # marked (y # r)"

fun run_start :: "int \<Rightarrow> ucs2 \<Rightarrow> int" where
  "run_start l [] = l"
| "run_start l [c] = l"
| "run_start l (x # y # r) =
     run_start (if l = -1 \<and> x = backslash \<and> y \<noteq> backslash then int (length (y # r)) else l) (y # r)"

lemma length_marked [simp]: "length (marked r) = length r"
  by (induction r rule: marked.induct) auto

lemma mark_runs_marked:
  assumes "b = rev r @ z" and "length r = Suc k"
  shows "mark_runs k b l = Some (rev (marked r) @ z, run_start l r)"
  using assms
proof (induction r arbitrary: k b z l rule: marked.induct)
  case 1
  then show ?case by simp
next
  case (2 c)
  then show ?case by simp
next
  case (3 x y r)
  then obtain j where k: "k = Suc j" "j = length r" by auto
  have b: "b ! Suc j = x" "b ! j = y" "Suc j < length b"
    using 3(2) k by (simp_all add: nth_append)
  have m: "mark_runs j (rev (y # r) @ c # z) m = Some (rev (marked (y # r)) @ c # z, run_start m (y # r))" for c m
    using 3(1) k(2) by simp
  have u: "b[Suc j := c] = rev (y # r) @ c # z" for c
    using 3(2) k by (simp add: list_update_append)
  show ?case
    using b m u [of slash] m [of x] 3(2) k by (auto simp: rdw_def)
qed

lemma marked_Cons: "marked (x # r) = (if x = backslash \<and> r \<noteq> [] \<and> hd r = backslash then slash else x) # marked r"
  by (cases r) auto

lemma marked_append: "drop (length a) (marked (a @ r)) = marked r"
  by (induction a) (simp_all add: marked_Cons)

lemma squeeze_marked: "slash \<notin> set t \<Longrightarrow> squeeze t = filter ((\<noteq>) slash) (rev (marked (rev t)))"
proof (induction t rule: rev_induct)
  case Nil
  then show ?case by simp
next
  case (snoc x t)
  then show ?case by (auto simp: squeeze_snoc marked_Cons hd_rev)
qed

text \<open>The position that \<^verbatim>\<open>mark_runs\<close> finds: the start of the last run, unless it is the start of the string.\<close>

lemma run_start_found: "l \<noteq> -1 \<Longrightarrow> run_start l r = l"
  by (induction l r rule: run_start.induct) auto

lemma run_start_none: "backslash \<notin> set r \<Longrightarrow> run_start l r = l"
  by (induction l r rule: run_start.induct) auto

lemma run_start_run:
  "w = [] \<or> hd w \<noteq> backslash \<Longrightarrow>
    run_start (-1) (replicate (Suc m) backslash @ w) = (if w = [] then -1 else int (length w))"
proof (induction m)
  case 0
  then show ?case by (cases w) (auto simp: run_start_found)
next
  case (Suc m)
  then show ?case by simp
qed

lemma run_start_skip:
  "backslash \<notin> set v \<Longrightarrow> run_start (-1) (v @ replicate (Suc m) backslash @ w) = run_start (-1) (replicate (Suc m) backslash @ w)"
proof (induction v)
  case Nil
  then show ?case by simp
next
  case (Cons c v)
  then show ?case by (cases v) auto
qed

lemma last_run:
  assumes "backslash \<in> set r"
  obtains v m w where "r = v @ replicate (Suc m) backslash @ w" "backslash \<notin> set v" "w = [] \<or> hd w \<noteq> backslash"
proof -
  let ?v = "takeWhile ((\<noteq>) backslash) r" and ?u = "dropWhile ((\<noteq>) backslash) r"
  let ?x = "takeWhile ((=) backslash) ?u" and ?w = "dropWhile ((=) backslash) ?u"
  have r: "r = ?v @ ?x @ ?w" by simp
  have u: "?u \<noteq> []" "hd ?u = backslash" using assms hd_dropWhile [of "(\<noteq>) backslash" r] by (auto simp: dropWhile_eq_Nil_conv)
  then have "?x \<noteq> []" by (cases ?u) auto
  moreover have "?x = replicate (length ?x) backslash" by (rule replicate_eqI) (auto dest: set_takeWhileD)
  ultimately obtain m where m: "?x = replicate (Suc m) backslash" by (metis length_0_conv old.nat.exhaust)
  have "backslash \<notin> set ?v" by (auto dest: set_takeWhileD)
  moreover have "?w = [] \<or> hd ?w \<noteq> backslash" using hd_dropWhile [of "(=) backslash" ?u] by auto
  ultimately show ?thesis using that r m by metis
qed

lemma wstr_append: "0 \<notin> set s \<Longrightarrow> wstr (s @ 0 # r) = Some s"
  by (induction s) auto

lemma wstr_SomeD: "wstr b = Some s \<Longrightarrow> 0 \<notin> set s \<and> (\<exists>r. b = s @ 0 # r)"
  by (induction b arbitrary: s) (auto split: if_splits)

lemma drop_marks_filter:
  assumes "drop i b = s @ 0 # r" and "0 \<notin> set s" and "j \<le> i" and "0 \<notin> set (take j b)"
  shows "\<exists>b'. drop_marks i j b = Some b' \<and> wstr b' = Some (take j b @ filter ((\<noteq>) slash) s)"
  using assms
proof (induction s arbitrary: i j b)
  case Nil
  then have "drop i b = 0 # r" by simp
  then have i: "i < length b" "b ! i = 0" using nth_via_drop [of i b 0 r] by (auto intro: ccontr)
  then have j: "j < length b" using Nil(3) by simp
  then have "b[j := 0] = take j b @ 0 # drop (Suc j) b" by (rule upd_conv_take_nth_drop)
  then show ?case using i j Nil(4) by (subst drop_marks.simps) (simp add: rdw_def wrw_def wstr_append)
next
  case (Cons c s)
  have i: "i < length b" "b ! i = c" "drop (Suc i) b = s @ 0 # r"
    using Cons.prems(1) nth_via_drop [of i b c "s @ 0 # r"] by (auto intro: ccontr simp: drop_Suc drop_tl)
  show ?case
  proof (cases "c = slash")
    case True
    then show ?thesis
      using Cons.IH [OF i(3)] Cons.prems i by (subst drop_marks.simps) (simp add: rdw_def)
  next
    case False
    have j: "j < length b" using i Cons.prems(3) by simp
    have "drop (Suc i) (b[j := c]) = s @ 0 # r" using i(3) Cons.prems(3) by simp
    moreover have "take (Suc j) (b[j := c]) = take j b @ [c]" using j by (simp add: take_Suc_conv_app_nth)
    ultimately show ?thesis
      using Cons.IH [of "Suc i" "b[j := c]" "Suc j"] Cons.prems i(1,2) j False by (subst drop_marks.simps) (simp add: rdw_def)
  qed
qed

lemma map_slash: "slash \<notin> set (map (\<lambda>c. if c = slash then backslash else c) path)"
  by auto

lemma map_slash_nul: "0 \<notin> set path \<Longrightarrow> 0 \<notin> set (map (\<lambda>c. if c = slash then backslash else c) path)"
  by auto

lemma marked_nul: "0 \<notin> set r \<Longrightarrow> 0 \<notin> set (marked r)"
  by (induction r rule: marked.induct) auto

lemma marked_set: "set (marked r) \<subseteq> insert slash (set r)"
  by (induction r rule: marked.induct) auto

text \<open>The loops compute the directory of the path.\<close>

lemma cut_dir:
  assumes q: "slash \<notin> set (rev r)" "0 \<notin> set (rev r)"
  shows "\<exists>b. cut_path (rev r) = Some b \<and> wstr b = Some (squeeze (rev (dropWhile ((\<noteq>) backslash) r)))"
proof -
  have m: "mark_runs (length r) (rev r @ [0]) (-1) = Some (rev (marked (0 # r)), run_start (-1) (0 # r))"
    using mark_runs_marked [of "rev r @ [0]" "0 # r" "[]" "length r"] by simp
  have mk: "marked (0 # r) = 0 # marked r" by (simp add: marked_Cons)
  have rs: "run_start (-1) (0 # r) = run_start (-1) r" by (cases r) auto
  show ?thesis
  proof (cases "backslash \<in> set r")
    case False
    then have dw: "dropWhile ((\<noteq>) backslash) r = []" unfolding dropWhile_eq_Nil_conv by blast
    let ?m = "rev (marked (0 # r))"
    have "backslash \<notin> set ?m" using False mk marked_set [of r] by auto
    moreover have "?m \<noteq> []" by (simp add: mk)
    ultimately have "?m ! 0 \<noteq> backslash" by (metis hd_conv_nth hd_in_set)
    then show ?thesis
      unfolding dw using m rs run_start_none [OF False, of "-1"] \<open>?m \<noteq> []\<close>
      by (cases ?m) (auto simp: cut_path_def rdw_def wrw_def)
  next
    case True
    then obtain v k w where r: "r = v @ replicate (Suc k) backslash @ w" "backslash \<notin> set v"
        "w = [] \<or> hd w \<noteq> backslash"
      by (rule last_run)
    let ?t = "rev w @ [backslash]" and ?u = "v @ replicate k backslash"
    have dw: "dropWhile ((\<noteq>) backslash) r = replicate (Suc k) backslash @ w"
      unfolding r(1) using r(2) by (induction v) auto
    have dir: "squeeze (rev (dropWhile ((\<noteq>) backslash) r)) = squeeze ?t"
      unfolding dw using squeeze_run [of "rev w" k] by (simp del: replicate.simps)
    have ls: "run_start (-1) r = (if w = [] then -1 else int (length w))"
      unfolding r(1) using run_start_skip [OF r(2)] run_start_run [OF r(3)] by simp
    have t: "0 \<notin> set ?t" "slash \<notin> set ?t" using q r(1) by auto
    have ru: "r = ?u @ backslash # w" unfolding r(1) by (simp add: replicate_app_Cons_same)
    have "marked r = take (length ?u) (marked r) @ marked (backslash # w)"
      using marked_append [of ?u "backslash # w"] append_take_drop_id [of "length ?u" "marked r"] ru by simp
    then have "rev (marked r) = rev (marked (backslash # w)) @ rev (take (length ?u) (marked r))"
      by (metis rev_append)
    then obtain a where a: "rev (marked (0 # r)) = rev (marked (backslash # w)) @ a @ [0]"
      unfolding mk by auto
    have mt: "marked (backslash # w) = backslash # marked w" using r(3) by (auto simp: marked_Cons)
    let ?b = "rev (marked (backslash # w)) @ 0 # tl (a @ [0])"
    have b: "(rev (marked (backslash # w)) @ a @ [0]) [Suc (length w) := 0] = ?b"
      by (cases a) (simp_all add: mt list_update_append)
    have sq: "squeeze ?t = filter ((\<noteq>) slash) (rev (marked (backslash # w)))"
      using squeeze_marked [OF t(2)] by simp
    have mn: "0 \<notin> set (rev (marked (backslash # w)))" using t(1) marked_nul [of "backslash # w"] by simp
    show ?thesis
    proof (cases "w = []")
      case True
      then show ?thesis unfolding dir
        using m rs ls b unfolding a by (simp add: cut_path_def rdw_def wrw_def)
    next
      case False
      have "drop 0 ?b = rev (marked (backslash # w)) @ 0 # tl (a @ [0])" by simp
      from drop_marks_filter [OF this mn, of 0] obtain b' where "drop_marks 0 0 ?b = Some b'"
          "wstr b' = Some (squeeze ?t)"
        using sq by auto
      then show ?thesis unfolding dir
        using m rs ls False b unfolding a by (simp add: cut_path_def rdw_def wrw_def nat_add_distrib mt)
    qed
  qed
qed

lemma boot_dir_spec:
  assumes "0 \<notin> set path"
  shows "\<exists>b. boot_dir path = Some b \<and> wstr b = Some (dir_of path)"
  unfolding boot_dir_def dir_of_def
  using cut_dir [of "rev (map (\<lambda>c. if c = slash then backslash else c) path)"] assms by fastforce

lemma file_name_base: "drop (file_name 0 s 0) s = base_name s"
proof -
  have "file_name i s l = (if backslash \<in> set s then i + length s - length (takeWhile ((\<noteq>) backslash) (rev s)) else l)" for i l
  proof (induction s arbitrary: i l)
    case (Cons c s)
    have le: "length (takeWhile ((\<noteq>) backslash) (rev s)) \<le> length s"
      using length_takeWhile_le [of _ "rev s"] by simp
    show ?case
    proof (cases "backslash \<in> set s")
      case True
      then have "takeWhile ((\<noteq>) backslash) (rev s @ [c]) = takeWhile ((\<noteq>) backslash) (rev s)"
        by (intro takeWhile_append1 [of backslash]) auto
      then show ?thesis using Cons True le by simp
    next
      case False
      then have "takeWhile ((\<noteq>) backslash) (rev s) = rev s" by (auto simp: takeWhile_eq_all_conv)
      then show ?thesis using Cons False by (auto simp: takeWhile_append)
    qed
  qed simp
  moreover have "drop (length s - n) s = rev (take n (rev s))" for n by (simp add: take_rev)
  moreover have "take (length (takeWhile ((\<noteq>) backslash) (rev s))) (rev s) = takeWhile ((\<noteq>) backslash) (rev s)"
    by (metis takeWhile_eq_take)
  moreover have "rev (takeWhile ((\<noteq>) backslash) (rev s)) = s" if "backslash \<notin> set s"
  proof -
    have tw: "takeWhile ((\<noteq>) backslash) (rev s) = rev s" unfolding takeWhile_eq_all_conv using that by auto
    show ?thesis unfolding tw by simp
  qed
  ultimately show ?thesis by (cases "backslash \<in> set s") (simp_all add: base_name_def)
qed

text \<open>The comparisons without regard to case.\<close>

lemma uint_same: "uint a = uint b \<longleftrightarrow> a = (b :: 16 word)"
  by (rule word_uint_eq_iff [symmetric])

lemma StrCaseCmp_zero: "0 \<notin> set s \<Longrightarrow> 0 \<notin> set t \<Longrightarrow> StrCaseCmp s t = 0 \<longleftrightarrow> map upper s = map upper t"
  by (induction s t rule: StrCaseCmp.induct) (auto simp: uint_0_iff uint_same)

lemma StrnCaseCmp_zero:
  "0 \<notin> set s \<Longrightarrow> 0 \<notin> set t \<Longrightarrow> StrnCaseCmp s t n = 0 \<longleftrightarrow> map upper (take n s) = map upper (take n t)"
  by (induction s t n rule: StrnCaseCmp.induct) (auto simp: uint_0_iff uint_same)

lemma upper_backslash: "upper c = backslash \<longleftrightarrow> c = backslash"
proof -
  have "\<not> (0x61 \<le> c \<and> c \<le> 0x7A \<and> c - 32 = backslash)"
  proof
    assume "0x61 \<le> c \<and> c \<le> 0x7A \<and> c - 32 = backslash"
    then have "c = backslash + 32" "c \<le> 0x7A" by (auto simp: eq_diff_eq [symmetric])
    then show False by simp
  qed
  then show ?thesis by (auto simp: upper_def)
qed

lemma StrCat_wstr:
  assumes "wstr b = Some t" and "0 \<notin> set s" and "length t + length s < length b"
  shows "\<exists>b'. StrCat b s = Some b' \<and> wstr b' = Some (t @ s) \<and> length b' = length b"
  using assms wstr_SomeD [OF assms(1)] wstr_append [of "t @ s"] by (auto simp: StrCat_def)

lemma dropWhile_stop: "dropWhile ((\<noteq>) c) r \<noteq> [] \<Longrightarrow> c \<in> set (dropWhile ((\<noteq>) c) r)"
  by (induction r) auto

lemma set_squeeze: "set (squeeze t) = set t"
  by (induction t rule: squeeze.induct) auto

lemma dir_of_backslash: "dir_of path \<noteq> [] \<Longrightarrow> backslash \<in> set (dir_of path)"
  unfolding dir_of_def set_squeeze set_rev by (rule dropWhile_stop) (metis rev.simps(1) squeeze.simps(1))

lemma base_name_set: "backslash \<notin> set (base_name s)" "set (base_name s) \<subseteq> set s"
  by (auto simp: base_name_def dest: set_takeWhileD)

text \<open>The directory always has a backslash and the name has none, so that the comparison of the two that
  the code makes finds them equal only when the directory is empty.\<close>

lemma dir_not_name:
  assumes "0 \<notin> set (dir_of path)" and "0 \<notin> set s"
  shows "StrnCaseCmp (dir_of path) (base_name s) (length (dir_of path)) = 0 \<longleftrightarrow> dir_of path = []"
proof
  assume "StrnCaseCmp (dir_of path) (base_name s) (length (dir_of path)) = 0"
  moreover have "0 \<notin> set (base_name s)" using assms(2) base_name_set(2) by auto
  ultimately have eq: "map upper (dir_of path) = map upper (take (length (dir_of path)) (base_name s))"
    using StrnCaseCmp_zero assms(1) by force
  show "dir_of path = []"
  proof (rule ccontr)
    assume "dir_of path \<noteq> []"
    then have "upper backslash \<in> set (map upper (dir_of path))" using dir_of_backslash by auto
    then obtain c where "c \<in> set (base_name s)" "upper c = upper backslash"
      unfolding eq by (auto dest: in_set_takeD)
    then show False using base_name_set(1) upper_backslash by metis
  qed
qed simp

lemma dir_of_nul: "0 \<notin> set path \<Longrightarrow> 0 \<notin> set (dir_of path)"
  using boot_dir_spec wstr_SomeD by blast

definition second_stage_path :: "ucs2 \<Rightarrow> ucs2 \<Rightarrow> ucs2" where
  "second_stage_path path ImagePath =
     (if take 5 ImagePath = backslash # wlit ''EFI'' @ [backslash] then ImagePath else dir_of path @ base_name ImagePath)"

lemma generate_path_from_image_path_returns:
  assumes "0 \<notin> set path" and "0 \<notin> set ImagePath"
  shows "\<exists>r p'. generate_path_from_image_path junk (Some path) ImagePath p = Some (r, p') \<and>
    (case r of Inl st \<Rightarrow> st = EFI_OUT_OF_RESOURCES \<and> (\<exists>n. \<not> p 0 n)
     | Inr b \<Rightarrow> wstr b = Some (second_stage_path path ImagePath))"
proof (cases "take 5 ImagePath = backslash # wlit ''EFI'' @ [backslash]")
  case True
  then have "length (take 5 ImagePath) = 5" by (simp add: wlit_def)
  then have l: "5 \<le> length ImagePath" by simp
  show ?thesis
    using True l wstr_append [OF assms(2), of "[]"]
    by (cases "p 0 (StrSize ImagePath)")
      (auto simp: generate_path_from_image_path_def StrnCmp_def StrSize_def wlit_def AllocatePool_def
        second_stage_path_def)
next
  case False
  obtain b where b: "boot_dir path = Some b" "wstr b = Some (dir_of path)" using boot_dir_spec [OF assms(1)] by blast
  let ?d = "dir_of path" and ?n = "base_name ImagePath"
  define m where "m = 0 # map junk [1..<(StrSize ?d + StrSize ?n) div 2]"
  have nul: "0 \<notin> set ?d" "0 \<notin> set ?n" using dir_of_nul [OF assms(1)] base_name_set(2) assms(2) by auto
  have "(StrSize ?d + StrSize ?n) div 2 = length ?d + length ?n + 2" by (simp add: StrSize_def)
  then have len: "length m = length ?d + length ?n + 2" by (simp add: m_def del: upt.simps)
  have w: "wstr m = Some []" by (simp add: m_def)
  obtain b1 where b1: "StrCat m ?d = Some b1" "wstr b1 = Some ?d" "length b1 = length m"
    using StrCat_wstr [OF w nul(1)] len by auto
  have "\<exists>b2. StrCat (if ?d \<noteq> [] then b1 else m) ?n = Some b2 \<and> wstr b2 = Some (?d @ ?n)"
    using StrCat_wstr [OF b1(2) nul(2)] StrCat_wstr [OF w nul(2)] len b1(3) by auto
  then obtain b2 where b2: "StrCat (if ?d \<noteq> [] then b1 else m) ?n = Some b2" "wstr b2 = Some (?d @ ?n)" by blast
  have st: "\<not> (StrSize ImagePath > 5 \<and> StrnCmp ImagePath (backslash # wlit ''EFI'' @ [backslash]) 5 = 0)"
    using False by (simp add: StrnCmp_def wlit_def)
  have cmp: "StrnCaseCmp ?d ?n (length ?d) \<noteq> 0 \<longleftrightarrow> ?d \<noteq> []" using dir_not_name [OF nul(1) assms(2)] by simp
  have "second_stage_path path ImagePath = ?d @ ?n" using False by (simp add: second_stage_path_def)
  moreover have "generate_path_from_image_path junk (Some path) ImagePath p =
      (if p 0 (StrSize ?d + StrSize ?n) then Some (Inr b2, \<lambda>k. p (Suc k))
       else Some (Inl EFI_OUT_OF_RESOURCES, \<lambda>k. p (Suc k)))"
    unfolding generate_path_from_image_path_def if_not_P [OF st] bind.simps b file_name_base Let_def cmp
    using b1(1) b2(1) by (auto simp: AllocatePool_def m_def)
  ultimately show ?thesis using b2(2) by auto
qed

text \<open>C30. \<^verbatim>\<open>generate_path_from_image_path\<close> computes a reference definition: a path below the EFI directory
  stays as it is, any other name is replaced by the directory of the running image and the last component
  of the name. The code edits both strings in place, and stays inside its buffers; it fails only when memory
  runs out. The strings are shorter than \<open>2 ^ 31\<close> characters, so that the indices of the loops are values of
  \<^verbatim>\<open>int\<close>.\<close>

theorem generate_path_from_image_path_spec:
  assumes "0 \<notin> set path" and "0 \<notin> set ImagePath" and "length path < 2 ^ 31" and "length ImagePath < 2 ^ 31"
  shows "\<exists>r p'. generate_path_from_image_path junk (Some path) ImagePath p = Some (r, p') \<and>
    (case r of Inl st \<Rightarrow> st = EFI_OUT_OF_RESOURCES \<and> (\<exists>n. \<not> p 0 n)
     | Inr b \<Rightarrow> wstr b = Some (second_stage_path path ImagePath))"
  using generate_path_from_image_path_returns [OF assms(1,2)] .

theorem generate_path_from_image_path_spec_witness:
  "\<exists>b p'. generate_path_from_image_path (\<lambda>i. 7) (Some (wlit ''/EFI//fedora/shimx64.efi'')) (wlit ''grubx64.efi'') (\<lambda>k n. True) =
      Some (Inr b, p') \<and>
    wstr b = Some (backslash # wlit ''EFI'' @ backslash # wlit ''fedora'' @ backslash # wlit ''grubx64.efi'')"
proof -
  have n: "0 \<notin> set (wlit ''/EFI//fedora/shimx64.efi'')" "0 \<notin> set (wlit ''grubx64.efi'')"
      "length (wlit ''/EFI//fedora/shimx64.efi'') < 2 ^ 31" "length (wlit ''grubx64.efi'') < 2 ^ 31" by code_simp+
  have "second_stage_path (wlit ''/EFI//fedora/shimx64.efi'') (wlit ''grubx64.efi'') =
      backslash # wlit ''EFI'' @ backslash # wlit ''fedora'' @ backslash # wlit ''grubx64.efi''"
    by code_simp
  moreover obtain r p' where "generate_path_from_image_path (\<lambda>i. 7) (Some (wlit ''/EFI//fedora/shimx64.efi''))
        (wlit ''grubx64.efi'') (\<lambda>k n. True) = Some (r, p')"
      "case r of Inl st \<Rightarrow> False
       | Inr b \<Rightarrow> wstr b = Some (second_stage_path (wlit ''/EFI//fedora/shimx64.efi'') (wlit ''grubx64.efi''))"
    using generate_path_from_image_path_spec [OF n, of "\<lambda>i. 7" "\<lambda>k n. True"] by (auto cong: sum.case_cong)
  ultimately show ?thesis by (cases r) auto
qed

section \<open>The other path functions\<close>

text \<open>A removable-media path, by its upper-case letters.\<close>

lemma is_removable_media_path_spec:
  assumes nul: "0 \<notin> set s"
  shows "is_removable_media_path (Some s) = Some (
    (map upper (take 14 s) = backslash # efi_boot @ wlit ''BOOT'' \<or> map upper (take 15 s) = backslash # efi_boot @ wlit ''/BOOT'' \<or>
     map upper (take 13 s) = efi_boot @ wlit ''BOOT'' \<or> map upper (take 14 s) = efi_boot @ wlit ''/BOOT'') \<and>
    5 \<le> length s \<and> map upper (drop (length s - 4) s) = wlit ''.EFI'')"
proof -
  have c: "StrnCaseCmp s t n = 0 \<longleftrightarrow> map upper (take n s) = t" if "map upper t = t" "0 \<notin> set t" "length t = n" for t n
    using StrnCaseCmp_zero [OF nul, of t "length t"] that by auto
  have t: "map upper efi_boot = efi_boot" "0 \<notin> set efi_boot" "length efi_boot = 9"
    by (auto simp: efi_boot_def wlit_def upper_def)
  note c' = c [of "backslash # efi_boot @ wlit ''BOOT''" 14] c [of "backslash # efi_boot @ wlit ''/BOOT''" 15]
    c [of "efi_boot @ wlit ''BOOT''" 13] c [of "efi_boot @ wlit ''/BOOT''" 14]
  have "0 \<notin> set (drop (length s - 4) s)" using nul by (auto dest: in_set_dropD)
  then have "StrCaseCmp (drop (length s - 4) s) (wlit ''.EFI'') = 0 \<longleftrightarrow> map upper (drop (length s - 4) s) = wlit ''.EFI''"
    using StrCaseCmp_zero [of _ "wlit ''.EFI''"] by (simp add: wlit_def upper_def)
  moreover have "map upper (wlit ''BOOT'') = wlit ''BOOT''" "map upper (wlit ''/BOOT'') = wlit ''/BOOT''"
      "0 \<notin> set (wlit ''BOOT'')" "0 \<notin> set (wlit ''/BOOT'')" "length (wlit ''BOOT'') = 4" "length (wlit ''/BOOT'') = 5"
    by (auto simp: wlit_def upper_def)
  moreover have "upper backslash = backslash" by (simp add: upper_def)
  ultimately show ?thesis
    using c' t by (auto simp: is_removable_media_path_def Let_def)
qed

text \<open>\<^verbatim>\<open>generate_path\<close> of a file in the root directory reads the character before the string.\<close>

lemma generate_path_root: "generate_path junk name (Some (wlit ''/shim.efi'')) p = None"
  by (simp add: generate_path_def wlit_def)

section \<open>The encoding of a load option\<close>

text \<open>A node of a device path: its type, its subtype and its data. A load option has attributes, a
  description whose characters are below 256, a device path and optional data.\<close>

type_synonym dp_node = "byte \<times> byte \<times> buf"

fun node_bytes :: "dp_node \<Rightarrow> buf" where
  "node_bytes (t, st, x) = [t, st] @ le_bytes 2 (length x + 4) @ x"

fun node_ok :: "dp_node \<Rightarrow> bool" where
  "node_ok (t, st, x) \<longleftrightarrow> \<not> (t = 0x7f \<and> st = 0xff) \<and> length x + 4 < 2 ^ 16"

definition path_bytes :: "dp_node list \<Rightarrow> buf" where
  "path_bytes ns = concat (map node_bytes ns) @ [0x7f, 0xff, 4, 0]"

definition desc_bytes :: "buf \<Rightarrow> buf" where
  "desc_bytes s = concat (map (\<lambda>c. [c, 0]) s) @ [0, 0]"

definition load_option_bytes :: "buf \<Rightarrow> buf \<Rightarrow> dp_node list \<Rightarrow> buf \<Rightarrow> buf" where
  "load_option_bytes attrs desc ns od =
     attrs @ le_bytes 2 (length (path_bytes ns)) @ desc_bytes desc @ path_bytes ns @ od"

lemma length_desc_bytes [simp]: "length (desc_bytes s) = 2 * length s + 2"
  by (induction s) (auto simp: desc_bytes_def)

lemma length_node_bytes [simp]: "length (node_bytes n) = length (snd (snd n)) + 4"
  by (cases n) auto

lemma rd_app: "length x = i \<Longrightarrow> rd (x @ c # y) i = Some c"
  by (auto simp: rd_def)

lemma rd16_app: "length x = i \<Longrightarrow> v < 2 ^ 16 \<Longrightarrow> rd16 (x @ le_bytes 2 v @ y) i = Some v"
  by (auto simp: rd16_def rd_le_def rdn_def le_val_le_bytes)

lemma description_end_found:
  assumes "d = x @ desc_bytes s @ y" and "cur + i = length x" and "i mod 2 = 0" and "0 \<notin> set s"
    and "i + 2 * length s + 2 \<le> limit"
  shows "description_end d cur limit i = Some (Inr (i + 2 * length s + 1))"
  using assms
proof (induction s arbitrary: x i)
  case Nil
  have "rd d (cur + i) = Some 0" "rd d (cur + (i + 1)) = Some 0"
    using rd_app [of x _ 0 "0 # y"] rd_app [of "x @ [0]" _ 0 y] Nil.prems(1,2) by (auto simp: desc_bytes_def)
  then show ?case using Nil.prems by (subst description_end.simps) simp
next
  case (Cons c s)
  have d: "d = (x @ [c, 0]) @ desc_bytes s @ y" using Cons.prems(1) by (simp add: desc_bytes_def)
  have "rd d (cur + i) = Some c" "rd d (cur + (i + 1)) = Some 0"
    using rd_app [of x _ c "0 # desc_bytes s @ y"] rd_app [of "x @ [c]" _ 0 "desc_bytes s @ y"] d Cons.prems(2) by auto
  moreover have "description_end d cur limit (i + 2) = Some (Inr (i + 2 + 2 * length s + 1))"
    using Cons.IH [OF d] Cons.prems by (simp add: mod_Suc)
  moreover have "description_end d cur limit (i + 1) = description_end d cur limit (i + 2)"
    using calculation(2) Cons.prems by (subst description_end.simps) (simp add: mod_Suc)
  ultimately show ?case using Cons.prems by (subst description_end.simps) simp
qed

lemma skip_nodes_found:
  assumes "d = x @ path_bytes ns @ y" and "cur + i = length x" and "\<forall>n \<in> set ns. node_ok n"
    and "i + length (path_bytes ns) \<le> limit" and "limit < 2 ^ 32"
  shows "skip_nodes d cur limit i = Some (Inr (i + length (path_bytes ns)))"
  using assms
proof (induction ns arbitrary: x i)
  case Nil
  then have "d = x @ 0x7f # [0xff, 4, 0] @ y" "d = (x @ [0x7f]) @ 0xff # [4, 0] @ y" "d = (x @ [0x7f, 0xff]) @ le_bytes 2 4 @ y"
    by (simp_all add: path_bytes_def numeral_2_eq_2)
  then have "rd d (cur + i) = Some 0x7f" "rd d (cur + i + 1) = Some 0xff" "rd16 d (cur + i + 2) = Some 4"
    using rd_app [of x "cur + i" "0x7f" "[0xff, 4, 0] @ y"] rd_app [of "x @ [0x7f]" "cur + i + 1" "0xff" "[4, 0] @ y"]
      rd16_app [of "x @ [0x7f, 0xff]" "cur + i + 2" 4 y] Nil.prems(2)
    by (metis, metis length_append_singleton Suc_eq_plus1, simp)
  then show ?case
    using Nil.prems by (subst skip_nodes.simps) (simp add: path_bytes_def sub32_le add32_def)
next
  case (Cons n ns)
  obtain t st z where n: "n = (t, st, z)" by (cases n)
  have d: "d = x @ t # [st] @ le_bytes 2 (length z + 4) @ z @ path_bytes ns @ y"
      "d = (x @ [t]) @ st # le_bytes 2 (length z + 4) @ z @ path_bytes ns @ y"
      "d = (x @ [t, st]) @ le_bytes 2 (length z + 4) @ z @ path_bytes ns @ y"
      "d = (x @ node_bytes n) @ path_bytes ns @ y"
    using Cons.prems(1) by (simp_all add: path_bytes_def n)
  have ok: "length z + 4 < 2 ^ 16" "\<not> (t = 0x7f \<and> st = 0xff)" using Cons.prems(3) by (auto simp: n)
  have r: "rd d (cur + i) = Some t" "rd d (cur + i + 1) = Some st" "rd16 d (cur + i + 2) = Some (length z + 4)"
    subgoal using rd_app [of x "cur + i"] d(1) Cons.prems(2) by metis
    subgoal using rd_app [of "x @ [t]" "cur + i + 1" st] d(2) Cons.prems(2) by simp
    subgoal using rd16_app [of "x @ [t, st]" "cur + i + 2"] d(3) Cons.prems(2) ok by simp
    done
  have len: "length (path_bytes (n # ns)) = length z + 4 + length (path_bytes ns)"
    by (simp add: path_bytes_def n)
  have "skip_nodes d cur limit (i + (length z + 4)) = Some (Inr (i + (length z + 4) + length (path_bytes ns)))"
    using Cons.IH [OF d(4)] Cons.prems len by (simp add: n)
  moreover have "4 \<le> length (path_bytes ns)" by (simp add: path_bytes_def)
  ultimately show ?case
    using r ok len Cons.prems(4,5)
    by (subst skip_nodes.simps) (auto simp: sub32_le add32_def)
qed

text \<open>C31. Decoding the bytes of a load option gives back its optional data, whatever the description, the
  device path and the data are, under two conditions that the code makes: the characters of the description
  are below 256, and the description without its terminator and the optional data have at least two bytes
  together.\<close>

theorem load_option_roundtrip:
  assumes d: "d = x @ load_option_bytes attrs desc ns od @ y" and "length attrs = 4" and "0 \<notin> set desc"
    and "\<forall>n \<in> set ns. node_ok n" and "length (path_bytes ns) < 2 ^ 16"
    and "2 * length desc + length od \<ge> 2"
    and "length (load_option_bytes attrs desc ns od) < 2 ^ 32"
  shows "get_load_option_optional_data d (length x) (length (load_option_bytes attrs desc ns od)) =
    Some (Inr (if od = [] then (None, 0)
      else (Some (length x + length (load_option_bytes attrs desc ns od) - length od), length od)))"
proof -
  let ?p = "path_bytes ns" and ?n = "length (load_option_bytes attrs desc ns od)"
  have len: "?n = 6 + (2 * length desc + 2) + length ?p + length od" using assms(2) by (simp add: load_option_bytes_def)
  have p4: "4 \<le> length ?p" by (simp add: path_bytes_def)
  have d1: "d = (x @ attrs) @ le_bytes 2 (length ?p) @ desc_bytes desc @ ?p @ od @ y"
      "d = (x @ attrs @ le_bytes 2 (length ?p)) @ desc_bytes desc @ ?p @ od @ y"
      "d = (x @ attrs @ le_bytes 2 (length ?p) @ desc_bytes desc) @ ?p @ od @ y"
    using d by (simp_all add: load_option_bytes_def)
  have fp: "rd16 d (length x + 4) = Some (length ?p)"
    using rd16_app [of "x @ attrs" "length x + 4" "length ?p"] d1(1) assms(2,5) by simp
  have "description_end d (length x + 6) (?n - 6 - length ?p) 0 = Some (Inr (0 + 2 * length desc + 1))"
    by (rule description_end_found [OF d1(2)]) (use assms(2,3) len in auto)
  moreover have "skip_nodes d (length x + 6 + (2 * length desc + 2)) (length od + length ?p) 0 = Some (Inr (0 + length ?p))"
    by (rule skip_nodes_found [OF d1(3)]) (use assms(2,4,7) len in auto)
  ultimately show ?thesis
    using fp len p4 assms(6)
    by (auto simp: get_load_option_optional_data_def Let_def add.commute add.left_commute)
qed

theorem load_option_roundtrip_witness:
  "get_load_option_optional_data (load_option_bytes [1, 0, 0, 0] [0x42] [(4, 4, [9])] [5, 6, 7]) 0 22 = Some (Inr (Some 19, 3))"
proof -
  have "length (load_option_bytes [1, 0, 0, 0] [0x42] [(4, 4, [9])] [5, 6, 7]) = 22" "length (path_bytes [(4, 4, [9])]) < 2 ^ 16"
    by (simp_all add: load_option_bytes_def path_bytes_def)
  then show ?thesis
    using load_option_roundtrip [of _ "[]" "[1, 0, 0, 0]" "[0x42]" "[(4, 4, [9])]" "[5, 6, 7]" "[]"] by simp
qed

text \<open>What the decoder does not check: a node may be as long as the whole rest, although other nodes come
  before it; the loop then goes on behind the end of the data. And the smallest load option, with an empty
  description and no optional data, is refused.\<close>

lemma skip_nodes_overrun:
  "get_load_option_optional_data ([1, 0, 0, 0] @ [4, 0] @ [0x61, 0, 0, 0] @ [1, 1, 4, 0] @ [1, 1, 8, 0]) 0 18 = None"
  by code_simp

lemma empty_description_refused:
  "get_load_option_optional_data (load_option_bytes [1, 0, 0, 0] [] [] []) 0 12 = Some (Inl EFI_INVALID_PARAMETER)"
  by code_simp

lemma case_Inr_iff:
  "(case e of Inl st \<Rightarrow> Some (Inl st) | Inr i \<Rightarrow> F i) = Some (Inr z) \<longleftrightarrow> (\<exists>i. e = Inr i \<and> F i = Some (Inr z))"
  by (cases e) auto

lemma get_load_option_optional_data_in:
  assumes "get_load_option_optional_data d start n = Some (Inr (od, ods))"
  shows "od = None \<and> ods = 0 \<or> (\<exists>a. od = Some a \<and> start \<le> a \<and> a + ods = start + n)"
  using assms unfolding get_load_option_optional_data_def
  by (auto simp: bind_eq_Some_conv Let_def case_Inr_iff split: if_splits)

section \<open>Splitting the options\<close>

lemma rdc_in: "i + 2 \<le> length d \<Longrightarrow> \<exists>c. rdc d i = Some c"
  using rd16_in by (fastforce simp: rdc_def)

lemma rdc_nth:
  "rdc d i = (if i + 2 \<le> length d then Some (word_of_nat (unat (d ! i) + 256 * unat (d ! (i + 1)))) else None)"
proof -
  have "take 2 (drop i d) = [d ! i, d ! (i + 1)]" if "i + 2 \<le> length d"
    using that by (intro nth_equalityI) (auto simp: less_Suc_eq nth_Cons split: nat.split)
  then show ?thesis by (simp add: rdc_def rd16_def rd_le_def rdn_def)
qed

lemma rdc_put_other: "i + 2 \<le> j \<or> j + 2 \<le> i \<Longrightarrow> j + 2 \<le> length d \<Longrightarrow> rdc (put d j [0, 0]) i = rdc d i"
  by (auto simp: rdc_nth nth_put)

lemma rdc_put_same: "j + 2 \<le> length d \<Longrightarrow> rdc (put d j [0, 0]) j = Some 0"
  by (simp add: rdc_nth nth_put)

lemma skip_spaces_in:
  assumes "q + 2 * n \<le> length d"
  shows "\<exists>a. skip_spaces d q n = Some a \<and> q \<le> a \<and> a \<le> q + 2 * n"
  using assms
proof (induction n arbitrary: q)
  case (Suc n)
  then obtain c where "rdc d q = Some c" using rdc_in [of q d] by auto
  then show ?case using Suc.IH [of "q + 2"] Suc.prems by auto
qed simp

lemma find_end_in:
  assumes "a + 2 * n \<le> length d"
  shows "find_end d a n = Some None \<or>
    (\<exists>i f. find_end d a n = Some (Some i) \<and> i < n \<and> (\<forall>j < i. rdc d (a + 2 * j) = Some (f j) \<and> f j \<noteq> 0 \<and> f j \<noteq> 0x20))"
  using assms
proof (induction n arbitrary: a)
  case (Suc n)
  then obtain c where c: "rdc d a = Some c" using rdc_in [of a d] by auto
  show ?case
  proof (cases "c = 0x20 \<or> c = 0")
    case False
    consider "find_end d (a + 2) n = Some None"
      | i f where "find_end d (a + 2) n = Some (Some i)" "i < n"
          "\<forall>j < i. rdc d (a + 2 + 2 * j) = Some (f j) \<and> f j \<noteq> 0 \<and> f j \<noteq> 0x20"
      using Suc.IH [of "a + 2"] Suc.prems by auto
    then show ?thesis
    proof cases
      case 1
      then show ?thesis using c False by auto
    next
      case (2 i f)
      let ?g = "case_nat c f"
      have "\<forall>j < Suc i. rdc d (a + 2 * j) = Some (?g j) \<and> ?g j \<noteq> 0 \<and> ?g j \<noteq> 0x20"
        using 2(3) c False by (auto split: nat.split simp: less_Suc_eq_0_disj)
      then show ?thesis using c False 2(1,2) by fastforce
    qed
  qed (use c in auto)
qed simp

lemma wcstr_chars:
  assumes "\<forall>j < i. rdc d (a + 2 * j) = Some (f j) \<and> f j \<noteq> 0" and "rdc d (a + 2 * i) = Some 0"
  shows "wcstr d a = Some (map f [0..<i])"
  using assms
proof (induction i arbitrary: a f)
  case 0
  then show ?case by (subst wcstr.simps) simp
next
  case (Suc i)
  have "wcstr d (a + 2) = Some (map (f \<circ> Suc) [0..<i])"
    using Suc.prems by (intro Suc.IH) (auto simp: less_Suc_eq_0_disj dest: spec [of _ "Suc _"])
  moreover have "map f [0..<Suc i] = f 0 # map (f \<circ> Suc) [0..<i]"
    by (metis map_map map_Suc_upt list.simps(9) upt_conv_Cons zero_less_Suc)
  ultimately show ?case using Suc.prems(1) [rule_format, of 0] by (subst wcstr.simps) (simp del: upt.simps)
qed

text \<open>What a split of the options from \<open>q\<close> on leaves: only bytes of the options have changed, the argument is a
  NUL-terminated string without spaces, and the rest is what follows it.\<close>

definition same_outside :: "buf \<Rightarrow> buf \<Rightarrow> nat \<Rightarrow> nat \<Rightarrow> bool" where
  "same_outside d d' q n \<longleftrightarrow> length d' = length d \<and> (\<forall>k < length d. k < q \<or> q + n \<le> k \<longrightarrow> d' ! k = d ! k)"

definition argument_in :: "buf \<Rightarrow> nat \<Rightarrow> nat \<Rightarrow> nat \<Rightarrow> nat option \<Rightarrow> nat \<Rightarrow> bool" where
  "argument_in d q n a rest rs \<longleftrightarrow> (\<exists>str. q \<le> a \<and> wcstr d a = Some str \<and> 0x20 \<notin> set str \<and>
     a + 2 * length str + 2 + rs = q + n \<and> rest = (if rs > 0 then Some (a + 2 * length str + 2) else None))"

lemma same_outside_refl [simp]: "same_outside d d q n"
  by (simp add: same_outside_def)

lemma same_outside_trans:
  "same_outside d d' q n \<Longrightarrow> same_outside d' d'' q' n' \<Longrightarrow> q \<le> q' \<Longrightarrow> q' + n' \<le> q + n \<Longrightarrow> same_outside d d'' q n"
  by (auto simp: same_outside_def)

lemma split_load_options_spec:
  assumes "q + n \<le> length d"
  shows "\<exists>d' r. split_load_options d (Some q) n = Some (d', r) \<and> same_outside d d' q n \<and>
    (case r of None \<Rightarrow> d' = d | Some (a, rest, rs) \<Rightarrow> argument_in d' q n a rest rs)"
proof -
  obtain a where a: "skip_spaces d q (n div 2) = Some a" "q \<le> a" "a \<le> q + 2 * (n div 2)"
    using skip_spaces_in [of q "n div 2" d] assms by (meson le_trans add_le_mono order_refl div_times_less_eq_dividend times_div_less_eq_dividend)
  have n: "a + 2 * ((n - (a - q)) div 2) \<le> length d" using a assms by linarith
  consider "find_end d a ((n - (a - q)) div 2) = Some None"
    | i f where "find_end d a ((n - (a - q)) div 2) = Some (Some i)" "i < (n - (a - q)) div 2"
        "\<forall>j < i. rdc d (a + 2 * j) = Some (f j) \<and> f j \<noteq> 0 \<and> f j \<noteq> 0x20"
    using find_end_in [OF n] by auto
  then show ?thesis
  proof cases
    case 1
    then show ?thesis using a by (simp add: split_load_options_def)
  next
    case (2 i f)
    let ?d = "put d (a + 2 * i) [0, 0]"
    have i: "a + 2 * i + 2 \<le> q + n" using 2(2) a by linarith
    have "\<forall>j < i. rdc ?d (a + 2 * j) = Some (f j) \<and> f j \<noteq> 0" "rdc ?d (a + 2 * i) = Some 0"
      using 2(3) i assms by (auto simp: rdc_put_other rdc_put_same)
    then have w: "wcstr ?d a = Some (map f [0..<i])" by (rule wcstr_chars)
    have "0x20 \<notin> set (map f [0..<i])" using 2(3) by force
    moreover have "same_outside d ?d q n" using i a assms by (auto simp: same_outside_def nth_put)
    moreover define rs where "rs = n - (a - q) - (i + 1) * 2"
    ultimately have "argument_in ?d q n a (if rs > 0 then Some (a + (i + 1) * 2) else None) rs"
      using w i a by (auto simp: argument_in_def)
    moreover have "split_load_options d (Some q) n =
        Some (?d, Some (a, if rs > 0 then Some (a + (i + 1) * 2) else None, rs))"
      using a 2(1) i assms by (auto simp: split_load_options_def wrn_def Let_def rs_def)
    ultimately show ?thesis using \<open>same_outside d ?d q n\<close> by simp
  qed
qed

text \<open>The second half of the parser, from any part of the options.\<close>

definition stage_in :: "options_state \<Rightarrow> options_state \<Rightarrow> nat \<Rightarrow> nat \<Rightarrow> bool" where
  "stage_in s s' q n \<longleftrightarrow>
     (os_second_stage s' = os_second_stage s \<or>
       (\<exists>a str. os_second_stage s' = Some a \<and> q \<le> a \<and> wcstr (os_buf s') a = Some str \<and> str \<noteq> [] \<and> 0x20 \<notin> set str \<and>
         a + 2 * length str + 2 \<le> q + n)) \<and>
     (os_load_options s' = os_load_options s \<and> os_load_options_size s' = os_load_options_size s \<or>
       (case os_load_options s' of None \<Rightarrow> os_load_options_size s' = 0
        | Some a \<Rightarrow> q \<le> a \<and> a + os_load_options_size s' \<le> q + n))"

lemma wcstr_rdc: "wcstr d a = Some str \<Longrightarrow> \<exists>c. rdc d a = Some c \<and> (c \<noteq> 0 \<longleftrightarrow> str \<noteq> [])"
  by (subst (asm) wcstr.simps) (auto split: option.splits if_splits)

definition options_in :: "options_state \<Rightarrow> nat \<Rightarrow> nat \<Rightarrow> bool" where
  "options_in s q n \<longleftrightarrow> (case os_LoadOptions s of None \<Rightarrow> os_LoadOptionsSize s = 0
     | Some a \<Rightarrow> q \<le> a \<and> a + os_LoadOptionsSize s \<le> q + n)"

lemma set_second_stage_option_in:
  assumes o: "options_in s q n" and n: "q + n \<le> length (os_buf s)"
  shows "\<exists>s'. set_second_stage_option s = Some s' \<and> same_outside (os_buf s) (os_buf s') q n \<and> stage_in s s' q n"
proof (cases "os_LoadOptions s")
  case None
  then show ?thesis
    using o by (auto simp: options_in_def set_second_stage_option_def split_load_options_def stage_in_def)
next
  case (Some a)
  let ?n = "os_LoadOptionsSize s"
  have a: "q \<le> a" "a + ?n \<le> q + n" using o Some by (auto simp: options_in_def)
  obtain d' r where r: "split_load_options (os_buf s) (Some a) ?n = Some (d', r)" "same_outside (os_buf s) d' a ?n"
      "case r of None \<Rightarrow> d' = os_buf s | Some (x, rest, rs) \<Rightarrow> argument_in d' a ?n x rest rs"
    using split_load_options_spec [of a ?n "os_buf s"] a n by auto
  have so: "same_outside (os_buf s) d' q n"
    using same_outside_trans [OF same_outside_refl r(2)] a by auto
  have win: "\<exists>x. rdn (os_buf s) a 8 = Some x" if "?n \<ge> 8" using that a n by (simp add: rdn_def)
  show ?thesis
  proof (cases r)
    case None
    then show ?thesis
      using r win Some so by (auto simp: set_second_stage_option_def stage_in_def)
  next
    case (Some y)
    obtain x rest rs where y: "y = (x, rest, rs)" by (cases y)
    then obtain str where str: "a \<le> x" "wcstr d' x = Some str" "0x20 \<notin> set str"
        "x + 2 * length str + 2 + rs = a + ?n" "rest = (if rs > 0 then Some (x + 2 * length str + 2) else None)"
      using r(3) Some by (auto simp: argument_in_def)
    obtain c where c: "rdc d' x = Some c" "c \<noteq> 0 \<longleftrightarrow> str \<noteq> []" using wcstr_rdc [OF str(2)] by blast
    let ?s = "s\<lparr>os_buf := d', os_second_stage := (if c \<noteq> 0 then Some x else os_second_stage s),
        os_load_options := rest, os_load_options_size := rs\<rparr>"
    have "stage_in s ?s q n"
      using str c a unfolding stage_in_def by (auto split: if_splits)
    moreover have "stage_in s s q n" by (simp add: stage_in_def)
    ultimately show ?thesis
      using r(1) \<open>os_LoadOptions s = Some a\<close> Some y c(1) win so
      by (auto simp: set_second_stage_option_def)
  qed
qed

lemma is_our_path_returns:
  assumes "0 \<notin> set path" and "0 \<notin> set str"
  shows "\<exists>b p'. is_our_path junk (Some path) (Some path) str p = Some (b, p')"
proof -
  obtain r p' where "generate_path_from_image_path junk (Some path) str p = Some (r, p')"
      "case r of Inl st \<Rightarrow> st = EFI_OUT_OF_RESOURCES \<and> (\<exists>n. \<not> p 0 n) | Inr b \<Rightarrow> wstr b = Some (second_stage_path path str)"
    using generate_path_from_image_path_returns [OF assms, of junk p] by blast
  then show ?thesis by (cases r) (auto simp: is_our_path_def)
qed

lemma wcstr_nul: "wcstr d a = Some str \<Longrightarrow> 0 \<notin> set str"
proof (induction d a arbitrary: str rule: wcstr.induct)
  case (1 d i)
  then show ?case by (subst (asm) (2) wcstr.simps) (auto split: option.splits if_splits)
qed

text \<open>Where the walk over a device path leaves the data: a node that is not the last one has a length that
  passes the check, but reaches behind the limit.\<close>

function path_overruns :: "buf \<Rightarrow> nat \<Rightarrow> nat \<Rightarrow> nat \<Rightarrow> bool" where
  "path_overruns d cur limit i =
     (if limit < i + 4 then False
      else case rd16 d (cur + i + 2) of
        None \<Rightarrow> False
      | Some dp_len \<Rightarrow>
          if dp_len < 4 \<or> dp_len > limit then False
          else if rd d (cur + i) = Some 0x7f \<and> rd d (cur + i + 1) = Some 0xff then False
          else limit < i + dp_len \<or> path_overruns d cur limit (i + dp_len))"
  by pat_completeness auto
termination
  by (relation "measure (\<lambda>(d, cur, limit, i). limit - i)") auto

declare path_overruns.simps [simp del]

text \<open>Data of \<open>n\<close> bytes that passes for a load option up to its device path, which overruns.\<close>

definition load_option_overruns :: "buf \<Rightarrow> nat \<Rightarrow> nat \<Rightarrow> bool" where
  "load_option_overruns d start n =
     (case rd16 d (start + 4) of
        None \<Rightarrow> False
      | Some fplistlen \<Rightarrow>
          12 \<le> n \<and> fplistlen \<le> n - 10 \<and>
          (case description_end d (start + 6) (n - 6 - fplistlen) 0 of
             Some (Inr i) \<Rightarrow> i + 1 < n - 6 - fplistlen \<and> path_overruns d (start + 7 + i) (n - 7 - i) 0
           | _ \<Rightarrow> False))"

lemma skip_nodes_returns:
  assumes "cur + limit \<le> length d" and "limit < 2 ^ 32" and "i \<le> limit" and "\<not> path_overruns d cur limit i"
  shows "skip_nodes d cur limit i \<noteq> None"
  using assms(3,4)
proof (induction "limit - i" arbitrary: i rule: less_induct)
  case less
  have w: "sub32 limit i = limit - i" using less.prems(1) assms(2) by (simp add: sub32_le)
  show ?case
  proof (cases "limit < i + 4")
    case True
    then have "\<not> 4 \<le> limit - i" using less.prems(1) by linarith
    then show ?thesis using w by (subst skip_nodes.simps) simp
  next
    case False
    obtain t u where tu: "rd d (cur + i) = Some t" "rd d (cur + i + 1) = Some u"
      using False assms(1) by (simp add: rd_def)
    obtain l where l: "rd16 d (cur + i + 2) = Some l"
      using False assms(1) by (simp add: rd16_def rd_le_def rdn_def)
    show ?thesis
    proof (cases "l < 4 \<or> l > limit \<or> t = 0x7f \<and> u = 0xff")
      case True
      then show ?thesis using w False tu l by (subst skip_nodes.simps) auto
    next
      case go: False
      have "path_overruns d cur limit i \<longleftrightarrow> limit < i + l \<or> path_overruns d cur limit (i + l)"
        using go False tu l by (subst path_overruns.simps) auto
      then have n: "i + l \<le> limit" "\<not> path_overruns d cur limit (i + l)" using less.prems(2) by auto
      then have "skip_nodes d cur limit (i + l) \<noteq> None"
        using go False by (intro less.hyps) auto
      moreover have "add32 i l = i + l" using n(1) assms(2) by (simp add: add32_def)
      moreover have "4 \<le> limit - i" using False by simp
      then have "skip_nodes d cur limit i = skip_nodes d cur limit (add32 i l)"
        using w tu l go by (subst skip_nodes.simps) auto
      ultimately show ?thesis by simp
    qed
  qed
qed

lemma description_end_returns: "cur + limit \<le> length d \<Longrightarrow> description_end d cur limit i \<noteq> None"
proof (induction d cur limit i rule: description_end.induct)
  case (1 d cur limit i)
  show ?case
  proof (cases "i < limit")
    case True
    obtain c where c: "rd d (cur + i) = Some c" using True 1(3) by (simp add: rd_def)
    have "\<exists>c'. rd d (cur + (i + 1)) = Some c'" if "i + 1 < limit" using that 1(3) by (simp add: rd_def)
    then show ?thesis
      using 1(1) [OF _ c] 1(2) [OF _ c] True c 1(3) by (subst description_end.simps) auto
  qed (subst description_end.simps, simp)
qed

lemma get_load_option_optional_data_returns:
  assumes "start + n \<le> length d" and "n < 2 ^ 32" and "\<not> load_option_overruns d start n"
  shows "get_load_option_optional_data d start n \<noteq> None"
proof (cases "n < 12")
  case True
  then show ?thesis by (simp add: get_load_option_optional_data_def)
next
  case False
  obtain fp where fp: "rd16 d (start + 4) = Some fp"
    using False assms(1) by (simp add: rd16_def rd_le_def rdn_def)
  show ?thesis
  proof (cases "fp > n - 10")
    case True
    then show ?thesis using fp by (simp add: get_load_option_optional_data_def)
  next
    case ok: False
    have in6: "start + 6 + (n - 6 - fp) \<le> length d" using ok False assms(1) by linarith
    obtain e where e: "description_end d (start + 6) (n - 6 - fp) 0 = Some e"
      using description_end_returns [of "start + 6" "n - 6 - fp" d 0] in6 by auto
    have sk: "skip_nodes d (start + 7 + i) (n - 7 - i) 0 \<noteq> None" if "e = Inr i" "i + 1 < n - 6 - fp" for i
      using that assms fp ok False e by (intro skip_nodes_returns) (auto simp: load_option_overruns_def)
    show ?thesis
    proof (cases e)
      case (Inl st)
      then show ?thesis using fp ok e False by (simp add: get_load_option_optional_data_def Let_def)
    next
      case (Inr i)
      show ?thesis
      proof (cases "i + 1 < n - 6 - fp")
        case True
        then have eq: "start + 6 + (i + 1) = start + 7 + i" "n - 6 - fp - (i + 1) + fp = n - 7 - i" by simp_all
        obtain y where y: "skip_nodes d (start + 7 + i) (n - 7 - i) 0 = Some y" using sk [OF Inr True] by blast
        show ?thesis
          using fp ok e Inr False True y
          by (cases y) (simp_all add: get_load_option_optional_data_def Let_def eq del: One_nat_def add_Suc_right)
      next
        case out: False
        then show ?thesis using fp ok e Inr False by (auto simp: get_load_option_optional_data_def Let_def)
      qed
    qed
  qed
qed

lemma parse_load_options_decoded:
  assumes q: "os_LoadOptions s = Some q" and n: "q + os_LoadOptionsSize s \<le> length (os_buf s)"
    and path: "0 \<notin> set path"
    and dec: "get_load_option_optional_data (os_buf s) q (os_LoadOptionsSize s) \<noteq> None"
      "get_load_option_optional_data (os_buf s) q (os_LoadOptionsSize s - 16) \<noteq> None"
  shows "\<exists>s' p'. parse_load_options junk (Some path) (Some path) p s = Some (EFI_SUCCESS, s', p') \<and>
    same_outside (os_buf s) (os_buf s') q (os_LoadOptionsSize s) \<and> stage_in s s' q (os_LoadOptionsSize s)"
proof -
  let ?n = "os_LoadOptionsSize s" and ?d = "os_buf s"
  have triv: "stage_in s (s\<lparr>os_LoadOptionsSize := m\<rparr>) q ?n" "stage_in s s q ?n" for m by (simp_all add: stage_in_def)
  show ?thesis
  proof (cases "?n = 0 \<or> ?n mod 2 \<noteq> 0")
    case True
    then show ?thesis using q triv by (auto simp: parse_load_options_def Let_def)
  next
    case False
    then have n2: "?n \<noteq> 0" "?n mod 2 = 0" "2 \<le> ?n" by presburger+
    obtain g where g: "(if ?n > 16 then do { x \<leftarrow> rdn ?d (q + (?n - 16)) 16; Some (x = guid_bytes BDS_GUID) }
        else Some False) = Some g" "g \<longrightarrow> 16 < ?n"
      using n by (cases "16 < ?n") (auto simp: rdn_def)
    define m where "m = (if g then ?n - 16 else ?n)"
    let ?s = "s\<lparr>os_LoadOptionsSize := m\<rparr>"
    obtain c where c: "rdc ?d q = Some c" using rdc_in [of q ?d] n n2 by auto
    have m: "m \<le> ?n" by (simp add: m_def)
    obtain o1 where o1: "get_load_option_optional_data ?d q m = Some o1" using dec by (cases g) (auto simp: m_def)
    have step: "\<exists>s' p'. do { s3 \<leftarrow> set_second_stage_option s2; Some (EFI_SUCCESS, s3, p2) } = Some (EFI_SUCCESS, s', p') \<and>
        same_outside ?d (os_buf s') q ?n \<and> stage_in s s' q ?n"
      if s2: "options_in s2 q ?n" "same_outside ?d (os_buf s2) q ?n" "os_second_stage s2 = os_second_stage s"
        "os_load_options s2 = os_load_options s" "os_load_options_size s2 = os_load_options_size s" for s2 p2
    proof -
      obtain s' where "set_second_stage_option s2 = Some s'" "same_outside (os_buf s2) (os_buf s') q ?n"
          "stage_in s2 s' q ?n"
        using set_second_stage_option_in [OF s2(1)] n s2(2) by (auto simp: same_outside_def)
      then show ?thesis using s2 same_outside_trans [OF s2(2)] by (auto simp: stage_in_def)
    qed
    show ?thesis
    proof (cases "c = 0")
      case True
      then show ?thesis using q n2 g(1) c triv by (auto simp: parse_load_options_def Let_def simp flip: m_def)
    next
      case c0: False
      show ?thesis
      proof (cases o1)
        case (Inr od)
        obtain a ods where od: "od = (a, ods)" by (cases od)
        have "options_in (?s\<lparr>os_LoadOptions := a, os_LoadOptionsSize := ods\<rparr>) q ?n"
          using get_load_option_optional_data_in [of ?d q m a ods] o1 Inr od m by (auto simp: options_in_def)
        from step [OF this] show ?thesis
          using q n2 g(1) c c0 o1 Inr od by (simp add: parse_load_options_def Let_def flip: m_def)
      next
        case (Inl st)
        obtain d' r where r: "split_load_options ?d (Some q) m = Some (d', r)" "same_outside ?d d' q m"
            "case r of None \<Rightarrow> d' = ?d | Some (x, rest, rs) \<Rightarrow> argument_in d' q m x rest rs"
          using split_load_options_spec [of q m ?d] m n by (meson add_le_mono1 add_left_mono le_trans)
        have so: "same_outside ?d d' q ?n" using r(2) m by (auto simp: same_outside_def)
        have cont: "options_in (?s\<lparr>os_buf := d'\<rparr>) q ?n" using q m by (simp add: options_in_def)
        show ?thesis
        proof (cases r)
          case None
          show ?thesis
            using step [OF cont] so q n2 g(1) c c0 o1 Inl r(1) None by (simp add: parse_load_options_def Let_def flip: m_def)
        next
          case (Some y)
          obtain x rest rs where y: "y = (x, rest, rs)" by (cases y)
          then obtain str where str: "q \<le> x" "wcstr d' x = Some str" "x + 2 * length str + 2 + rs = q + m"
              "rest = (if rs > 0 then Some (x + 2 * length str + 2) else None)"
            using r(3) Some by (auto simp: argument_in_def)
          obtain b p' where b: "is_our_path junk (Some path) (Some path) str p = Some (b, p')"
            using is_our_path_returns [OF path wcstr_nul [OF str(2)]] by blast
          have "options_in (?s\<lparr>os_buf := d', os_LoadOptions := rest, os_LoadOptionsSize := rs\<rparr>) q ?n"
            using str m by (auto simp: options_in_def)
          from step [OF this] step [OF cont] show ?thesis
            using so q n2 g(1) c c0 o1 Inl r(1) Some y str(2) b by (cases b) (simp_all add: parse_load_options_def Let_def flip: m_def)
        qed
      qed
    qed
  qed
qed

text \<open>C32. \<^verbatim>\<open>parse_load_options\<close> stays inside the options, with one exception: the options, with or without the
  GUID at their end, pass for a load option whose device path has a node that reaches behind their end. In every
  other case, when the path of the image is a string, it returns with success, changes no byte outside the
  options, and the name of the second stage, if it sets one, is a non-empty NUL-terminated string without spaces
  that lies in the options, as do the options it passes on.\<close>

theorem parse_load_options_in:
  assumes q: "os_LoadOptions s = Some q" and n: "q + os_LoadOptionsSize s \<le> length (os_buf s)"
    and path: "0 \<notin> set path" and n32: "os_LoadOptionsSize s < 2 ^ 32"
  shows "load_option_overruns (os_buf s) q (os_LoadOptionsSize s) \<or>
    load_option_overruns (os_buf s) q (os_LoadOptionsSize s - 16) \<or>
    (\<exists>s' p'. parse_load_options junk (Some path) (Some path) p s = Some (EFI_SUCCESS, s', p') \<and>
      same_outside (os_buf s) (os_buf s') q (os_LoadOptionsSize s) \<and> stage_in s s' q (os_LoadOptionsSize s))"
proof (cases "load_option_overruns (os_buf s) q (os_LoadOptionsSize s) \<or>
    load_option_overruns (os_buf s) q (os_LoadOptionsSize s - 16)")
  case False
  have "\<exists>s' p'. parse_load_options junk (Some path) (Some path) p s = Some (EFI_SUCCESS, s', p') \<and>
      same_outside (os_buf s) (os_buf s') q (os_LoadOptionsSize s) \<and> stage_in s s' q (os_LoadOptionsSize s)"
    by (rule parse_load_options_decoded [OF q n path]; rule get_load_option_optional_data_returns)
      (use False n n32 in simp_all)
  then show ?thesis by blast
qed blast

theorem parse_load_options_in_witness:
  "\<exists>s' p'. parse_load_options (\<lambda>i. 7) (Some (wlit ''shim'')) (Some (wlit ''shim'')) (\<lambda>k n. True)
      \<lparr>os_buf = [0x20, 0, 0x67, 0, 0x20, 0, 0x78, 0], os_LoadOptions = Some 0, os_LoadOptionsSize = 8,
       os_second_stage = None, os_load_options = None, os_load_options_size = 0\<rparr> = Some (EFI_SUCCESS, s', p') \<and>
    length (os_buf s') = 8"
proof -
  let ?s = "\<lparr>os_buf = [0x20, 0, 0x67, 0, 0x20, 0, 0x78, 0], os_LoadOptions = Some 0, os_LoadOptionsSize = 8,
       os_second_stage = None, os_load_options = None, os_load_options_size = 0\<rparr>"
  have "\<not> load_option_overruns (os_buf ?s) 0 n" if "n < 12" for n
    using that by (simp add: load_option_overruns_def split: option.split)
  then have "\<not> load_option_overruns (os_buf ?s) 0 8" "\<not> load_option_overruns (os_buf ?s) 0 (8 - 16)" by simp_all
  moreover have "0 \<notin> set (wlit ''shim'')" by code_simp
  ultimately show ?thesis
    using parse_load_options_in [of ?s 0 "wlit ''shim''" "\<lambda>i. 7" "\<lambda>k n. True"] by (auto simp: same_outside_def)
qed

end
