(* ===== verification/Tpm.thy ===== *)
theory Tpm
  imports Verify
begin

text \<open>
  \<^verbatim>\<open>tpm.c\<close>: the measurements that shim makes of the images it loads and of the variables it decides
  with. The protocols of the firmware (confidential computing, TPM 2 and TPM 1.2) are a record of
  functions over the firmware's state \<open>'t\<close>; the globals of the file are a record of their own. The build
  does not define \<^verbatim>\<open>REQUIRE_TPM\<close>.

  The lemmas prove that a run of measurements extends the TPM exactly once for every distinct variable,
  in the order of their first successful measurement, and that the absence of a TPM is not an error.
\<close>

section \<open>The protocols\<close>

text \<open>\<^verbatim>\<open>TCG_PCR_EVENT\<close>: the digest is not written when the firmware has to compute it.\<close>

record TCG_PCR_EVENT =
  PCRIndex :: nat
  EventType :: nat
  digest :: "buf option"
  Event :: buf

record tcg2_caps =
  StructureVersion :: "nat \<times> nat"
  TPMPresentFlag :: bool

text \<open>The calls of the code on the three protocols. \<open>locate_cc\<close>, \<open>locate_tpm2\<close> and \<open>locate_tpm\<close> are
  \<^verbatim>\<open>LibLocateProtocol\<close> for the three GUIDs, the first with whether the pointer it stores is not NULL;
  \<open>status_check\<close> gives the status, the present flag and the deactivated flag. Data to hash are the bytes
  at the address that the code passes.\<close>

record 't tpm_fw =
  locate_cc :: "'t \<Rightarrow> efi_status \<times> bool"
  map_pcr_to_mr_index :: "nat \<Rightarrow> 't \<Rightarrow> efi_status \<times> nat"
  cc_hash_log_extend_event :: "nat \<Rightarrow> buf \<Rightarrow> buf \<Rightarrow> 't \<Rightarrow> efi_status \<times> 't"
  locate_tpm2 :: "'t \<Rightarrow> efi_status"
  get_capability :: "'t \<Rightarrow> efi_status \<times> tcg2_caps"
  hash_log_extend_event :: "nat \<Rightarrow> buf \<Rightarrow> buf \<Rightarrow> 't \<Rightarrow> efi_status \<times> 't"
  locate_tpm :: "'t \<Rightarrow> efi_status"
  status_check :: "'t \<Rightarrow> efi_status \<times> bool \<times> bool"
  log_extend_event :: "buf \<Rightarrow> TCG_PCR_EVENT \<Rightarrow> 't \<Rightarrow> efi_status \<times> 't"

definition EFI_CC_FLAG_PE_COFF_IMAGE :: nat where "EFI_CC_FLAG_PE_COFF_IMAGE = 0x10"
definition PE_COFF_IMAGE :: nat where "PE_COFF_IMAGE = 0x10"
definition EFI_CC_EVENT_HEADER_VERSION :: nat where "EFI_CC_EVENT_HEADER_VERSION = 1"
definition EV_IPL :: nat where "EV_IPL = 0x0000000d"
definition EV_EFI_EVENT_BASE :: nat where "EV_EFI_EVENT_BASE = 0x80000000"
definition EV_EFI_BOOT_SERVICES_APPLICATION :: nat where
  "EV_EFI_BOOT_SERVICES_APPLICATION = EV_EFI_EVENT_BASE + 3"
definition EV_EFI_VARIABLE_AUTHORITY :: nat where
  "EV_EFI_VARIABLE_AUTHORITY = EV_EFI_EVENT_BASE + 0xE0"

section \<open>The globals\<close>

text \<open>\<^verbatim>\<open>measureddata\<close> (\<open>None\<close> being NULL) with \<^verbatim>\<open>measuredcount\<close>, the two flags, and the answers of the
  allocator.\<close>

type_synonym variable_record = "ucs2 \<times> efi_guid \<times> buf"

record tpm_state =
  measuredcount :: nat
  measureddata :: "variable_record list option"
  tpm_defective :: bool
  log_full_already_warned :: bool
  tpool :: pool

section \<open>Finding a TPM\<close>

definition tpm_present :: "'t tpm_fw \<Rightarrow> tpm_state \<Rightarrow> 't \<Rightarrow> bool" where
  "tpm_present fw s t =
     (if tpm_defective s then False
      else (case status_check fw t of
              (st, present, deactivated) \<Rightarrow>
                if EFI_ERROR st \<or> deactivated \<or> \<not> present then False else True))"

definition tpm2_get_caps :: "'t tpm_fw \<Rightarrow> 't \<Rightarrow> efi_status + tcg2_caps \<times> bool" where
  "tpm2_get_caps fw t =
     (case get_capability fw t of
        (st, caps) \<Rightarrow>
          if EFI_ERROR st then Inl st
          else Inr (caps, fst (StructureVersion caps) = 1 \<and> snd (StructureVersion caps) = 0))"

text \<open>\<^verbatim>\<open>TrEEPresentFlag\<close> of the old structure is at the offset of \<^verbatim>\<open>TPMPresentFlag\<close> of the new one: the
  cast reads the same byte.\<close>

definition TrEEPresentFlag :: "tcg2_caps \<Rightarrow> bool" where
  "TrEEPresentFlag caps_1_0 = TPMPresentFlag caps_1_0"

definition tpm2_present :: "tcg2_caps \<Rightarrow> bool \<Rightarrow> bool" where
  "tpm2_present caps old_caps =
     (if old_caps \<and> TrEEPresentFlag caps then True
      else if TPMPresentFlag caps then True
      else False)"

text \<open>\<^verbatim>\<open>tpm_locate_protocol\<close>: the status, and which of \<^verbatim>\<open>*tpm2\<close> and \<^verbatim>\<open>*tpm\<close> is not NULL.\<close>

datatype tpm_handle = NoTpm | Tpm2 | Tpm12

definition tpm_locate_protocol :: "'t tpm_fw \<Rightarrow> tpm_state \<Rightarrow> 't \<Rightarrow> efi_status \<times> tpm_handle" where
  "tpm_locate_protocol fw s t =
     (if \<not> EFI_ERROR (locate_tpm2 fw t) then
        (case tpm2_get_caps fw t of
           Inl st \<Rightarrow> (st, Tpm2)
         | Inr (caps, old_caps) \<Rightarrow>
             if tpm2_present caps old_caps then (EFI_SUCCESS, Tpm2) else (EFI_NOT_FOUND, Tpm2))
      else
        let st = locate_tpm fw t in
        if EFI_ERROR st then (st, NoTpm)
        else if tpm_present fw s t then (EFI_SUCCESS, Tpm12)
        else (EFI_NOT_FOUND, Tpm12))"

section \<open>Logging an event\<close>

definition warn_first_log_full :: "tpm_state \<Rightarrow> tpm_state" where
  "warn_first_log_full s =
     (if \<not> log_full_already_warned s then s\<lparr>log_full_already_warned := True\<rparr> else s)"

text \<open>The packed event of the two newer protocols: its size (18 bytes before the data), a header of 14
  bytes, and the data.\<close>

definition event_bytes :: "nat \<Rightarrow> nat \<Rightarrow> nat \<Rightarrow> buf \<Rightarrow> buf" where
  "event_bytes version register type log =
     le_bytes 4 (18 + length log) @ le_bytes 4 14 @ le_bytes 2 version @ le_bytes 4 register @
     le_bytes 4 type @ log"

text \<open>What the code does with the status of an extend operation: a full log is reported once and is not
  an error.\<close>

definition log_full :: "efi_status \<Rightarrow> tpm_state \<Rightarrow> efi_status \<times> tpm_state" where
  "log_full st s =
     (if st = EFI_VOLUME_FULL then (EFI_SUCCESS, warn_first_log_full s) else (st, s))"

definition cc_log_event_raw ::
    "'t tpm_fw \<Rightarrow> buf \<Rightarrow> nat \<Rightarrow> buf \<Rightarrow> nat \<Rightarrow> bool \<Rightarrow> tpm_state \<Rightarrow> 't \<Rightarrow> efi_status \<times> tpm_state \<times> 't" where
  "cc_log_event_raw fw b pcr log type is_pe_image s t =
     (let flags = (if is_pe_image then EFI_CC_FLAG_PE_COFF_IMAGE else 0) in
      case locate_cc fw t of
        (st, cc) \<Rightarrow>
          if EFI_ERROR st \<or> \<not> cc then (EFI_SUCCESS, s, t)
          else (case map_pcr_to_mr_index fw pcr t of
            (st1, mr) \<Rightarrow>
              if EFI_ERROR st1 then (EFI_NOT_FOUND, s, t)
              else (case AllocatePool (tpool s) (18 + length log) of
                (ok, p) \<Rightarrow>
                  if \<not> ok then (EFI_OUT_OF_RESOURCES, s\<lparr>tpool := p\<rparr>, t)
                  else (case cc_hash_log_extend_event fw flags b
                               (event_bytes EFI_CC_EVENT_HEADER_VERSION mr type log) t of
                    (st2, t1) \<Rightarrow>
                      (case log_full st2 (s\<lparr>tpool := p\<rparr>) of (st3, s1) \<Rightarrow> (st3, s1, t1))))))"

text \<open>The branch of \<^verbatim>\<open>tpm_log_event_raw\<close> for a TPM 2: an image is measured by its own hash, and by that
  of its bytes when the firmware cannot do the former.\<close>

definition tpm2_log_event ::
    "'t tpm_fw \<Rightarrow> buf \<Rightarrow> nat \<Rightarrow> buf \<Rightarrow> nat \<Rightarrow> bool \<Rightarrow> tpm_state \<Rightarrow> 't \<Rightarrow> efi_status \<times> tpm_state \<times> 't" where
  "tpm2_log_event fw b pcr log type hash s t =
     (case AllocatePool (tpool s) (18 + length log) of
        (ok, p) \<Rightarrow>
          if \<not> ok then (EFI_OUT_OF_RESOURCES, s\<lparr>tpool := p\<rparr>, t)
          else
            let ev = event_bytes 1 pcr type log;
                (st1, s1, t1) =
                  (if hash then
                     (case hash_log_extend_event fw PE_COFF_IMAGE b ev t of
                        (st, t') \<Rightarrow> (case log_full st (s\<lparr>tpool := p\<rparr>) of (st', s') \<Rightarrow> (st', s', t')))
                   else (EFI_SUCCESS, s\<lparr>tpool := p\<rparr>, t))
            in if \<not> hash \<or> EFI_ERROR st1 then
                 (case hash_log_extend_event fw 0 b ev t1 of
                    (st, t') \<Rightarrow> (case log_full st s1 of (st', s') \<Rightarrow> (st', s', t')))
               else (st1, s1, t1))"

text \<open>The branch for a TPM 1.2: the digest of an image is given to the firmware, with no data; an
  unsupported operation makes the TPM defective. The code looks for the protocol a second time. The
  event has 36 bytes before the data.\<close>

definition tpm12_log_event ::
    "'t tpm_fw \<Rightarrow> buf \<Rightarrow> nat \<Rightarrow> buf \<Rightarrow> nat \<Rightarrow> buf option \<Rightarrow> tpm_state \<Rightarrow> 't
      \<Rightarrow> (efi_status \<times> tpm_state \<times> 't) option" where
  "tpm12_log_event fw b pcr log type hash s t =
     (if EFI_ERROR (locate_tpm fw t) then Some (EFI_SUCCESS, s, t)
      else if \<not> tpm_present fw s t then Some (EFI_SUCCESS, s, t)
      else (case AllocatePool (tpool s) (36 + length log) of
        (ok, p) \<Rightarrow>
          let s0 = s\<lparr>tpool := p\<rparr> in
          if \<not> ok then Some (EFI_OUT_OF_RESOURCES, s0, t)
          else (case (case hash of None \<Rightarrow> Some None | Some h \<Rightarrow> map_option Some (rdn h 0 20)) of
            None \<Rightarrow> None
          | Some dg \<Rightarrow>
              let ev = \<lparr>PCRIndex = pcr, EventType = type, digest = dg, Event = log\<rparr> in
              (case log_extend_event fw (if dg = None then b else []) ev t of
                 (st, t1) \<Rightarrow>
                   (case log_full st s0 of
                      (st1, s1) \<Rightarrow>
                        if st1 = EFI_UNSUPPORTED then
                          Some (EFI_SUCCESS, s1\<lparr>tpm_defective := True\<rparr>, t1)
                        else Some (st1, s1, t1))))))"

definition tpm_log_event_raw ::
    "'t tpm_fw \<Rightarrow> buf \<Rightarrow> nat \<Rightarrow> buf \<Rightarrow> nat \<Rightarrow> buf option \<Rightarrow> tpm_state \<Rightarrow> 't
      \<Rightarrow> (efi_status \<times> tpm_state \<times> 't) option" where
  "tpm_log_event_raw fw b pcr log type hash s t =
     (case cc_log_event_raw fw b pcr log type (hash \<noteq> None) s t of
        (st, s1, t1) \<Rightarrow>
          if EFI_ERROR st then Some (st, s1, t1)
          else (case tpm_locate_protocol fw s1 t1 of
            (st1, h) \<Rightarrow>
              if EFI_ERROR st1 then
                (if st1 \<noteq> EFI_NOT_FOUND then Some (st1, s1, t1) else Some (EFI_SUCCESS, s1, t1))
              else (case h of
                      Tpm2 \<Rightarrow> Some (tpm2_log_event fw b pcr log type (hash \<noteq> None) s1 t1)
                    | Tpm12 \<Rightarrow> tpm12_log_event fw b pcr log type hash s1 t1
                    | NoTpm \<Rightarrow> Some (EFI_SUCCESS, s1, t1))))"

text \<open>\<^verbatim>\<open>tpm_log_event\<close>: the description is a string of the code, logged with its terminator.\<close>

definition tpm_log_event ::
    "'t tpm_fw \<Rightarrow> buf \<Rightarrow> nat \<Rightarrow> buf \<Rightarrow> tpm_state \<Rightarrow> 't \<Rightarrow> (efi_status \<times> tpm_state \<times> 't) option" where
  "tpm_log_event fw b pcr description s t =
     tpm_log_event_raw fw b pcr (description @ [0]) EV_IPL None s t"

text \<open>\<^verbatim>\<open>EFI_IMAGE_LOAD_EVENT\<close> has 32 bytes before the device path. \<open>path\<close> is the whole path, NULL being
  \<open>None\<close>.\<close>

definition image_load_event :: "nat \<Rightarrow> nat \<Rightarrow> nat \<Rightarrow> buf \<Rightarrow> buf" where
  "image_load_event location size' addr path =
     le_bytes 8 location @ le_bytes 8 size' @ le_bytes 8 addr @ le_bytes 8 (length path) @ path"

definition tpm_log_pe ::
    "'t tpm_fw \<Rightarrow> nat \<Rightarrow> buf \<Rightarrow> nat \<Rightarrow> buf option \<Rightarrow> buf \<Rightarrow> nat \<Rightarrow> tpm_state \<Rightarrow> 't
      \<Rightarrow> (efi_status \<times> tpm_state \<times> 't) option" where
  "tpm_log_pe fw location b addr path sha1hash pcr s t =
     (let pth = (case path of None \<Rightarrow> [] | Some d \<Rightarrow> d) in
      case AllocatePool (tpool s) (32 + length pth) of
        (ok, p) \<Rightarrow>
          if \<not> ok then Some (EFI_OUT_OF_RESOURCES, s\<lparr>tpool := p\<rparr>, t)
          else tpm_log_event_raw fw b pcr (image_load_event location (length b) addr pth)
                 EV_EFI_BOOT_SERVICES_APPLICATION (Some sha1hash) (s\<lparr>tpool := p\<rparr>) t)"

section \<open>Measuring a variable\<close>

text \<open>\<^verbatim>\<open>tpm_data_measured\<close> reads the first \<^verbatim>\<open>measuredcount\<close> records.\<close>

function tpm_data_measured_from ::
    "variable_record list \<Rightarrow> nat \<Rightarrow> nat \<Rightarrow> variable_record \<Rightarrow> bool option" where
  "tpm_data_measured_from ms i n v =
     (if i < n then
        (if i < length ms then
           (case (ms ! i, v) of
              ((n1, g1, d1), (n2, g2, d2)) \<Rightarrow>
                if StrCmp n2 n1 = 0 \<and> g2 = g1 \<and> length d2 = length d1 \<and> d2 = d1 then Some True
                else tpm_data_measured_from ms (Suc i) n v)
         else None)
      else Some False)"
  by pat_completeness auto
termination
  by (relation "measure (\<lambda>(ms, i, n, v). n - i)") auto

declare tpm_data_measured_from.simps [simp del]

definition tpm_data_measured :: "variable_record \<Rightarrow> tpm_state \<Rightarrow> bool option" where
  "tpm_data_measured v s =
     tpm_data_measured_from (case measureddata s of None \<Rightarrow> [] | Some ms \<Rightarrow> ms) 0 (measuredcount s) v"

text \<open>\<^verbatim>\<open>tpm_record_data_measurement\<close>: a record has 32 bytes. The array is lost when it cannot be extended,
  and \<^verbatim>\<open>measuredcount\<close> keeps its value. The three copies are allocated before any is tested. The store at
  \<^verbatim>\<open>measuredcount\<close> is outside the array if that has been allocated anew.\<close>

definition tpm_record_data_measurement ::
    "variable_record \<Rightarrow> tpm_state \<Rightarrow> (efi_status \<times> tpm_state) option" where
  "tpm_record_data_measurement v s =
     (case AllocatePool (tpool s)
             (case measureddata s of None \<Rightarrow> 32 | Some _ \<Rightarrow> (measuredcount s + 1) * 32) of
        (ok, p) \<Rightarrow>
          if \<not> ok then Some (EFI_OUT_OF_RESOURCES, s\<lparr>measureddata := None, tpool := p\<rparr>)
          else
            let ms = (case measureddata s of None \<Rightarrow> [] | Some ms \<Rightarrow> ms);
                (ok1, p1) = AllocatePool p (StrSize (fst v));
                (ok2, p2) = AllocatePool p1 16;
                (ok3, p3) = AllocatePool p2 (length (snd (snd v)))
            in if length ms \<noteq> measuredcount s then None
               else if \<not> ok1 \<or> \<not> ok2 \<or> \<not> ok3 then
                 Some (EFI_OUT_OF_RESOURCES, s\<lparr>measureddata := Some ms, tpool := p3\<rparr>)
               else Some (EFI_SUCCESS,
                      s\<lparr>measureddata := Some (ms @ [v]), measuredcount := measuredcount s + 1,
                        tpool := p3\<rparr>))"

text \<open>The packed \<^verbatim>\<open>EFI_VARIABLE_DATA_TREE\<close>: the GUID, the two lengths, the name and the data. Its size
  is a \<^verbatim>\<open>UINT32\<close>, and the copies do not look at it.\<close>

definition ucs2_bytes :: "ucs2 \<Rightarrow> buf" where
  "ucs2_bytes n = concat (map (\<lambda>c. le_bytes 2 (unat c)) n)"

definition VarLog_bytes :: "variable_record \<Rightarrow> buf" where
  "VarLog_bytes v =
     (case v of (n, g, d) \<Rightarrow>
        guid_bytes g @ le_bytes 8 (length n) @ le_bytes 8 (length d) @ ucs2_bytes n @ d)"

definition tpm_measure_variable ::
    "'t tpm_fw \<Rightarrow> variable_record \<Rightarrow> tpm_state \<Rightarrow> 't \<Rightarrow> (efi_status \<times> tpm_state \<times> 't) option" where
  "tpm_measure_variable fw v s t =
     (case tpm_data_measured v s of
        None \<Rightarrow> None
      | Some True \<Rightarrow> Some (EFI_SUCCESS, s, t)
      | Some False \<Rightarrow>
          let VarLogSize = (35 + 2 * length (fst v) + length (snd (snd v)) - 2 - 1) mod 2 ^ 32 in
          (case AllocatePool (tpool s) VarLogSize of
             (ok, p) \<Rightarrow>
               if \<not> ok then Some (EFI_OUT_OF_RESOURCES, s\<lparr>tpool := p\<rparr>, t)
               else (case wrn (replicate VarLogSize 0) 0 (VarLog_bytes v) of
                 None \<Rightarrow> None
               | Some VarLog \<Rightarrow>
                   (case tpm_log_event_raw fw VarLog 7 VarLog EV_EFI_VARIABLE_AUTHORITY None
                           (s\<lparr>tpool := p\<rparr>) t of
                      None \<Rightarrow> None
                    | Some (st, s1, t1) \<Rightarrow>
                        if EFI_ERROR st then Some (st, s1, t1)
                        else map_option (\<lambda>(st', s2). (st', s2, t1))
                               (tpm_record_data_measurement v s1)))))"

definition fallback_should_prefer_reset :: "'t tpm_fw \<Rightarrow> tpm_state \<Rightarrow> 't \<Rightarrow> efi_status" where
  "fallback_should_prefer_reset fw s t =
     (if EFI_ERROR (fst (tpm_locate_protocol fw s t)) then EFI_NOT_FOUND else EFI_SUCCESS)"

text \<open>The calls that a verification logs (\<open>tpm_event\<close>), made one after the other; the callers ignore the
  statuses. \<^verbatim>\<open>shim_verify\<close> measures into PCR 4, with no path.\<close>

definition tpm_call ::
    "'t tpm_fw \<Rightarrow> nat \<Rightarrow> tpm_event \<Rightarrow> tpm_state \<Rightarrow> 't \<Rightarrow> (efi_status \<times> tpm_state \<times> 't) option" where
  "tpm_call fw location e s t =
     (case e of
        MeasureVariable n g d \<Rightarrow> tpm_measure_variable fw (n, g, d) s t
      | LogPe b addr sha1hash \<Rightarrow> tpm_log_pe fw location b addr None sha1hash 4 s t)"

fun tpm_calls ::
    "'t tpm_fw \<Rightarrow> nat \<Rightarrow> tpm_event list \<Rightarrow> tpm_state \<Rightarrow> 't \<Rightarrow> (efi_status list \<times> tpm_state \<times> 't) option" where
  "tpm_calls fw location [] s t = Some ([], s, t)"
| "tpm_calls fw location (e # es) s t =
     (case tpm_call fw location e s t of
        None \<Rightarrow> None
      | Some (st, s1, t1) \<Rightarrow>
          map_option (\<lambda>(sts, r). (st # sts, r)) (tpm_calls fw location es s1 t1))"

section \<open>A TPM 2 that extends\<close>

text \<open>The documented behaviour of \<^verbatim>\<open>HashLogExtendEvent\<close>: the measurement is extended unless the call fails,
  and \<^verbatim>\<open>EFI_VOLUME_FULL\<close> is not such a failure. \<open>ext\<close> is the sequence of the extensions, each the hashed
  data and the event.\<close>

definition tpm2_extends :: "'t tpm_fw \<Rightarrow> ('t \<Rightarrow> (buf \<times> buf) list) \<Rightarrow> bool" where
  "tpm2_extends fw ext \<longleftrightarrow>
     (\<forall>flags b e t. ext (snd (hash_log_extend_event fw flags b e t)) =
        (let st = fst (hash_log_extend_event fw flags b e t)
         in if EFI_ERROR st \<and> st \<noteq> EFI_VOLUME_FULL then ext t else ext t @ [(b, e)])) \<and>
     (\<forall>flags b e t. ext (snd (cc_hash_log_extend_event fw flags b e t)) = ext t) \<and>
     (\<forall>t. \<not> EFI_ERROR (locate_tpm2 fw t) \<and> \<not> EFI_ERROR (fst (get_capability fw t)) \<and>
        TPMPresentFlag (snd (get_capability fw t)))"

lemma tpm2_located: "tpm2_extends fw ext \<Longrightarrow> tpm_locate_protocol fw s t = (EFI_SUCCESS, Tpm2)"
  unfolding tpm2_extends_def tpm_locate_protocol_def tpm2_get_caps_def tpm2_present_def
  by (auto simp: split: prod.splits dest!: spec [where x = t])

text \<open>The globals that a logged event leaves alone.\<close>

definition tpm_keeps :: "tpm_state \<Rightarrow> tpm_state \<Rightarrow> bool" where
  "tpm_keeps s s' \<longleftrightarrow> measuredcount s' = measuredcount s \<and> measureddata s' = measureddata s \<and>
     (pool_ok (tpool s) \<longrightarrow> pool_ok (tpool s'))"

lemma tpm_keeps_refl [intro]: "tpm_keeps s s"
  by (simp add: tpm_keeps_def)

lemma tpm_keeps_trans: "tpm_keeps s s' \<Longrightarrow> tpm_keeps s' s'' \<Longrightarrow> tpm_keeps s s''"
  by (simp add: tpm_keeps_def)

lemma tpm_keeps_alloc: "AllocatePool (tpool s) n = (ok, p) \<Longrightarrow> tpm_keeps s (s\<lparr>tpool := p\<rparr>)"
  by (auto simp: tpm_keeps_def AllocatePool_def pool_ok_Suc)

lemma log_full_keeps: "log_full st s = (st', s') \<Longrightarrow> tpm_keeps s s'"
  by (auto simp: log_full_def warn_first_log_full_def tpm_keeps_def split: if_splits)

lemma log_full_ok:
  "log_full st s = (st', s') \<Longrightarrow> EFI_ERROR st' \<longleftrightarrow> EFI_ERROR st \<and> st \<noteq> EFI_VOLUME_FULL"
  by (auto simp: log_full_def status_simps split: if_splits)

lemma cc_log_event_raw_frame:
  assumes "cc_log_event_raw fw b pcr log type pe s t = (st, s', t')" and fw: "tpm2_extends fw ext"
  shows "tpm_keeps s s' \<and> ext t' = ext t"
proof -
  have "ext (snd (cc_hash_log_extend_event fw flags b e t)) = ext t" for flags b e t
    using fw by (simp add: tpm2_extends_def)
  then have cc: "cc_hash_log_extend_event fw flags b e t = (st, t') \<Longrightarrow> ext t' = ext t"
    for flags b e t st t' by (metis snd_conv)
  show ?thesis
    using assms(1) unfolding cc_log_event_raw_def Let_def
    by (auto split: prod.splits if_splits dest!: tpm_keeps_alloc log_full_keeps cc
        elim: tpm_keeps_trans)
qed

lemma tpm2_extend:
  assumes "tpm2_extends fw ext" and "hash_log_extend_event fw flags b e t = (st, t1)"
    and "log_full st s = (st', s')"
  shows "tpm_keeps s s' \<and> ext t1 = ext t @ (if EFI_ERROR st' then [] else [(b, e)])"
proof -
  have "ext t1 = (if EFI_ERROR st \<and> st \<noteq> EFI_VOLUME_FULL then ext t else ext t @ [(b, e)])"
    using assms(1,2) unfolding tpm2_extends_def Let_def by (metis fst_conv snd_conv)
  then show ?thesis using log_full_ok [OF assms(3)] log_full_keeps [OF assms(3)] by simp
qed

lemma tpm2_log_event_extends:
  assumes fw: "tpm2_extends fw ext"
    and r: "tpm2_log_event fw b pcr log type hash s t = (st, s', t')"
  shows "tpm_keeps s s' \<and>
    ext t' = ext t @ (if EFI_ERROR st then [] else [(b, event_bytes 1 pcr type log)])"
proof -
  obtain ok p where p: "AllocatePool (tpool s) (18 + length log) = (ok, p)" by fastforce
  note k = tpm_keeps_alloc [OF p]
  show ?thesis
  proof (cases "ok \<and> hash")
    case False
    then show ?thesis
      using r p k unfolding tpm2_log_event_def Let_def
      by (auto simp: status_simps split: prod.splits if_splits
          dest!: tpm2_extend [OF fw] elim: tpm_keeps_trans)
  next
    case True
    obtain st1 t1 where e1: "hash_log_extend_event fw PE_COFF_IMAGE b (event_bytes 1 pcr type log) t =
        (st1, t1)" by fastforce
    obtain st2 s2 where l1: "log_full st1 (s\<lparr>tpool := p\<rparr>) = (st2, s2)" by fastforce
    note x1 = tpm2_extend [OF fw e1 l1]
    show ?thesis
      using r p k True e1 l1 x1 unfolding tpm2_log_event_def Let_def
      by (auto simp: status_simps split: prod.splits if_splits
          dest!: tpm2_extend [OF fw] elim: tpm_keeps_trans)
  qed
qed

lemma tpm_log_event_raw_extends:
  assumes fw: "tpm2_extends fw ext"
  shows "\<exists>st s' t'. tpm_log_event_raw fw b pcr log type h s t = Some (st, s', t') \<and> tpm_keeps s s' \<and>
    ext t' = ext t @ (if EFI_ERROR st then [] else [(b, event_bytes 1 pcr type log)])"
proof -
  define pe where "pe = (h \<noteq> None)"
  obtain st s1 t1 where c: "cc_log_event_raw fw b pcr log type pe s t = (st, s1, t1)"
    using prod_cases3 by blast
  obtain st2 s2 t2 where l: "tpm2_log_event fw b pcr log type pe s1 t1 = (st2, s2, t2)"
    using prod_cases3 by blast
  note f = cc_log_event_raw_frame [OF c fw] and e = tpm2_log_event_extends [OF fw l]
  have r: "tpm_log_event_raw fw b pcr log type h s t =
      (if EFI_ERROR st then Some (st, s1, t1) else Some (st2, s2, t2))"
    unfolding tpm_log_event_raw_def pe_def [symmetric]
    by (simp add: c l tpm2_located [OF fw] status_simps)
  show ?thesis
  proof (cases "EFI_ERROR st")
    case True
    then show ?thesis using f by (intro exI [of _ st] exI [of _ s1] exI [of _ t1]) (simp add: r)
  next
    case False
    then show ?thesis using f e
      by (intro exI [of _ st2] exI [of _ s2] exI [of _ t2]) (auto simp: r elim: tpm_keeps_trans)
  qed
qed

section \<open>Each variable is measured once\<close>

text \<open>The records are those of the variables measured so far.\<close>

definition measured :: "tpm_state \<Rightarrow> variable_record list \<Rightarrow> bool" where
  "measured s ms \<longleftrightarrow> measuredcount s = length ms \<and>
     measureddata s = (if ms = [] then None else Some ms) \<and> pool_ok (tpool s)"

lemma measured_keeps: "measured s ms \<Longrightarrow> tpm_keeps s s' \<Longrightarrow> measured s' ms"
  by (simp add: measured_def tpm_keeps_def)

lemma tpm_data_measured_from_spec:
  "i \<le> length ms \<Longrightarrow> tpm_data_measured_from ms i (length ms) v = Some (v \<in> set (drop i ms))"
proof (induction "length ms - i" arbitrary: i)
  case 0
  then show ?case by (subst tpm_data_measured_from.simps) simp
next
  case (Suc k)
  then have i: "i < length ms" by simp
  obtain n g d where v: "v = (n, g, d)" by (cases v)
  obtain n1 g1 d1 where m: "ms ! i = (n1, g1, d1)" by (cases "ms ! i")
  have "tpm_data_measured_from ms (Suc i) (length ms) v = Some (v \<in> set (drop (Suc i) ms))"
    using Suc i by (intro Suc.hyps(1)) auto
  moreover have "drop i ms = (n1, g1, d1) # drop (Suc i) ms"
    using i m by (metis Cons_nth_drop_Suc)
  ultimately show ?case
    using i by (subst tpm_data_measured_from.simps) (auto simp: m v)
qed

lemma tpm_data_measured_spec: "measured s ms \<Longrightarrow> tpm_data_measured v s = Some (v \<in> set ms)"
  using tpm_data_measured_from_spec [of 0 ms v]
  by (auto simp: tpm_data_measured_def measured_def split: if_splits)

lemma length_ucs2_bytes [simp]: "length (ucs2_bytes n) = 2 * length n"
  by (induction n) (auto simp: ucs2_bytes_def)

lemma tpm_record_spec:
  assumes "measured s ms"
  shows "\<exists>s'. tpm_record_data_measurement v s = Some (EFI_SUCCESS, s') \<and> measured s' (ms @ [v])"
proof -
  have "pool_ok (tpool s)" using assms by (simp add: measured_def)
  then show ?thesis
    using assms unfolding tpm_record_data_measurement_def
    by (auto simp: AllocatePool_def pool_ok_def measured_def)
qed

text \<open>The variables that \<^verbatim>\<open>tpm_measure_variable\<close> can lay out: the size of the event fits in 32 bits.\<close>

definition fits :: "variable_record \<Rightarrow> bool" where
  "fits v \<longleftrightarrow> 32 + 2 * length (fst v) + length (snd (snd v)) < 2 ^ 32"

definition var_event :: "variable_record \<Rightarrow> buf \<times> buf" where
  "var_event v = (VarLog_bytes v, event_bytes 1 7 EV_EFI_VARIABLE_AUTHORITY (VarLog_bytes v))"

lemma tpm_measure_variable_spec:
  assumes fw: "tpm2_extends fw ext" and m: "measured s ms" and v: "fits v"
  shows "\<exists>st s' t'. tpm_measure_variable fw v s t = Some (st, s', t') \<and>
    measured s' (ms @ (if v \<in> set ms \<or> EFI_ERROR st then [] else [v])) \<and>
    ext t' = ext t @ (if v \<in> set ms \<or> EFI_ERROR st then [] else [var_event v])"
proof (cases "v \<in> set ms")
  case True
  then show ?thesis
    using m by (simp add: tpm_measure_variable_def tpm_data_measured_spec)
next
  case False
  obtain n g d where nd: "v = (n, g, d)" by (cases v)
  have ok: "pool_ok (tpool s)" using m by (simp add: measured_def)
  let ?s = "s\<lparr>tpool := \<lambda>k. tpool s (Suc k)\<rparr>"
  have len: "length (VarLog_bytes v) = 32 + 2 * length n + length d"
    by (simp add: VarLog_bytes_def nd)
  have w: "wrn (replicate ((35 + 2 * length n + length d - 2 - 1) mod 2 ^ 32) 0) 0 (VarLog_bytes v) =
      Some (VarLog_bytes v)"
    using v len by (simp add: fits_def nd wrn_def put_all)
  have ks: "tpm_keeps s ?s" using ok by (simp add: tpm_keeps_def pool_ok_Suc)
  obtain st s1 t1 where l: "tpm_log_event_raw fw (VarLog_bytes v) 7 (VarLog_bytes v)
      EV_EFI_VARIABLE_AUTHORITY None ?s t = Some (st, s1, t1)"
    and k: "tpm_keeps ?s s1"
    and e: "ext t1 = ext t @ (if EFI_ERROR st then [] else [var_event v])"
    using tpm_log_event_raw_extends [OF fw] unfolding var_event_def by blast
  have m1: "measured s1 ms" using m ks k by (blast intro: measured_keeps)
  obtain s2 where r: "tpm_record_data_measurement v s1 = Some (EFI_SUCCESS, s2)"
    and m2: "measured s2 (ms @ [v])"
    using tpm_record_spec [OF m1] by blast
  have "tpm_measure_variable fw v s t =
      (if EFI_ERROR st then Some (st, s1, t1) else Some (EFI_SUCCESS, s2, t1))"
    using False w l r m
    by (simp add: tpm_measure_variable_def tpm_data_measured_spec AllocatePool_ok [OF ok] nd Let_def)
  then show ?thesis using m1 m2 e False by (auto simp: status_simps)
qed

text \<open>The type of an event, and the extensions for variables.\<close>

definition event_type :: "buf \<Rightarrow> nat" where
  "event_type e = le_val (take 4 (drop 14 e))"

definition var_events :: "(buf \<times> buf) list \<Rightarrow> (buf \<times> buf) list" where
  "var_events xs = filter (\<lambda>x. event_type (snd x) = EV_EFI_VARIABLE_AUTHORITY) xs"

lemma event_type_bytes: "event_type (event_bytes ver r type log) = type mod 2 ^ 32"
  by (simp add: event_type_def event_bytes_def le_val_le_bytes)

lemma var_events_Nil [simp]: "var_events [] = []"
  by (simp add: var_events_def)

lemma var_events_append: "var_events (xs @ ys) = var_events xs @ var_events ys"
  by (simp add: var_events_def)

lemma var_events_var: "var_events [var_event v] = [var_event v]"
  by (simp add: var_events_def var_event_def event_type_bytes EV_EFI_VARIABLE_AUTHORITY_def
      EV_EFI_EVENT_BASE_def)

lemma var_events_pe:
  "var_events [(b, event_bytes ver pcr EV_EFI_BOOT_SERVICES_APPLICATION log)] = []"
  by (simp add: var_events_def event_type_bytes EV_EFI_VARIABLE_AUTHORITY_def
      EV_EFI_BOOT_SERVICES_APPLICATION_def EV_EFI_EVENT_BASE_def)

fun event_fits :: "tpm_event \<Rightarrow> bool" where
  "event_fits (MeasureVariable n g d) = fits (n, g, d)"
| "event_fits (LogPe b addr h) = True"

text \<open>The variable that a successful call has measured.\<close>

fun measures_var :: "tpm_event \<Rightarrow> variable_record \<Rightarrow> bool" where
  "measures_var (MeasureVariable n g d) v = (v = (n, g, d))"
| "measures_var (LogPe b addr h) v = False"

lemma tpm_call_spec:
  assumes fw: "tpm2_extends fw ext" and m: "measured s ms" and e: "event_fits e"
  shows "\<exists>st s' t' new. tpm_call fw location e s t = Some (st, s', t') \<and>
    measured s' (ms @ new) \<and> var_events (ext t') = var_events (ext t) @ map var_event new \<and>
    (distinct ms \<longrightarrow> distinct (ms @ new)) \<and> (\<forall>v \<in> set new. \<not> EFI_ERROR st \<and> measures_var e v) \<and>
    (\<not> EFI_ERROR st \<longrightarrow> (\<forall>v. measures_var e v \<longrightarrow> v \<in> set (ms @ new)))"
proof (cases e)
  case (MeasureVariable n g d)
  let ?v = "(n, g, d)"
  obtain st s' t' where r: "tpm_measure_variable fw ?v s t = Some (st, s', t')"
      "measured s' (ms @ (if ?v \<in> set ms \<or> EFI_ERROR st then [] else [?v]))"
      "ext t' = ext t @ (if ?v \<in> set ms \<or> EFI_ERROR st then [] else [var_event ?v])"
    using tpm_measure_variable_spec [OF fw m] e MeasureVariable by fastforce
  show ?thesis
    by (rule exI [of _ st], rule exI [of _ s'], rule exI [of _ t'],
        rule exI [of _ "if ?v \<in> set ms \<or> EFI_ERROR st then [] else [?v]"])
      (use r MeasureVariable in
        \<open>auto simp: tpm_call_def var_events_append var_events_var split: if_splits\<close>)
next
  case (LogPe b addr h)
  have ok: "pool_ok (tpool s)" using m by (simp add: measured_def)
  let ?s = "s\<lparr>tpool := \<lambda>k. tpool s (Suc k)\<rparr>"
  obtain st s' t' where r: "tpm_log_event_raw fw b 4 (image_load_event location (length b) addr [])
      EV_EFI_BOOT_SERVICES_APPLICATION (Some h) ?s t = Some (st, s', t')" and k: "tpm_keeps ?s s'"
    and x: "ext t' = ext t @ (if EFI_ERROR st then [] else
      [(b, event_bytes 1 4 EV_EFI_BOOT_SERVICES_APPLICATION
         (image_load_event location (length b) addr []))])"
    using tpm_log_event_raw_extends [OF fw] by blast
  have "tpm_keeps s ?s" using ok by (simp add: tpm_keeps_def pool_ok_Suc)
  then have "measured s' ms" using m k by (blast intro: measured_keeps)
  then show ?thesis
    using r x LogPe
    by (intro exI [of _ st] exI [of _ s'] exI [of _ t'] exI [of _ "[]"])
      (auto simp: tpm_call_def tpm_log_pe_def AllocatePool_ok [OF ok] Let_def var_events_append
        var_events_pe)
qed

lemma tpm_calls_spec:
  assumes fw: "tpm2_extends fw ext" and "measured s ms" and "distinct ms" and "list_all event_fits es"
  shows "\<exists>sts s' t' new. tpm_calls fw location es s t = Some (sts, s', t') \<and> length sts = length es \<and>
    measured s' (ms @ new) \<and> var_events (ext t') = var_events (ext t) @ map var_event new \<and>
    distinct (ms @ new) \<and>
    (\<forall>v \<in> set new. \<exists>i < length es. \<not> EFI_ERROR (sts ! i) \<and> measures_var (es ! i) v) \<and>
    (\<forall>i < length es. \<not> EFI_ERROR (sts ! i) \<longrightarrow> (\<forall>v. measures_var (es ! i) v \<longrightarrow> v \<in> set (ms @ new)))"
  using assms(2-4)
proof (induction es arbitrary: s t ms)
  case Nil
  then show ?case by auto
next
  case (Cons e es)
  have es: "event_fits e" "list_all event_fits es" using Cons.prems(3) by auto
  obtain st s1 t1 new1 where c: "tpm_call fw location e s t = Some (st, s1, t1)"
      "measured s1 (ms @ new1)" "var_events (ext t1) = var_events (ext t) @ map var_event new1"
      "distinct (ms @ new1)" "\<forall>v \<in> set new1. \<not> EFI_ERROR st \<and> measures_var e v"
      "\<not> EFI_ERROR st \<longrightarrow> (\<forall>v. measures_var e v \<longrightarrow> v \<in> set (ms @ new1))"
    using tpm_call_spec [OF fw Cons.prems(1) es(1), of location t] Cons.prems(2) by blast
  obtain sts s' t' new2 where r: "tpm_calls fw location es s1 t1 = Some (sts, s', t')"
      "length sts = length es" "measured s' ((ms @ new1) @ new2)"
      "var_events (ext t') = var_events (ext t1) @ map var_event new2"
      "distinct ((ms @ new1) @ new2)"
      "\<forall>v \<in> set new2. \<exists>i < length es. \<not> EFI_ERROR (sts ! i) \<and> measures_var (es ! i) v"
      "\<forall>i < length es. \<not> EFI_ERROR (sts ! i) \<longrightarrow>
        (\<forall>v. measures_var (es ! i) v \<longrightarrow> v \<in> set ((ms @ new1) @ new2))"
    using Cons.IH [OF c(2,4) es(2), of t1] by blast
  show ?case
  proof (rule exI [of _ "st # sts"], rule exI [of _ s'], rule exI [of _ t'],
      rule exI [of _ "new1 @ new2"], intro conjI)
    show "\<forall>i < length (e # es). \<not> EFI_ERROR ((st # sts) ! i) \<longrightarrow>
        (\<forall>v. measures_var ((e # es) ! i) v \<longrightarrow> v \<in> set (ms @ new1 @ new2))"
      using c(6) r(7) by (auto simp: nth_Cons simp del: split_paired_All split: nat.split)
    show "\<forall>v \<in> set (new1 @ new2). \<exists>i < length (e # es).
        \<not> EFI_ERROR ((st # sts) ! i) \<and> measures_var ((e # es) ! i) v"
    proof
      fix v assume "v \<in> set (new1 @ new2)"
      then consider "v \<in> set new1" | "v \<in> set new2" by auto
      then show "\<exists>i < length (e # es). \<not> EFI_ERROR ((st # sts) ! i) \<and> measures_var ((e # es) ! i) v"
      proof cases
        case 1
        then show ?thesis using c(5) by (intro exI [of _ 0]) simp
      next
        case 2
        then obtain i where "i < length es" "\<not> EFI_ERROR (sts ! i)" "measures_var (es ! i) v"
          using r(6) by blast
        then show ?thesis by (intro exI [of _ "Suc i"]) simp
      qed
    qed
  qed (use c r in auto)
qed

text \<open>C35. Each variable is measured once. On a TPM 2 that extends what it does not refuse, and with memory
  to record them, any sequence of calls of \<^verbatim>\<open>tpm_measure_variable\<close> and \<^verbatim>\<open>tpm_log_pe\<close> made by a verification
  returns, and the extensions for variables are exactly those of a list without duplicates: the variables
  recorded as measured, in that order. A call that succeeds has its variable in the list, and the list has
  no variable that no call named.\<close>

theorem measured_once:
  assumes "tpm2_extends fw ext" and "measuredcount s = 0" and "measureddata s = None"
    and "pool_ok (tpool s)" and "list_all event_fits es"
  shows "\<exists>sts s' t' ms. tpm_calls fw location es s t = Some (sts, s', t') \<and>
    var_events (ext t') = var_events (ext t) @ map var_event ms \<and> distinct ms \<and>
    measuredcount s' = length ms \<and>
    (\<forall>v. v \<in> set ms \<longleftrightarrow> (\<exists>i < length es. \<not> EFI_ERROR (sts ! i) \<and> measures_var (es ! i) v))"
proof -
  have "measured s []" using assms(2-4) by (simp add: measured_def)
  note r = tpm_calls_spec [OF assms(1) this distinct.simps(1) [THEN iffD2, OF TrueI] assms(5),
      of location t, unfolded append_Nil]
  obtain sts s' t' ms where r: "tpm_calls fw location es s t = Some (sts, s', t')" "measured s' ms"
      "var_events (ext t') = var_events (ext t) @ map var_event ms" "distinct ms"
      "\<forall>v \<in> set ms. \<exists>i < length es. \<not> EFI_ERROR (sts ! i) \<and> measures_var (es ! i) v"
      "\<forall>i < length es. \<not> EFI_ERROR (sts ! i) \<longrightarrow> (\<forall>v. measures_var (es ! i) v \<longrightarrow> v \<in> set ms)"
    using r by blast
  then have "measuredcount s' = length ms" by (simp add: measured_def)
  then show ?thesis using r by blast
qed

text \<open>A TPM 2 whose log holds two events: it refuses nothing, and reports a full log from then on.\<close>

definition sample_tpm :: "(buf \<times> buf) list tpm_fw" where
  "sample_tpm = \<lparr>
     locate_cc = (\<lambda>_. (EFI_NOT_FOUND, False)),
     map_pcr_to_mr_index = (\<lambda>pcr _. (EFI_SUCCESS, pcr)),
     cc_hash_log_extend_event = (\<lambda>_ _ _ t. (EFI_UNSUPPORTED, t)),
     locate_tpm2 = (\<lambda>_. EFI_SUCCESS),
     get_capability = (\<lambda>_. (EFI_SUCCESS, \<lparr>StructureVersion = (1, 1), TPMPresentFlag = True\<rparr>)),
     hash_log_extend_event = (\<lambda>_ b e t.
       (if length t < 2 then EFI_SUCCESS else EFI_VOLUME_FULL, t @ [(b, e)])),
     locate_tpm = (\<lambda>_. EFI_NOT_FOUND),
     status_check = (\<lambda>_. (EFI_NOT_FOUND, False, False)),
     log_extend_event = (\<lambda>_ _ t. (EFI_UNSUPPORTED, t))\<rparr>"

definition tpm_init :: "pool \<Rightarrow> tpm_state" where
  "tpm_init p = \<lparr>measuredcount = 0, measureddata = None, tpm_defective = False,
     log_full_already_warned = False, tpool = p\<rparr>"

definition sample_calls :: "tpm_event list" where
  "sample_calls =
     [MeasureVariable (wlit ''db'') SIG_DB [1, 2], LogPe [5] 0 (replicate 20 7),
      MeasureVariable (wlit ''Shim'') SHIM_LOCK_GUID [3], MeasureVariable (wlit ''db'') SIG_DB [1, 2]]"

theorem measured_once_witness:
  "\<exists>sts s' t' ms. tpm_calls sample_tpm 0 sample_calls (tpm_init (\<lambda>_ _. True)) [] = Some (sts, s', t') \<and>
    var_events t' = map var_event ms \<and> distinct ms \<and> measuredcount s' = length ms \<and> length t' = 3 \<and>
    length ms = 2"
proof -
  have "tpm2_extends sample_tpm (\<lambda>t. t)"
    by (auto simp: tpm2_extends_def sample_tpm_def status_simps)
  note m = measured_once [OF this, of "tpm_init (\<lambda>_ _. True)" sample_calls 0 "[]"]
  have f: "list_all event_fits sample_calls" by code_simp
  have c: "map_option (\<lambda>(sts, s', t'). (measuredcount s', length t'))
      (tpm_calls sample_tpm 0 sample_calls (tpm_init (\<lambda>_ _. True)) []) = Some (2, 3)"
    by code_simp
  obtain sts s' t' ms where r: "tpm_calls sample_tpm 0 sample_calls (tpm_init (\<lambda>_ _. True)) [] =
      Some (sts, s', t')" "var_events t' = map var_event ms" "distinct ms" "measuredcount s' = length ms"
    using m f by (auto simp: tpm_init_def pool_ok_def)
  then show ?thesis using c by auto
qed

section \<open>No TPM\<close>

text \<open>Without any of the protocols nothing is measured, and that is not an error.\<close>

lemma no_tpm_no_error:
  assumes "EFI_ERROR (fst (locate_cc fw t))" and "EFI_ERROR (locate_tpm2 fw t)"
    and "locate_tpm fw t = EFI_NOT_FOUND"
  shows "tpm_log_event_raw fw b pcr log type h s t = Some (EFI_SUCCESS, s, t)"
proof -
  have "cc_log_event_raw fw b pcr log type pe s t = (EFI_SUCCESS, s, t)" for pe
    using assms(1) by (cases "locate_cc fw t") (simp add: cc_log_event_raw_def)
  moreover have "tpm_locate_protocol fw s t = (EFI_NOT_FOUND, NoTpm)"
    using assms(2,3) by (simp add: tpm_locate_protocol_def status_simps)
  ultimately show ?thesis by (simp add: tpm_log_event_raw_def status_simps)
qed

text \<open>A full log is never reported to the caller.\<close>

lemma volume_full_hidden: "fst (log_full st s) \<noteq> EFI_VOLUME_FULL"
  by (simp add: log_full_def)

text \<open>A defective TPM 1.2 is not used again.\<close>

lemma defective_not_used:
  assumes "tpm_defective s" and "EFI_ERROR (locate_tpm2 fw t)" and "\<not> EFI_ERROR (locate_tpm fw t)"
  shows "tpm_locate_protocol fw s t = (EFI_NOT_FOUND, Tpm12)"
  using assms by (simp add: tpm_locate_protocol_def tpm_present_def Let_def)

text \<open>When the array of records cannot be extended, it is lost but its length is kept: the next
  measurement of any variable reads through a NULL pointer.\<close>

lemma records_lost:
  assumes "measured s ms" and "ms \<noteq> []" and "s' = s\<lparr>tpool := p\<rparr>" and "\<not> p 0 ((length ms + 1) * 32)"
  shows "\<exists>s''. tpm_record_data_measurement v s' = Some (EFI_OUT_OF_RESOURCES, s'') \<and>
    tpm_measure_variable fw v' s'' t = None"
proof -
  let ?s = "s\<lparr>measureddata := None, tpool := \<lambda>k. p (Suc k)\<rparr>"
  have "tpm_record_data_measurement v s' = Some (EFI_OUT_OF_RESOURCES, ?s)"
    using assms by (simp add: tpm_record_data_measurement_def AllocatePool_def measured_def)
  moreover have "tpm_data_measured v' ?s = None"
    using assms(1,2) by (simp add: tpm_data_measured_def measured_def)
      (subst tpm_data_measured_from.simps, simp)
  then have "tpm_measure_variable fw v' ?s t = None" by (simp add: tpm_measure_variable_def)
  ultimately show ?thesis by blast
qed

end
