(* ===== verification/Spec2Isabelle.thy ===== *)
theory Spec2Isabelle
  imports Cstring Csv Sbat_Level Loader_Proto Load_Options Tpm
begin

text \<open>
  A verification of shim, the first-stage UEFI boot loader that extends the trust of the firmware's secure
  boot to a second stage.

  \<^bold>\<open>The program.\<close> shim reads its options, loads the second stage (a PE image) into a buffer, hashes it
  (Authenticode), decides from the firmware's databases, the machine owner's lists, its own certificates and
  the SBAT revocation levels whether the image may run, places its sections in memory, protects and relocates
  them, and starts it. It installs a protocol through which a second stage has further images verified,
  caches the hashes of the sections of verified images, replaces the firmware's image services by its own,
  measures what it verified, and keeps the SBAT level in a variable that it means to move forward only.

  \<^bold>\<open>The theories\<close>, in the order in which they build on one another:

  \<^item> \<open>Shim_Base\<close> is the prelude: bytes, buffers with bounds-checked loads and stores (\<open>rd\<close>, \<open>rdn\<close>, \<open>wr\<close>, \<open>wrn\<close>),
    little-endian numbers, arithmetic modulo \<open>2 ^ 64\<close> and \<open>2 ^ 32\<close>, the status codes, the pool allocator as a
    sequence of answers, C strings, GUIDs, UCS-2 strings.
  \<^item> \<open>Cstring\<close> is \<^verbatim>\<open>lib/string.c\<close>: each string function as a loop over memory, and that it computes the C
    standard's function and stays within the strings.
  \<^item> \<open>Csv\<close> is \<^verbatim>\<open>csv.c\<close>: the parser that cuts a buffer in place, and its refinement to a function on lists of
    fields.
  \<^item> \<open>Efi_Services\<close> holds the runtime services as a record and their contract as the locale
    \<open>variable_services\<close>: the variables are a finite map. \<open>Esl\<close> holds the layout of signature lists.
    \<open>Variables\<close> is \<^verbatim>\<open>lib/variables.c\<close> (with \<^verbatim>\<open>lib/guid.c\<close> and \<^verbatim>\<open>secure_mode\<close> of \<^verbatim>\<open>shim.c\<close>). \<open>Mock_Variables\<close>
    is the store of \<^verbatim>\<open>mock-variables.c\<close>, proved to implement the contract whatever its sort policy: the
    interpretation \<open>mock\<close>, through which the statements on variables are made of this store.
  \<^item> \<open>Sbat\<close> is the first half of \<^verbatim>\<open>sbat.c\<close>: the \<^verbatim>\<open>.sbat\<close> section against the revocations. \<open>Sbat_Level\<close> is the
    second half, the choice and the update of the levels: when allocations succeed no update goes back, and
    without memory the code does not compare (section \<open>Defects\<close>).
  \<^item> \<open>Pe_Header\<close>, \<open>Pe_Relocate\<close> are \<^verbatim>\<open>pe-relocate.c\<close> and \<^verbatim>\<open>include/peimage.h\<close>: \<^verbatim>\<open>read_header\<close> keeps to the file
    and establishes the facts (\<open>pe_ok\<close>) that the other parts rely on; \<^verbatim>\<open>relocate_coff\<close> adds the displacement
    at exactly the listed places.
  \<^item> \<open>Pe_Hash\<close> is \<^verbatim>\<open>generate_hash\<close> of \<^verbatim>\<open>pe.c\<close>: the digest is that of the Authenticode bytes, and no byte outside
    the file is read. The digest functions are a record of parameters.
  \<^item> \<open>Section_Cache\<close> is the cache of section hashes of \<^verbatim>\<open>pe.c\<close>, with the runs of its operations.
  \<^item> \<open>Verify\<close> is \<^verbatim>\<open>verify.c\<close>: the allow list, the deny list, the signatures and the protocol. On a
    well-formed certificate table the verdict is that of a declarative specification; on any image a success
    means that no deny list has its digest and that a list or a signature authorises it. The lists are the
    decoded contents of the variables (\<open>view_ok\<close>).
  \<^item> \<open>Pe_Load\<close> is \<^verbatim>\<open>handle_image\<close> of \<^verbatim>\<open>pe.c\<close>: bounds, page accounting, the contents of what is loaded
    and the exact list of permissions that are requested.
  \<^item> \<open>Load_Options\<close> is \<^verbatim>\<open>load-options.c\<close>, \<^verbatim>\<open>dp.c\<close>, the UCS-2 helpers and \<^verbatim>\<open>generate_path\<close>: the paths, the decoding
    of a load option, and the bounds of the options of the second stage.
  \<^item> \<open>Loader_Proto\<close> is \<^verbatim>\<open>loader-proto.c\<close>: LoadImage, StartImage, UnloadImage and Exit as the steps of an
    inductive relation (\<open>proto_run\<close>) that carries the history of the successful LoadImage calls; whatever the
    calls, an image that is started was created by one of them, whose bytes \<^verbatim>\<open>handle_image\<close> accepted in the
    state of that call (\<open>accepted\<close>), and memory is accounted for.
  \<^item> \<open>Tpm\<close> is \<^verbatim>\<open>tpm.c\<close>: the measurements that the verification makes, each variable once.

  \<^bold>\<open>Conventions.\<close> A pointer into a buffer is an index, NULL is \<open>None\<close>. A function that returns \<open>None\<close> where the code
  has a result to give has left the buffers it was given, or has not ended: a statement that a function returns
  \<open>Some\<close> is one of memory safety and of termination. Statuses are values of \<open>efi_status\<close>; \<open>Inl\<close> of a
  sum is an early return. State is passed explicitly: the firmware's is a type variable \<open>'w\<close> (\<open>'t\<close> for the TPM),
  the globals of a file are a record. \<^verbatim>\<open>size_t\<close> and \<^verbatim>\<open>UINTN\<close> have 64 bits (x86_64 and aarch64).

  \<^bold>\<open>Loops.\<close> Loops whose progress is evident are structural recursions or functions with a measure (the
  distance to the end of the buffer). Loops that a malformed input can keep from ending, such as those over
  signature lists of size zero, are partial functions into \<open>option\<close>; the statements on them prove that they
  return on well-formed input, and name the inputs on which they do not. No fuel is used.

  \<^bold>\<open>Parameters.\<close> The runtime and boot services, the file and TPM protocols, the page allocator, the
  hash functions and the PKCS7 verification, \<^verbatim>\<open>DevicePathToStr\<close> and the certificates and lists of the build are not
  in the repository or are firmware; they are arguments of the definitions that use them. What is assumed of
  them is a hypothesis of the statement or a law of a locale: the contract of the variable services, that
  digests are functions of the hashed bytes and have their size, and the documented effect of the TPM's extend operation.

  \<^bold>\<open>Not modelled.\<close> Console output (\<^verbatim>\<open>lib/console.c\<close>, \<^verbatim>\<open>print_crypto.c\<close>, \<^verbatim>\<open>hexdump.c\<close>, \<^verbatim>\<open>errlog.c\<close>) has no effect on
  a decision. The user interface \<^verbatim>\<open>MokManager.c\<close> with its password hashes (\<^verbatim>\<open>PasswordCrypt.c\<close>,
  \<^verbatim>\<open>crypt_blowfish.c\<close>) and \<^verbatim>\<open>fallback.c\<close> are separate programs. \<^verbatim>\<open>mok.c\<close> mirrors the machine owner's variables
  at start-up; the verification reads \<^verbatim>\<open>MokListX\<close> and \<^verbatim>\<open>MokListRT\<close>, the mirror of \<^verbatim>\<open>MokList\<close>, which are variables of the
  model, and what put them there is left open. \<^verbatim>\<open>httpboot.c\<close> and \<^verbatim>\<open>netboot.c\<close> fetch an image over the
  network into the buffer that is then verified. \<^verbatim>\<open>memattrs.c\<close>, \<^verbatim>\<open>lib/configtable.c\<close>,
  \<^verbatim>\<open>lib/security_policy.c\<close>, \<^verbatim>\<open>lib/simple_file.c\<close>, \<^verbatim>\<open>lib/shell.c\<close>, \<^verbatim>\<open>time.c\<close> and \<^verbatim>\<open>utils.c\<close> pass calls on to the
  firmware. Of \<^verbatim>\<open>shim.c\<close> only \<^verbatim>\<open>secure_mode\<close> is modelled. \<^verbatim>\<open>Cryptlib\<close> is OpenSSL and its glue. The tools of the build
  (\<^verbatim>\<open>post-process-pe.c\<close>, \<^verbatim>\<open>buildid.c\<close>, \<^verbatim>\<open>generate_sbat_var_defs.c\<close>), the tests and the fuzzers are not part of
  shim; \<^verbatim>\<open>model.c\<close> is a model for a static analyser.
\<close>

end
